(* ===== verification/Neuron_Prelude.thy ===== *)
theory Neuron_Prelude
  imports Main "HOL-Library.Word" "HOL-Library.Multiset" "HOL-Library.Sublist"
begin

unbundle bit_operations_syntax

text \<open>
  Shared vocabulary of the development: names for C's integer types, byte views of
  machine words on a little-endian host, bounded byte stores into C objects, the C
  library string routines the sources call, and the collections of rewrite rules that the
  component theories extend.
\<close>

section \<open>Rule collections\<close>

named_theorems byte_simps \<open>reading back bytes that were stored\<close>
named_theorems hash_simps \<open>lookups in a table after an update\<close>
named_theorems frame_simps \<open>layout of protocol frames\<close>

section \<open>Machine integers\<close>

type_synonym u8 = "8 word"
type_synonym u16 = "16 word"
type_synonym u32 = "32 word"
type_synonym u64 = "64 word"
type_synonym bytes = "8 word list"

text \<open>
  A word in memory: \<open>le_bytes n w\<close> are the \<open>n\<close> bytes of \<open>w\<close> at increasing addresses
  on a little-endian host and \<open>le_word\<close> is the load of such bytes.
\<close>

fun le_word :: "bytes \<Rightarrow> 'a::len word" where
  "le_word [] = 0"
| "le_word (b # bs) = ucast b OR push_bit 8 (le_word bs)"

fun le_bytes :: "nat \<Rightarrow> 'a::len word \<Rightarrow> bytes" where
  "le_bytes 0 w = []"
| "le_bytes (Suc n) w = ucast w # le_bytes n (drop_bit 8 w)"

text \<open>
  A store of the bytes \<open>bs\<close> at byte offset \<open>off\<close> of a C object with bytes \<open>obj\<close>, and the
  load of \<open>n\<close> bytes there. Callers keep inside the object; the size is preserved then.
\<close>

definition store_bytes :: "nat \<Rightarrow> bytes \<Rightarrow> bytes \<Rightarrow> bytes" where
  "store_bytes off bs obj = take off obj @ bs @ drop (off + length bs) obj"

definition load_bytes :: "nat \<Rightarrow> nat \<Rightarrow> bytes \<Rightarrow> bytes" where
  "load_bytes off n obj = take n (drop off obj)"

text \<open>
  \<open>htons\<close>, \<open>htonl\<close> and their inverses of \<^verbatim>\<open>netinet/in.h\<close> on a little-endian host reverse
  the bytes of their argument.
\<close>

definition htons :: "u16 \<Rightarrow> u16" where
  "htons w = le_word (rev (le_bytes 2 w))"

definition ntohs :: "u16 \<Rightarrow> u16" where
  "ntohs w = le_word (rev (le_bytes 2 w))"

definition htonl :: "u32 \<Rightarrow> u32" where
  "htonl w = le_word (rev (le_bytes 4 w))"

definition ntohl :: "u32 \<Rightarrow> u32" where
  "ntohl w = le_word (rev (le_bytes 4 w))"

text \<open>Division of C's signed integers rounds towards zero.\<close>

definition c_div :: "int \<Rightarrow> int \<Rightarrow> int" where
  "c_div a b = sgn a * sgn b * (\<bar>a\<bar> div \<bar>b\<bar>)"

section \<open>C library strings\<close>

text \<open>
  A C string is the list of its characters before the terminating zero. A fixed array
  that \<^verbatim>\<open>strncpy\<close> fills from a zeroed state holds at most its size of them.
\<close>

definition strncpy_to :: "nat \<Rightarrow> string \<Rightarrow> string" where
  "strncpy_to n s = take n s"

text \<open>\<^verbatim>\<open>strstr\<close>, as a test for an occurrence.\<close>

definition strstr :: "string \<Rightarrow> string \<Rightarrow> bool" where
  "strstr haystack needle \<longleftrightarrow> sublist needle haystack"

text \<open>\<^verbatim>\<open>strchr\<close>: the suffix that starts at the first occurrence, if there is one.\<close>

fun strchr :: "string \<Rightarrow> char \<Rightarrow> string option" where
  "strchr [] c = None"
| "strchr (x # xs) c = (if x = c then Some (x # xs) else strchr xs c)"

text \<open>\<^verbatim>\<open>strstr(hay, needle) != NULL\<close>.\<close>

fun has_prefix :: "string \<Rightarrow> string \<Rightarrow> bool" where
  "has_prefix [] ys = True"
| "has_prefix (x # xs) [] = False"
| "has_prefix (x # xs) (y # ys) = (x = y \<and> has_prefix xs ys)"

fun strstr_found :: "string \<Rightarrow> string \<Rightarrow> bool" where
  "strstr_found [] n = (n = [])"
| "strstr_found (x # xs) n = (has_prefix n (x # xs) \<or> strstr_found xs n)"

subsection \<open>Number scanning of \<^verbatim>\<open>sscanf\<close>\<close>

definition is_space :: "char \<Rightarrow> bool" where
  "is_space c \<longleftrightarrow> c \<in> {CHR '' '', CHR 0x09, CHR 0x0A, CHR 0x0B, CHR 0x0C, CHR 0x0D}"

definition is_digit :: "char \<Rightarrow> bool" where
  "is_digit c \<longleftrightarrow> 48 \<le> (of_char c :: nat) \<and> (of_char c :: nat) \<le> 57"

definition digit_val :: "char \<Rightarrow> nat" where
  "digit_val c = of_char c - 48"

fun scan_digits :: "nat \<Rightarrow> string \<Rightarrow> nat \<times> string" where
  "scan_digits acc [] = (acc, [])"
| "scan_digits acc (c # cs) =
     (if is_digit c then scan_digits (10 * acc + digit_val c) cs else (acc, c # cs))"

text \<open>
  An integer conversion skips white space, takes an optional sign and at least one
  digit. The result is the sign, the magnitude and the unread input.
\<close>

definition scan_number :: "string \<Rightarrow> (bool \<times> nat \<times> string) option" where
  "scan_number s0 =
     (let s1 = dropWhile is_space s0;
          (neg, s2) = (case s1 of
              [] \<Rightarrow> (False, s1)
            | c # cs \<Rightarrow> if c = CHR ''-'' then (True, cs)
                       else if c = CHR ''+'' then (False, cs) else (False, s1))
      in case s2 of
           [] \<Rightarrow> None
         | c # cs \<Rightarrow> if is_digit c then (let (m, rest) = scan_digits 0 s2 in Some (neg, m, rest))
                    else None)"

text \<open>
  \<^verbatim>\<open>%u\<close> with any length modifier reads an \<^verbatim>\<open>unsigned long\<close>, which saturates at
  \<open>2 ^ 64 - 1\<close> and is negated modulo \<open>2 ^ 64\<close> after a minus sign; \<^verbatim>\<open>%d\<close> reads a
  \<^verbatim>\<open>long\<close>, which saturates at both ends. The assignment keeps the low bits that fit
  the destination.
\<close>

definition scan_u :: "string \<Rightarrow> ('a::len word \<times> string) option" where
  "scan_u s = (case scan_number s of
       None \<Rightarrow> None
     | Some (neg, m, rest) \<Rightarrow>
         Some (if m > 2 ^ 64 - 1 then word_of_int (2 ^ 64 - 1)
               else if neg then word_of_int (- int m) else word_of_int (int m), rest))"

definition scan_d :: "string \<Rightarrow> ('a::len word \<times> string) option" where
  "scan_d s = (case scan_number s of
       None \<Rightarrow> None
     | Some (neg, m, rest) \<Rightarrow>
         Some (word_of_int (if neg then max (- (2 ^ 63)) (- int m)
                            else min (2 ^ 63 - 1) (int m)), rest))"

text \<open>The decimal digits of a number, as \<^verbatim>\<open>printf\<close>'s \<^verbatim>\<open>%u\<close> and \<^verbatim>\<open>%d\<close> write a natural number.\<close>

fun show_nat :: "nat \<Rightarrow> string" where
  "show_nat n = (if n < 10 then [char_of (48 + n)] else show_nat (n div 10) @ [char_of (48 + n mod 10)])"

declare show_nat.simps [simp del]

section \<open>Facts about byte views\<close>

lemma length_le_bytes [simp]: "length (le_bytes n w) = n"
  by (induction n arbitrary: w) auto

lemma bit_le_word:
  "bit (le_word bs :: 'a::len word) k \<longleftrightarrow>
     k < LENGTH('a) \<and> k div 8 < length bs \<and> bit (bs ! (k div 8)) (k mod 8)"
proof (induction bs arbitrary: k)
  case Nil
  then show ?case by simp
next
  case (Cons b bs)
  show ?case
  proof (cases "k < 8")
    case True
    then show ?thesis
      by (auto simp: bit_simps)
  next
    case False
    then have k: "k div 8 = Suc ((k - 8) div 8)" "(k - 8) mod 8 = k mod 8"
      by (simp_all add: div_if mod_if)
    have nb: "\<not> bit b k"
      using False bit_imp_le_length [of b k] by auto
    have "bit (le_word (b # bs) :: 'a word) k \<longleftrightarrow>
        k < LENGTH('a) \<and> bit (le_word bs :: 'a word) (k - 8)"
      using False nb by (auto simp: bit_simps dest: bit_imp_le_length)
    also have "\<dots> \<longleftrightarrow> k < LENGTH('a) \<and> k div 8 < length (b # bs) \<and>
        bit ((b # bs) ! (k div 8)) (k mod 8)"
      unfolding Cons.IH k using False k by auto
    finally show ?thesis .
  qed
qed

lemma nth_le_bytes:
  "i < n \<Longrightarrow> le_bytes n w ! i = ucast (drop_bit (8 * i) w)"
proof (induction n arbitrary: w i)
  case 0
  then show ?case by simp
next
  case (Suc n)
  show ?case
  proof (cases i)
    case 0
    then show ?thesis by simp
  next
    case (Suc j)
    with Suc.prems Suc.IH [of j "drop_bit 8 w"] show ?thesis
      by (simp add: add.commute)
  qed
qed

lemma le_word_le_bytes [byte_simps]:
  assumes "LENGTH('a::len) \<le> 8 * n"
  shows "le_word (le_bytes n (w :: 'a word)) = w"
proof (rule bit_word_eqI)
  fix k assume "k < LENGTH('a)"
  with assms have "k div 8 < n" by (simp add: less_mult_imp_div_less mult.commute)
  then show "bit (le_word (le_bytes n w) :: 'a word) k = bit w k"
    using \<open>k < LENGTH('a)\<close>
    by (auto simp: bit_le_word nth_le_bytes bit_simps)
qed

lemma le_bytes_le_word [byte_simps]:
  assumes "length bs = n" and "8 * n \<le> LENGTH('a::len)"
  shows "le_bytes n (le_word bs :: 'a word) = bs"
proof (rule nth_equalityI)
  show "length (le_bytes n (le_word bs :: 'a word)) = length bs"
    using assms by simp
next
  fix i assume "i < length (le_bytes n (le_word bs :: 'a word))"
  then have i: "i < n" by simp
  show "le_bytes n (le_word bs :: 'a word) ! i = bs ! i"
  proof (rule bit_word_eqI)
    fix k assume "k < LENGTH(8)"
    then have k: "k < 8" by simp
    then have "8 * i + k < 8 * n" using i by linarith
    moreover have "(8 * i + k) div 8 = i" "(8 * i + k) mod 8 = k" using k by auto
    ultimately show "bit (le_bytes n (le_word bs :: 'a word) ! i) k = bit (bs ! i) k"
      using assms i k by (simp add: nth_le_bytes bit_simps bit_le_word add.commute)
  qed
qed

lemma rev_bytes_involution:
  assumes "LENGTH('a::len) = 8 * n"
  shows "le_word (rev (le_bytes n (le_word (rev (le_bytes n (w :: 'a word))) :: 'a word))) = w"
  using assms by (simp add: byte_simps)

lemma htons_htons [simp]: "htons (htons w) = w"
  by (simp add: htons_def byte_simps)

lemma ntohs_htons [simp]: "ntohs (htons w) = w"
  by (simp add: htons_def ntohs_def byte_simps)

lemma ntohl_htonl [simp]: "ntohl (htonl w) = w"
  by (simp add: htonl_def ntohl_def byte_simps)

lemma le_bytes_htons [byte_simps]: "le_bytes 2 (htons w) = rev (le_bytes 2 w)"
  by (simp add: htons_def byte_simps)

lemma le_bytes_ntohs [byte_simps]: "le_bytes 2 (ntohs w) = rev (le_bytes 2 w)"
  by (simp add: ntohs_def byte_simps)

lemma le_bytes_htonl [byte_simps]: "le_bytes 4 (htonl w) = rev (le_bytes 4 w)"
  by (simp add: htonl_def byte_simps)

lemma le_bytes_ntohl [byte_simps]: "le_bytes 4 (ntohl w) = rev (le_bytes 4 w)"
  by (simp add: ntohl_def byte_simps)

lemma length_store_bytes [simp]:
  "off + length bs \<le> length obj \<Longrightarrow> length (store_bytes off bs obj) = length obj"
  by (simp add: store_bytes_def)

lemma load_store_same [byte_simps]:
  "off + length bs \<le> length obj \<Longrightarrow> n = length bs \<Longrightarrow> load_bytes off n (store_bytes off bs obj) = bs"
  by (simp add: store_bytes_def load_bytes_def)

lemma load_store_after [byte_simps]:
  "off + length bs \<le> off' \<Longrightarrow> off + length bs \<le> length obj \<Longrightarrow>
     load_bytes off' n (store_bytes off bs obj) = load_bytes off' n obj"
  by (simp add: store_bytes_def load_bytes_def min_def)

lemma length_load_bytes [simp]: "off + n \<le> length obj \<Longrightarrow> length (load_bytes off n obj) = n"
  by (simp add: load_bytes_def)

lemma le_bytes_zero [simp]: "le_bytes 2 (0 :: u16) = [0, 0]"
  by (simp add: numeral_2_eq_2)

lemma le_word_rev_bytes [byte_simps]: "ntohs (le_word (rev (le_bytes 2 w))) = w"
  by (simp add: ntohs_def byte_simps)

lemma load_bytes_append:
  "length a = n \<Longrightarrow> load_bytes 0 n (a @ bs) = a"
  "length a = off \<Longrightarrow> load_bytes off n (a @ bs) = load_bytes 0 n bs"
  by (simp_all add: load_bytes_def)

lemma unat_ucast_u8: "unat (ucast (n :: u8) :: u16) = unat n"
proof -
  have "unat n < 2 ^ LENGTH(8)" by (rule unsigned_less)
  then show ?thesis by (simp add: unsigned_ucast_eq take_bit_nat_eq_self)
qed

lemma load_store_before [byte_simps]:
  "off' + n \<le> off \<Longrightarrow> off \<le> length obj \<Longrightarrow> load_bytes off' n (store_bytes off bs obj) = load_bytes off' n obj"
proof -
  assume a: "off' + n \<le> off" "off \<le> length obj"
  then have "n \<le> length (drop off' (take off obj))" by simp
  with a have "load_bytes off' n (store_bytes off bs obj) = take n (drop off' (take off obj))"
    by (simp add: store_bytes_def load_bytes_def)
  with a show ?thesis by (simp add: load_bytes_def drop_take min_absorb1)
qed

section \<open>Scanning what was printed\<close>

text \<open>\<open>no_digit s\<close>: a number in front of \<open>s\<close> ends there.\<close>

lemma is_digit_digit [simp]: "d < (10::nat) \<Longrightarrow> is_digit (char_of (48 + d))"
  by (simp add: is_digit_def of_char_of)

lemma digit_val_digit [simp]: "d < (10::nat) \<Longrightarrow> digit_val (char_of (48 + d)) = d"
  by (simp add: digit_val_def of_char_of)

lemma scan_digits_show: "scan_digits acc (show_nat n @ rest) =
    scan_digits (acc * 10 ^ length (show_nat n) + n) rest"
proof (induction n arbitrary: acc rest rule: show_nat.induct)
  case (1 n)
  show ?case
  proof (cases "n < 10")
    case True
    then show ?thesis by (subst (1 2) show_nat.simps) (simp add: mult.commute)
  next
    case False
    have "scan_digits acc (show_nat n @ rest) =
        scan_digits acc (show_nat (n div 10) @ char_of (48 + n mod 10) # rest)"
      using False by (subst show_nat.simps) simp
    also have "\<dots> = scan_digits (acc * 10 ^ length (show_nat (n div 10)) + n div 10)
        (char_of (48 + n mod 10) # rest)"
      using 1 False by simp
    also have "\<dots> = scan_digits (10 * (acc * 10 ^ length (show_nat (n div 10)) + n div 10) + n mod 10) rest"
      by simp
    also have "10 * (acc * 10 ^ length (show_nat (n div 10)) + n div 10) + n mod 10 =
        acc * 10 ^ Suc (length (show_nat (n div 10))) + n"
      by (simp add: algebra_simps)
    also have "Suc (length (show_nat (n div 10))) = length (show_nat n)"
      using False by (subst (2) show_nat.simps) simp
    finally show ?thesis .
  qed
qed

definition no_digit :: "string \<Rightarrow> bool" where
  "no_digit s \<longleftrightarrow> (case s of [] \<Rightarrow> True | c # _ \<Rightarrow> \<not> is_digit c)"

lemma scan_digits_stop: "no_digit rest \<Longrightarrow> scan_digits acc rest = (acc, rest)"
  by (cases rest) (auto simp: no_digit_def)

lemma show_nat_Cons: "\<exists>d ds. show_nat n = char_of (48 + d) # ds \<and> d < (10::nat)"
proof (induction n rule: show_nat.induct)
  case (1 n)
  show ?case
  proof (cases "n < 10")
    case True
    then have "show_nat n = char_of (48 + n) # []" by (subst show_nat.simps) simp
    with True show ?thesis by blast
  next
    case False
    with 1 obtain d ds where "show_nat (n div 10) = char_of (48 + d) # ds" "d < (10::nat)" by blast
    moreover from this have "show_nat n = char_of (48 + d) # ds @ [char_of (48 + n mod 10)]"
      using False by (subst show_nat.simps) simp
    ultimately show ?thesis by blast
  qed
qed

lemma char_digit_distinct:
  assumes "d < (10::nat)"
  shows "\<not> is_space (char_of (48 + d))" "char_of (48 + d) \<noteq> CHR ''-''" "char_of (48 + d) \<noteq> CHR ''+''"
proof -
  have *: "(of_char (char_of (48 + d) :: char) :: nat) = 48 + d" using assms by (simp add: of_char_of)
  show "char_of (48 + d) \<noteq> CHR ''-''" "char_of (48 + d) \<noteq> CHR ''+''"
    using * by (auto dest!: arg_cong [where f = "of_char :: char \<Rightarrow> nat"])
  show "\<not> is_space (char_of (48 + d))"
    using * by (auto simp: is_space_def dest!: arg_cong [where f = "of_char :: char \<Rightarrow> nat"])
qed

lemma scan_number_show: "no_digit rest \<Longrightarrow> scan_number (show_nat n @ rest) = Some (False, n, rest)"
proof -
  assume "no_digit rest"
  obtain d ds where s: "show_nat n = char_of (48 + d) # ds" "d < (10::nat)" using show_nat_Cons by blast
  have "scan_digits 0 (show_nat n @ rest) = (n, rest)"
    using scan_digits_show [of 0 n rest] scan_digits_stop [OF \<open>no_digit rest\<close>] by simp
  then show ?thesis
    using s char_digit_distinct [OF s(2)] by (simp add: scan_number_def)
qed

lemma scan_u_show: "no_digit rest \<Longrightarrow> n < 2 ^ 64 \<Longrightarrow> scan_u (show_nat n @ rest) = Some (of_nat n, rest)"
  by (simp add: scan_u_def scan_number_show)

lemma scan_d_show: "no_digit rest \<Longrightarrow> n < 2 ^ 63 \<Longrightarrow> scan_d (show_nat n @ rest) = Some (of_nat n, rest)"
  by (simp add: scan_d_def scan_number_show min_absorb2)

lemma show_nat_not_digit: "c \<in> set (show_nat n) \<Longrightarrow> is_digit c"
proof (induction n rule: show_nat.induct)
  case (1 n)
  then show ?case by (subst (asm) (2) show_nat.simps) (auto split: if_splits)
qed

lemma length_show_nat_byte: "n < 1000 \<Longrightarrow> length (show_nat n) \<le> 3"
  by (subst show_nat.simps, auto, subst show_nat.simps, auto, subst show_nat.simps, auto)

section \<open>Further facts on integers and lists\<close>

lemma unat_u16_less: "unat (w::u16) < 65536"
  using unsigned_less [of w, where 'a = nat] by simp

lemma c_div_nonneg: "0 \<le> a \<Longrightarrow> 0 < b \<Longrightarrow> c_div a b = a div b"
  by (cases "a = 0") (simp_all add: c_div_def)

lemma those_map_Some:
  assumes "\<And>x. x \<in> set xs \<Longrightarrow> f x = Some (g x)"
  shows "those (map f xs) = Some (map g xs)"
  using assms by (induction xs) auto

lemma unat_u16_add_small: "unat (a::u16) + unat b < 65536 \<Longrightarrow> unat (a + b) = unat a + unat b"
  using unat_add_lem [of a b] by simp

lemma uint_seq_Suc: "(s::u16) \<noteq> 0xffff \<Longrightarrow> uint (s + 1) = uint s + 1"
proof -
  assume "s \<noteq> 0xffff"
  then have "unat s \<noteq> 65535" by (simp add: word_unat_eq_iff)
  then have "unat (s + 1) = unat s + unat (1::u16)"
    using unat_u16_less [of s] by (intro unat_u16_add_small) simp
  then show ?thesis unfolding uint_nat by simp
qed

end
