(* ===== verification/Protocol_Buf.thy ===== *)
theory Protocol_Buf
  imports Neuron_Prelude
begin

text \<open>
  The cursor over a byte buffer of \<^verbatim>\<open>include/neuron/utils/protocol_buf.h\<close>. An unpack buffer
  is read front to back, a pack buffer is filled back to front. Both are one C struct: the
  memory \<open>base\<close>, its \<open>size\<close> and an \<open>offset\<close>, each integer 16 bits wide. The functions that
  return a pointer into the memory return its index here, and \<open>None\<close> where they return
  \<^verbatim>\<open>NULL\<close>.
\<close>

section \<open>The buffer and its operations\<close>

record protocol_buf =
  base :: bytes
  bsize :: u16
  boffset :: u16

definition neu_protocol_pack_buf_init :: "bytes \<Rightarrow> u16 \<Rightarrow> protocol_buf" where
  "neu_protocol_pack_buf_init mem sz = \<lparr>base = mem, bsize = sz, boffset = sz\<rparr>"

definition neu_protocol_unpack_buf_init :: "bytes \<Rightarrow> u16 \<Rightarrow> protocol_buf" where
  "neu_protocol_unpack_buf_init mem sz = \<lparr>base = mem, bsize = sz, boffset = 0\<rparr>"

definition neu_protocol_buf_size :: "protocol_buf \<Rightarrow> u16" where
  "neu_protocol_buf_size b = bsize b"

definition neu_protocol_unpack_buf_new :: "u16 \<Rightarrow> protocol_buf" where
  "neu_protocol_unpack_buf_new sz = \<lparr>base = replicate (unat sz) 0, bsize = sz, boffset = 0\<rparr>"

definition neu_protocol_pack_buf_new :: "u16 \<Rightarrow> protocol_buf" where
  "neu_protocol_pack_buf_new sz = \<lparr>base = replicate (unat sz) 0, bsize = sz, boffset = sz\<rparr>"

definition neu_protocol_unpack_buf_reset :: "protocol_buf \<Rightarrow> protocol_buf" where
  "neu_protocol_unpack_buf_reset b =
     b\<lparr>boffset := 0, base := store_bytes 0 (replicate (unat (bsize b)) 0) (base b)\<rparr>"

definition neu_protocol_pack_buf_reset :: "protocol_buf \<Rightarrow> protocol_buf" where
  "neu_protocol_pack_buf_reset b =
     b\<lparr>boffset := bsize b, base := store_bytes 0 (replicate (unat (bsize b)) 0) (base b)\<rparr>"

text \<open>\<^verbatim>\<open>buf->size - buf->offset < size\<close> is evaluated in \<^verbatim>\<open>int\<close>.\<close>

definition neu_protocol_unpack_buf :: "protocol_buf \<Rightarrow> u16 \<Rightarrow> nat option \<times> protocol_buf" where
  "neu_protocol_unpack_buf b sz =
     (if uint (bsize b) - uint (boffset b) < uint sz then (None, b)
      else let b = b\<lparr>boffset := boffset b + sz\<rparr>
           in (Some (unat (boffset b) - unat sz), b))"

definition neu_protocol_unpack_buf_revert :: "protocol_buf \<Rightarrow> u16 \<Rightarrow> protocol_buf" where
  "neu_protocol_unpack_buf_revert b sz = b\<lparr>boffset := boffset b - sz\<rparr>"

definition neu_protocol_unpack_buf_get :: "protocol_buf \<Rightarrow> u16 \<Rightarrow> nat option" where
  "neu_protocol_unpack_buf_get b sz =
     (if uint (bsize b) - uint (boffset b) < uint sz then None else Some (unat (boffset b)))"

definition neu_protocol_pack_buf :: "protocol_buf \<Rightarrow> u16 \<Rightarrow> nat option \<times> protocol_buf" where
  "neu_protocol_pack_buf b sz =
     (if boffset b < sz then (None, b)
      else let b = b\<lparr>boffset := boffset b - sz\<rparr> in (Some (unat (boffset b)), b))"

definition neu_protocol_pack_buf_set :: "protocol_buf \<Rightarrow> u16 \<Rightarrow> u16 \<Rightarrow> nat option" where
  "neu_protocol_pack_buf_set b off sz =
     (if uint (boffset b) + uint off + uint sz - 1 > uint (bsize b) then None
      else Some (unat (boffset b) + unat off))"

definition neu_protocol_pack_buf_get :: "protocol_buf \<Rightarrow> nat" where
  "neu_protocol_pack_buf_get b = unat (boffset b)"

definition neu_protocol_pack_buf_unused_size :: "protocol_buf \<Rightarrow> u16" where
  "neu_protocol_pack_buf_unused_size b = boffset b"

definition neu_protocol_pack_buf_used_size :: "protocol_buf \<Rightarrow> u16" where
  "neu_protocol_pack_buf_used_size b = bsize b - boffset b"

definition neu_protocol_unpack_buf_unused_size :: "protocol_buf \<Rightarrow> u16" where
  "neu_protocol_unpack_buf_unused_size b = bsize b - boffset b"

definition neu_protocol_unpack_buf_used_size :: "protocol_buf \<Rightarrow> u16" where
  "neu_protocol_unpack_buf_used_size b = boffset b"

definition neu_protocol_unpack_buf_use_all :: "protocol_buf \<Rightarrow> protocol_buf" where
  "neu_protocol_unpack_buf_use_all b = b\<lparr>boffset := bsize b\<rparr>"

definition neu_protocol_unpack_buf_size :: "protocol_buf \<Rightarrow> u16" where
  "neu_protocol_unpack_buf_size b = bsize b"

section \<open>Well-formed buffers and what they hold\<close>

text \<open>
  A buffer is well formed when its size is the size of its memory and the cursor is inside.
  \<open>pending\<close> is what an unpack buffer has still to give and what a pack buffer holds so far:
  in both, the bytes from the cursor to the end.
\<close>

definition buf_ok :: "protocol_buf \<Rightarrow> bool" where
  "buf_ok b \<longleftrightarrow> unat (bsize b) = length (base b) \<and> boffset b \<le> bsize b"

definition pending :: "protocol_buf \<Rightarrow> bytes" where
  "pending b = drop (unat (boffset b)) (base b)"

lemma buf_ok_offset: "buf_ok b \<Longrightarrow> unat (boffset b) \<le> length (base b)"
  by (simp add: buf_ok_def word_le_nat_alt)

lemma length_pending: "buf_ok b \<Longrightarrow> length (pending b) = unat (bsize b) - unat (boffset b)"
  by (simp add: buf_ok_def pending_def)

lemma unat_unused_size:
  "buf_ok b \<Longrightarrow> unat (neu_protocol_unpack_buf_unused_size b) = length (pending b)"
  by (simp add: buf_ok_def length_pending neu_protocol_unpack_buf_unused_size_def unat_sub)

lemma unat_used_size:
  "buf_ok b \<Longrightarrow> unat (neu_protocol_pack_buf_used_size b) = length (pending b)"
  by (simp add: buf_ok_def length_pending neu_protocol_pack_buf_used_size_def unat_sub)

lemma unat_add_le:
  fixes a b c :: u16
  assumes "unat a + unat b \<le> unat c"
  shows "unat (a + b) = unat a + unat b"
proof -
  have "unat c < 2 ^ LENGTH(16)" by (rule unsigned_less)
  with assms have "unat a + unat b < 2 ^ LENGTH(16)" by linarith
  then show ?thesis by (rule unat_add_lem [THEN iffD1])
qed

text \<open>
  Reading \<open>size\<close> bytes succeeds exactly when that many are pending; it then gives the next
  bytes and consumes them.
\<close>

lemma uint_gap: "buf_ok b \<Longrightarrow>
    (uint (bsize b) - uint (boffset b) < uint sz \<longleftrightarrow> length (pending b) < unat sz)"
  using length_pending [of b] unfolding uint_nat buf_ok_def word_le_nat_alt by linarith

lemma unpack_None [frame_simps]:
  "buf_ok b \<Longrightarrow> length (pending b) < unat sz \<Longrightarrow> neu_protocol_unpack_buf b sz = (None, b)"
  by (simp add: neu_protocol_unpack_buf_def uint_gap)

lemma unpack_Some:
  assumes ok: "buf_ok b" and le: "unat sz \<le> length (pending b)"
  shows "\<exists>b'. neu_protocol_unpack_buf b sz = (Some (unat (boffset b)), b') \<and> buf_ok b' \<and>
      base b' = base b \<and> bsize b' = bsize b \<and> unat (boffset b') = unat (boffset b) + unat sz \<and>
      load_bytes (unat (boffset b)) (unat sz) (base b') = take (unat sz) (pending b) \<and>
      pending b' = drop (unat sz) (pending b)"
proof -
  have sum: "unat (boffset b) + unat sz \<le> unat (bsize b)"
    using le length_pending [OF ok] buf_ok_offset [OF ok] ok
    unfolding buf_ok_def by linarith
  then have u: "unat (boffset b + sz) = unat (boffset b) + unat sz"
    by (rule unat_add_le)
  have nl: "\<not> uint (bsize b) - uint (boffset b) < uint sz"
    using le by (simp add: uint_gap [OF ok])
  show ?thesis
    using ok sum nl
    by (auto simp: neu_protocol_unpack_buf_def u buf_ok_def pending_def load_bytes_def
        word_le_nat_alt add.commute [of "unat sz"])
qed

lemma unpack_inv: "buf_ok b \<Longrightarrow> neu_protocol_unpack_buf b sz = (r, b') \<Longrightarrow>
    buf_ok b' \<and> base b' = base b \<and> bsize b' = bsize b \<and> boffset b \<le> boffset b'"
  using unpack_None [of b sz] unpack_Some [of b sz]
  by (cases "unat sz \<le> length (pending b)") (auto simp: word_le_nat_alt)

text \<open>Reserving \<open>size\<close> bytes at the front of a pack buffer and filling them prepends them.\<close>

lemma pack_Some:
  assumes ok: "buf_ok b" and le: "sz \<le> boffset b"
  shows "\<exists>b'. neu_protocol_pack_buf b sz = (Some (unat (boffset b) - unat sz), b') \<and>
      buf_ok b' \<and> base b' = base b \<and> bsize b' = bsize b \<and>
      unat (boffset b') = unat (boffset b) - unat sz"
proof -
  have u: "unat (boffset b - sz) = unat (boffset b) - unat sz"
    using le by (rule unat_sub)
  show ?thesis
    using ok le
    by (auto simp: neu_protocol_pack_buf_def u buf_ok_def word_le_nat_alt not_less)
qed

lemma pack_None [frame_simps]: "boffset b < sz \<Longrightarrow> neu_protocol_pack_buf b sz = (None, b)"
  by (simp add: neu_protocol_pack_buf_def)

lemma store_prepends:
  assumes "buf_ok b" and "unat (boffset b) + length bs \<le> length (base b)"
  shows "pending (b\<lparr>base := store_bytes (unat (boffset b)) bs (base b)\<rparr>) =
      bs @ drop (length bs) (pending b)"
    and "buf_ok (b\<lparr>base := store_bytes (unat (boffset b)) bs (base b)\<rparr>)"
  using assms by (simp_all add: pending_def store_bytes_def buf_ok_def add.commute)

text \<open>
  \<open>wraps b r bs\<close>: the operation that gave \<open>r\<close> did not abort and put \<open>bs\<close> in front of what the
  pack buffer \<open>b\<close> held.
\<close>

definition wraps :: "protocol_buf \<Rightarrow> protocol_buf option \<Rightarrow> bytes \<Rightarrow> bool" where
  "wraps b r bs \<longleftrightarrow>
     (\<exists>b'. r = Some b' \<and> buf_ok b' \<and> bsize b' = bsize b \<and> pending b' = bs @ pending b)"

lemma wraps_unfold: "wraps b (Some b') bs \<longleftrightarrow>
    buf_ok b' \<and> bsize b' = bsize b \<and> pending b' = bs @ pending b"
  by (simp add: wraps_def)

lemma reserve_fill:
  assumes ok: "buf_ok b" and le: "sz \<le> boffset b"
  obtains b1 p where "neu_protocol_pack_buf b sz = (Some p, b1)" and "bsize b1 = bsize b"
    and "buf_ok b1" and "length (pending b1) = unat sz + length (pending b)"
    and "\<And>bs. length bs = unat sz \<Longrightarrow> wraps b (Some (b1\<lparr>base := store_bytes p bs (base b1)\<rparr>)) bs"
proof -
  from pack_Some [OF assms] obtain b1 where
    b1: "neu_protocol_pack_buf b sz = (Some (unat (boffset b) - unat sz), b1)" "buf_ok b1"
      "base b1 = base b" "bsize b1 = bsize b" and off: "unat (boffset b1) = unat (boffset b) - unat sz"
    by auto
  have room: "unat sz \<le> unat (boffset b)" using le by (simp add: word_le_nat_alt)
  have drop: "drop (unat sz) (pending b1) = pending b"
    using room by (simp add: pending_def off b1)
  have len: "length (pending b1) = unat sz + length (pending b)"
    using room buf_ok_offset [OF ok] by (simp add: pending_def off b1)
  have "wraps b (Some (b1\<lparr>base := store_bytes (unat (boffset b1)) bs (base b1)\<rparr>)) bs"
    if "length bs = unat sz" for bs
  proof -
    have fit: "unat (boffset b1) + length bs \<le> length (base b1)"
      using room buf_ok_offset [OF ok] by (simp add: off that b1)
    show ?thesis
      using store_prepends [OF b1(2) fit] b1 drop that by (simp add: wraps_def)
  qed
  with b1 len show thesis by (intro that [of "unat (boffset b1)" b1]) (simp_all add: off)
qed

lemma wraps_offset:
  assumes "buf_ok b" and "wraps b (Some b') bs"
  shows "unat (boffset b) = unat (boffset b') + length bs"
proof -
  from assms(2) have b': "buf_ok b'" "bsize b' = bsize b" "pending b' = bs @ pending b"
    by (auto simp: wraps_def)
  have "unat (bsize b') - unat (boffset b') = length bs + (unat (bsize b) - unat (boffset b))"
    using length_pending [OF b'(1)] length_pending [OF assms(1)] b'(3) by simp
  moreover have "unat (boffset b') \<le> unat (bsize b)" "unat (boffset b) \<le> unat (bsize b)"
    using assms(1) b'(1,2) by (simp_all add: buf_ok_def word_le_nat_alt)
  ultimately show ?thesis using b'(2) by simp
qed

lemma word_room: "(6::u16) \<le> a \<longleftrightarrow> 6 \<le> unat a" "(2::u16) \<le> a \<longleftrightarrow> 2 \<le> unat a"
  "(4::u16) \<le> a \<longleftrightarrow> 4 \<le> unat a" "(1::u16) \<le> a \<longleftrightarrow> 1 \<le> unat a"
  by (simp_all add: word_le_nat_alt)

lemma length_pending_less: "buf_ok b \<Longrightarrow> length (pending b) < 65536"
proof -
  assume "buf_ok b"
  moreover have "unat (bsize b) < 2 ^ LENGTH(16)" by (rule unsigned_less)
  ultimately show ?thesis using length_pending [of b] by simp
qed

lemma pending_length_u16: "buf_ok b \<Longrightarrow> unat (of_nat (length (pending b)) :: u16) = length (pending b)"
  using length_pending_less [of b] by (simp add: unat_of_nat)

lemma unpack_front:
  assumes ok: "buf_ok u" and pen: "pending u = bs @ p" and len: "length bs = unat sz"
  obtains i u' where "neu_protocol_unpack_buf u sz = (Some i, u')" and "buf_ok u'"
    and "pending u' = p" and "load_bytes i (unat sz) (base u') = bs"
    and "bsize u' = bsize u" and "unat (boffset u') = unat (boffset u) + unat sz"
    and "base u' = base u"
proof -
  have "unat sz \<le> length (pending u)" using pen len by simp
  from unpack_Some [OF ok this] obtain u' where
    "neu_protocol_unpack_buf u sz = (Some (unat (boffset u)), u')" "buf_ok u'" "base u' = base u"
    "bsize u' = bsize u" "unat (boffset u') = unat (boffset u) + unat sz"
    "load_bytes (unat (boffset u)) (unat sz) (base u') = take (unat sz) (pending u)"
    "pending u' = drop (unat sz) (pending u)" by blast
  moreover have "take (unat sz) (pending u) = bs" "drop (unat sz) (pending u) = p"
    using pen len by simp_all
  ultimately show thesis using that by simp
qed

lemma wrapsE:
  assumes "wraps b r bs" and "buf_ok b"
  obtains b' where "r = Some b'" "buf_ok b'" "pending b' = bs @ pending b"
    "unat (boffset b) = unat (boffset b') + length bs"
proof -
  from assms(1) obtain b' where "r = Some b'" "buf_ok b'" "pending b' = bs @ pending b"
    by (auto simp: wraps_def)
  moreover from this assms have "unat (boffset b) = unat (boffset b') + length bs"
    by (intro wraps_offset) simp_all
  ultimately show thesis by (rule that)
qed

lemma wraps_bind:
  assumes "wraps b r x" and "\<And>b'. r = Some b' \<Longrightarrow> buf_ok b' \<Longrightarrow> wraps b' (f b') y"
  shows "wraps b (case r of None \<Rightarrow> None | Some b' \<Rightarrow> f b') (y @ x)"
  using assms by (force simp: wraps_def)

end
