(* ===== verification/Neuron_Types.thy ===== *)
theory Neuron_Types
  imports Neuron_Prelude
begin

unbundle bit_operations_syntax

text \<open>
  The data model of \<^verbatim>\<open>include/neuron/type.h\<close>, \<^verbatim>\<open>errcodes.h\<close> and \<^verbatim>\<open>define.h\<close>: value
  types, error codes, node enumerations, and the bit and byte helpers that every driver
  uses to assemble values from raw bytes. A \<^verbatim>\<open>neu_value_u\<close> is a union, so it is the bytes
  of its storage and its members are loads and stores at an offset.
\<close>

section \<open>Enumerations\<close>

datatype neu_type_e =
    NEU_TYPE_INT8 | NEU_TYPE_UINT8 | NEU_TYPE_INT16 | NEU_TYPE_UINT16
  | NEU_TYPE_INT32 | NEU_TYPE_UINT32 | NEU_TYPE_INT64 | NEU_TYPE_UINT64
  | NEU_TYPE_FLOAT | NEU_TYPE_DOUBLE | NEU_TYPE_BIT | NEU_TYPE_BOOL
  | NEU_TYPE_STRING | NEU_TYPE_BYTES | NEU_TYPE_ERROR | NEU_TYPE_WORD
  | NEU_TYPE_DWORD | NEU_TYPE_LWORD | NEU_TYPE_PTR | NEU_TYPE_TIME
  | NEU_TYPE_DATA_AND_TIME | NEU_TYPE_ARRAY_CHAR | NEU_TYPE_ARRAY_INT8
  | NEU_TYPE_ARRAY_UINT8 | NEU_TYPE_ARRAY_INT16 | NEU_TYPE_ARRAY_UINT16
  | NEU_TYPE_ARRAY_INT32 | NEU_TYPE_ARRAY_UINT32 | NEU_TYPE_ARRAY_INT64
  | NEU_TYPE_ARRAY_UINT64 | NEU_TYPE_ARRAY_FLOAT | NEU_TYPE_ARRAY_DOUBLE
  | NEU_TYPE_ARRAY_BOOL | NEU_TYPE_ARRAY_STRING | NEU_TYPE_CUSTOM

text \<open>The error codes the modelled functions return, plain integers; \<open>NEU_FAIL\<close> is a bare \<^verbatim>\<open>-1\<close>.\<close>

type_synonym neu_err = int

definition NEU_FAIL :: neu_err where [simp]: "NEU_FAIL = -1"
definition NEU_ERR_SUCCESS :: neu_err where [simp]: "NEU_ERR_SUCCESS = 0"
definition NEU_ERR_EINTERNAL :: neu_err where [simp]: "NEU_ERR_EINTERNAL = 1001"
definition NEU_ERR_BODY_IS_WRONG :: neu_err where [simp]: "NEU_ERR_BODY_IS_WRONG = 1002"
definition NEU_ERR_PARAM_IS_WRONG :: neu_err where [simp]: "NEU_ERR_PARAM_IS_WRONG = 1003"
definition NEU_ERR_NODE_EXIST :: neu_err where [simp]: "NEU_ERR_NODE_EXIST = 2002"
definition NEU_ERR_NODE_NOT_EXIST :: neu_err where [simp]: "NEU_ERR_NODE_NOT_EXIST = 2003"
definition NEU_ERR_NODE_SETTING_INVALID :: neu_err where [simp]: "NEU_ERR_NODE_SETTING_INVALID = 2004"
definition NEU_ERR_NODE_SETTING_NOT_FOUND :: neu_err where [simp]: "NEU_ERR_NODE_SETTING_NOT_FOUND = 2005"
definition NEU_ERR_NODE_NOT_READY :: neu_err where [simp]: "NEU_ERR_NODE_NOT_READY = 2006"
definition NEU_ERR_NODE_IS_RUNNING :: neu_err where [simp]: "NEU_ERR_NODE_IS_RUNNING = 2007"
definition NEU_ERR_NODE_NOT_RUNNING :: neu_err where [simp]: "NEU_ERR_NODE_NOT_RUNNING = 2008"
definition NEU_ERR_NODE_IS_STOPED :: neu_err where [simp]: "NEU_ERR_NODE_IS_STOPED = 2009"
definition NEU_ERR_NODE_NOT_ALLOW_DELETE :: neu_err where [simp]: "NEU_ERR_NODE_NOT_ALLOW_DELETE = 2011"
definition NEU_ERR_NODE_NOT_ALLOW_SUBSCRIBE :: neu_err where [simp]: "NEU_ERR_NODE_NOT_ALLOW_SUBSCRIBE = 2012"
definition NEU_ERR_GROUP_ALREADY_SUBSCRIBED :: neu_err where [simp]: "NEU_ERR_GROUP_ALREADY_SUBSCRIBED = 2101"
definition NEU_ERR_GROUP_NOT_SUBSCRIBE :: neu_err where [simp]: "NEU_ERR_GROUP_NOT_SUBSCRIBE = 2102"
definition NEU_ERR_GROUP_NOT_ALLOW :: neu_err where [simp]: "NEU_ERR_GROUP_NOT_ALLOW = 2103"
definition NEU_ERR_GROUP_EXIST :: neu_err where [simp]: "NEU_ERR_GROUP_EXIST = 2104"
definition NEU_ERR_GROUP_PARAMETER_INVALID :: neu_err where [simp]: "NEU_ERR_GROUP_PARAMETER_INVALID = 2105"
definition NEU_ERR_GROUP_NOT_EXIST :: neu_err where [simp]: "NEU_ERR_GROUP_NOT_EXIST = 2106"
definition NEU_ERR_GROUP_MAX_GROUPS :: neu_err where [simp]: "NEU_ERR_GROUP_MAX_GROUPS = 2108"
definition NEU_ERR_TAG_NOT_EXIST :: neu_err where [simp]: "NEU_ERR_TAG_NOT_EXIST = 2201"
definition NEU_ERR_TAG_NAME_CONFLICT :: neu_err where [simp]: "NEU_ERR_TAG_NAME_CONFLICT = 2202"
definition NEU_ERR_TAG_ATTRIBUTE_NOT_SUPPORT :: neu_err where [simp]: "NEU_ERR_TAG_ATTRIBUTE_NOT_SUPPORT = 2203"
definition NEU_ERR_TAG_TYPE_NOT_SUPPORT :: neu_err where [simp]: "NEU_ERR_TAG_TYPE_NOT_SUPPORT = 2204"
definition NEU_ERR_TAG_ADDRESS_FORMAT_INVALID :: neu_err where [simp]: "NEU_ERR_TAG_ADDRESS_FORMAT_INVALID = 2205"
definition NEU_ERR_TAG_NAME_TOO_LONG :: neu_err where [simp]: "NEU_ERR_TAG_NAME_TOO_LONG = 2206"
definition NEU_ERR_TAG_ADDRESS_TOO_LONG :: neu_err where [simp]: "NEU_ERR_TAG_ADDRESS_TOO_LONG = 2207"
definition NEU_ERR_TAG_DESCRIPTION_TOO_LONG :: neu_err where [simp]: "NEU_ERR_TAG_DESCRIPTION_TOO_LONG = 2208"
definition NEU_ERR_TAG_PRECISION_INVALID :: neu_err where [simp]: "NEU_ERR_TAG_PRECISION_INVALID = 2209"
definition NEU_ERR_TAG_DECIMAL_INVALID :: neu_err where [simp]: "NEU_ERR_TAG_DECIMAL_INVALID = 2211"
definition NEU_ERR_TAG_BIAS_INVALID :: neu_err where [simp]: "NEU_ERR_TAG_BIAS_INVALID = 2212"
definition NEU_ERR_LIBRARY_NOT_FOUND :: neu_err where [simp]: "NEU_ERR_LIBRARY_NOT_FOUND = 2301"
definition NEU_ERR_LIBRARY_INFO_INVALID :: neu_err where [simp]: "NEU_ERR_LIBRARY_INFO_INVALID = 2302"
definition NEU_ERR_LIBRARY_NAME_CONFLICT :: neu_err where [simp]: "NEU_ERR_LIBRARY_NAME_CONFLICT = 2303"
definition NEU_ERR_LIBRARY_FAILED_TO_OPEN :: neu_err where [simp]: "NEU_ERR_LIBRARY_FAILED_TO_OPEN = 2304"
definition NEU_ERR_LIBRARY_MODULE_INVALID :: neu_err where [simp]: "NEU_ERR_LIBRARY_MODULE_INVALID = 2305"
definition NEU_ERR_LIBRARY_SYSTEM_NOT_ALLOW_DEL :: neu_err where [simp]: "NEU_ERR_LIBRARY_SYSTEM_NOT_ALLOW_DEL = 2306"
definition NEU_ERR_LIBRARY_NOT_ALLOW_CREATE_INSTANCE :: neu_err where [simp]: "NEU_ERR_LIBRARY_NOT_ALLOW_CREATE_INSTANCE = 2307"
definition NEU_ERR_LIBRARY_ARCH_NOT_SUPPORT :: neu_err where [simp]: "NEU_ERR_LIBRARY_ARCH_NOT_SUPPORT = 2308"
definition NEU_ERR_LIBRARY_IN_USE :: neu_err where [simp]: "NEU_ERR_LIBRARY_IN_USE = 2309"
definition NEU_ERR_LIBRARY_ADD_FAIL :: neu_err where [simp]: "NEU_ERR_LIBRARY_ADD_FAIL = 2310"
definition NEU_ERR_LIBRARY_MODULE_ALREADY_EXIST :: neu_err where [simp]: "NEU_ERR_LIBRARY_MODULE_ALREADY_EXIST = 2311"
definition NEU_ERR_LIBRARY_MODULE_NOT_EXISTS :: neu_err where [simp]: "NEU_ERR_LIBRARY_MODULE_NOT_EXISTS = 2312"
definition NEU_ERR_LIBRARY_MODULE_KIND_NOT_SUPPORT :: neu_err where [simp]: "NEU_ERR_LIBRARY_MODULE_KIND_NOT_SUPPORT = 2313"
definition NEU_ERR_LIBRARY_MODULE_VERSION_NOT_MATCH :: neu_err where [simp]: "NEU_ERR_LIBRARY_MODULE_VERSION_NOT_MATCH = 2314"
definition NEU_ERR_LIBRARY_NAME_NOT_CONFORM :: neu_err where [simp]: "NEU_ERR_LIBRARY_NAME_NOT_CONFORM = 2315"
definition NEU_ERR_LIBRARY_CLIB_NOT_MATCH :: neu_err where [simp]: "NEU_ERR_LIBRARY_CLIB_NOT_MATCH = 2316"
definition NEU_ERR_LIBRARY_UPDATE_FAIL :: neu_err where [simp]: "NEU_ERR_LIBRARY_UPDATE_FAIL = 2317"
definition NEU_ERR_PLUGIN_READ_FAILURE :: neu_err where [simp]: "NEU_ERR_PLUGIN_READ_FAILURE = 3000"
definition NEU_ERR_PLUGIN_DISCONNECTED :: neu_err where [simp]: "NEU_ERR_PLUGIN_DISCONNECTED = 3002"
definition NEU_ERR_PLUGIN_TAG_NOT_ALLOW_WRITE :: neu_err where [simp]: "NEU_ERR_PLUGIN_TAG_NOT_ALLOW_WRITE = 3004"
definition NEU_ERR_PLUGIN_TAG_TYPE_MISMATCH :: neu_err where [simp]: "NEU_ERR_PLUGIN_TAG_TYPE_MISMATCH = 3007"
definition NEU_ERR_PLUGIN_TAG_VALUE_EXPIRED :: neu_err where [simp]: "NEU_ERR_PLUGIN_TAG_VALUE_EXPIRED = 3008"
definition NEU_ERR_PLUGIN_PROTOCOL_DECODE_FAILURE :: neu_err where [simp]: "NEU_ERR_PLUGIN_PROTOCOL_DECODE_FAILURE = 3009"
definition NEU_ERR_PLUGIN_NOT_RUNNING :: neu_err where [simp]: "NEU_ERR_PLUGIN_NOT_RUNNING = 3010"
definition NEU_ERR_PLUGIN_TAG_NOT_READY :: neu_err where [simp]: "NEU_ERR_PLUGIN_TAG_NOT_READY = 3011"
definition NEU_ERR_PLUGIN_DEVICE_NOT_RESPONSE :: neu_err where [simp]: "NEU_ERR_PLUGIN_DEVICE_NOT_RESPONSE = 3015"
definition NEU_ERR_PLUGIN_NOT_SUPPORT_WRITE_TAGS :: neu_err where [simp]: "NEU_ERR_PLUGIN_NOT_SUPPORT_WRITE_TAGS = 3017"
definition NEU_ERR_PLUGIN_NOT_SUPPORT_READ_SYNC :: neu_err where [simp]: "NEU_ERR_PLUGIN_NOT_SUPPORT_READ_SYNC = 3018"
definition NEU_ERR_PLUGIN_TYPE_NOT_SUPPORT :: neu_err where [simp]: "NEU_ERR_PLUGIN_TYPE_NOT_SUPPORT = 3019"
definition NEU_ERR_PLUGIN_TAG_VALUE_OUT_OF_RANGE :: neu_err where [simp]: "NEU_ERR_PLUGIN_TAG_VALUE_OUT_OF_RANGE = 3020"
definition NEU_ERR_PLUGIN_NOT_SUPPORT_SCAN_TAGS :: neu_err where [simp]: "NEU_ERR_PLUGIN_NOT_SUPPORT_SCAN_TAGS = 3021"
definition NEU_ERR_PLUGIN_NOT_SUPPORT_TEST_READ_TAG :: neu_err where [simp]: "NEU_ERR_PLUGIN_NOT_SUPPORT_TEST_READ_TAG = 3022"
definition NEU_ERR_PLUGIN_NOT_SUPPORT_EXE_ACTION :: neu_err where [simp]: "NEU_ERR_PLUGIN_NOT_SUPPORT_EXE_ACTION = 3023"
definition NEU_ERR_PLUGIN_NOT_SUPPORT_DIRECTORY :: neu_err where [simp]: "NEU_ERR_PLUGIN_NOT_SUPPORT_DIRECTORY = 3024"
definition NEU_ERR_PLUGIN_NOT_SUPPORT_FUP_OPEN :: neu_err where [simp]: "NEU_ERR_PLUGIN_NOT_SUPPORT_FUP_OPEN = 3025"
definition NEU_ERR_PLUGIN_NOT_SUPPORT_FDOWN_OPEN :: neu_err where [simp]: "NEU_ERR_PLUGIN_NOT_SUPPORT_FDOWN_OPEN = 3026"
definition NEU_ERR_PLUGIN_NOT_SUPPORT_FUP_DATA :: neu_err where [simp]: "NEU_ERR_PLUGIN_NOT_SUPPORT_FUP_DATA = 3027"
definition NEU_ERR_PLUGIN_NOT_SUPPORT_FDOWN_DATA :: neu_err where [simp]: "NEU_ERR_PLUGIN_NOT_SUPPORT_FDOWN_DATA = 3028"
definition NEU_ERR_PLUGIN_NOT_SUPPORT_IMPORT_TAGS :: neu_err where [simp]: "NEU_ERR_PLUGIN_NOT_SUPPORT_IMPORT_TAGS = 3029"
definition NEU_ERR_MQTT_SUBSCRIBE_FAILURE :: neu_err where [simp]: "NEU_ERR_MQTT_SUBSCRIBE_FAILURE = 4010"
definition NEU_ERR_FILE_READ_FAILURE :: neu_err where [simp]: "NEU_ERR_FILE_READ_FAILURE = 4102"

text \<open>Sizes of \<^verbatim>\<open>define.h\<close>.\<close>

definition NEU_TAG_NAME_LEN :: nat where "NEU_TAG_NAME_LEN = 128"
definition NEU_GROUP_NAME_LEN :: nat where "NEU_GROUP_NAME_LEN = 128"
definition NEU_NODE_NAME_LEN :: nat where "NEU_NODE_NAME_LEN = 128"
definition NEU_GROUP_MAX_PER_NODE :: nat where "NEU_GROUP_MAX_PER_NODE = 512"

section \<open>Single bits\<close>

text \<open>
  The bit-field members \<open>b0 \<dots> b7\<close> of \<^verbatim>\<open>neu_value8_u\<close> are the bits of its byte, lowest
  first, and a bit-field keeps the lowest bit of what is assigned to it. An index past the
  last member reaches \<^verbatim>\<open>assert(1 == 0)\<close>, which is \<open>None\<close>.
\<close>

definition neu_value8_get_bit :: "u8 \<Rightarrow> u8 \<Rightarrow> u8 option" where
  "neu_value8_get_bit v index =
     (if index \<le> 7 then Some (if bit v (unat index) then 1 else 0) else None)"

definition neu_value8_set_bit :: "u8 \<Rightarrow> u8 \<Rightarrow> u8 \<Rightarrow> u8 option" where
  "neu_value8_set_bit v index b =
     (if index \<le> 7
      then Some (if bit b 0 then set_bit (unat index) v else unset_bit (unat index) v)
      else None)"

definition neu_value16_get_bit :: "u16 \<Rightarrow> u8 \<Rightarrow> u8 option" where
  "neu_value16_get_bit v index =
     (if index \<le> 15 then Some (if bit v (unat index) then 1 else 0) else None)"

definition neu_value16_set_bit :: "u16 \<Rightarrow> u8 \<Rightarrow> u8 \<Rightarrow> u16 option" where
  "neu_value16_set_bit v index b =
     (if index \<le> 15
      then Some (if bit b 0 then set_bit (unat index) v else unset_bit (unat index) v)
      else None)"

section \<open>24-bit values\<close>

definition neu_value24_set :: "u32 \<Rightarrow> bytes option" where
  "neu_value24_set v =
     (if v AND 0xff000000 = 0
      then Some [ucast (v AND 0xff), ucast (drop_bit 8 v AND 0xff), ucast (drop_bit 16 v AND 0xff)]
      else None)"

definition neu_value24_get :: "bytes \<Rightarrow> u32" where
  "neu_value24_get v24 =
     ((0 OR ucast (v24 ! 0)) OR push_bit 8 (ucast (v24 ! 1))) OR push_bit 16 (ucast (v24 ! 2))"

definition neu_ntohs24_p :: "bytes \<Rightarrow> bytes" where
  "neu_ntohs24_p v = (let t = v ! 0; v = v[0 := v ! 2] in v[2 := t])"

definition neu_htons24_p :: "bytes \<Rightarrow> bytes" where
  "neu_htons24_p v = neu_ntohs24_p v"

section \<open>Loads and stores byte by byte\<close>

definition neu_get_u16 :: "bytes \<Rightarrow> u16" where
  "neu_get_u16 bs = le_word [bs ! 0, bs ! 1]"

definition neu_set_u16 :: "bytes \<Rightarrow> u16 \<Rightarrow> bytes" where
  "neu_set_u16 bs val = (let t = le_bytes 2 val in bs[0 := t ! 0, 1 := t ! 1])"

definition neu_get_u32 :: "bytes \<Rightarrow> u32" where
  "neu_get_u32 bs = le_word [bs ! 0, bs ! 1, bs ! 2, bs ! 3]"

definition neu_set_u32 :: "bytes \<Rightarrow> u32 \<Rightarrow> bytes" where
  "neu_set_u32 bs val =
     (let t = le_bytes 4 val in bs[0 := t ! 0, 1 := t ! 1, 2 := t ! 2, 3 := t ! 3])"

definition neu_get_u64 :: "bytes \<Rightarrow> u64" where
  "neu_get_u64 bs = le_word [bs ! 0, bs ! 1, bs ! 2, bs ! 3, bs ! 4, bs ! 5, bs ! 6, bs ! 7]"

definition neu_set_u64 :: "bytes \<Rightarrow> u64 \<Rightarrow> bytes" where
  "neu_set_u64 bs val =
     (let t = le_bytes 8 val
      in bs[0 := t ! 0, 1 := t ! 1, 2 := t ! 2, 3 := t ! 3,
            4 := t ! 4, 5 := t ! 5, 6 := t ! 6, 7 := t ! 7])"

section \<open>Byte orders of 64-bit values\<close>

text \<open>
  Each of the five conversions of \<^verbatim>\<open>type.h\<close> writes byte \<open>p ! i\<close> of its argument to byte
  \<open>i\<close> of its result, for the list \<open>p\<close> of indices that the assignments spell out.
\<close>

definition permute_bytes :: "nat list \<Rightarrow> bytes \<Rightarrow> bytes" where
  "permute_bytes p bs = map (\<lambda>i. bs ! i) p"

definition permute64 :: "nat list \<Rightarrow> u64 \<Rightarrow> u64" where
  "permute64 p u = le_word (permute_bytes p (le_bytes 8 u))"

definition neu_htonll :: "u64 \<Rightarrow> u64" where
  "neu_htonll u = permute64 [7, 6, 5, 4, 3, 2, 1, 0] u"

definition neu_htonlb :: "u64 \<Rightarrow> u64" where
  "neu_htonlb u = permute64 [1, 0, 3, 2, 5, 4, 7, 6] u"

definition neu_htonbl :: "u64 \<Rightarrow> u64" where
  "neu_htonbl u = permute64 [6, 7, 4, 5, 2, 3, 0, 1] u"

definition neu_htonws :: "u64 \<Rightarrow> u64" where
  "neu_htonws u = permute64 [2, 3, 0, 1, 6, 7, 4, 5] u"

definition neu_htonwr :: "u64 \<Rightarrow> u64" where
  "neu_htonwr u = permute64 [4, 5, 6, 7, 0, 1, 2, 3] u"

definition neu_ntohll :: "u64 \<Rightarrow> u64" where
  "neu_ntohll u = neu_htonll u"

definition neu_ntonll_p :: "bytes \<Rightarrow> bytes" where
  "neu_ntonll_p pu = neu_set_u64 pu (neu_htonll (neu_get_u64 pu))"

definition neu_ntohl_p :: "bytes \<Rightarrow> bytes" where
  "neu_ntohl_p pu = neu_set_u32 pu (ntohl (neu_get_u32 pu))"

definition neu_ntohs_p :: "bytes \<Rightarrow> bytes" where
  "neu_ntohs_p pu = neu_set_u16 pu (ntohs (neu_get_u16 pu))"

section \<open>The value union\<close>

text \<open>
  \<^verbatim>\<open>neu_value_u\<close> occupies 264 bytes: its largest member \<^verbatim>\<open>neu_value_bytes_t\<close> is 256 bytes
  followed by a one-byte length, and the pointer members align the union to 8.
\<close>

definition NEU_VALUE_SIZE :: nat where "NEU_VALUE_SIZE = 256"
definition sizeof_value :: nat where "sizeof_value = 264"

type_synonym neu_value_u = bytes

definition zero_value :: neu_value_u where
  "zero_value = replicate sizeof_value 0"

definition value_u16 :: "neu_value_u \<Rightarrow> u16" where
  "value_u16 v = le_word (load_bytes 0 2 v)"

definition value_u32 :: "neu_value_u \<Rightarrow> u32" where
  "value_u32 v = le_word (load_bytes 0 4 v)"

definition value_u64 :: "neu_value_u \<Rightarrow> u64" where
  "value_u64 v = le_word (load_bytes 0 8 v)"

definition set_value_u8 :: "u8 \<Rightarrow> neu_value_u \<Rightarrow> neu_value_u" where
  "set_value_u8 x v = store_bytes 0 [x] v"

definition set_value_u16 :: "u16 \<Rightarrow> neu_value_u \<Rightarrow> neu_value_u" where
  "set_value_u16 x v = store_bytes 0 (le_bytes 2 x) v"

definition set_value_u32 :: "u32 \<Rightarrow> neu_value_u \<Rightarrow> neu_value_u" where
  "set_value_u32 x v = store_bytes 0 (le_bytes 4 x) v"

definition set_value_u64 :: "u64 \<Rightarrow> neu_value_u \<Rightarrow> neu_value_u" where
  "set_value_u64 x v = store_bytes 0 (le_bytes 8 x) v"

text \<open>A tagged value as drivers report it; \<open>i32\<close> of an error is the error code.\<close>

record neu_tag_sample_attrs =
  sa_timestamp :: u64
  sa_quality :: u32
  sa_has_timestamp :: bool
  sa_has_quality :: bool

definition zero_attrs :: neu_tag_sample_attrs where
  "zero_attrs = \<lparr>sa_timestamp = 0, sa_quality = 0, sa_has_timestamp = False, sa_has_quality = False\<rparr>"

record neu_dvalue =
  dv_type :: neu_type_e
  dv_value :: neu_value_u
  dv_precision :: u8
  dv_attrs :: neu_tag_sample_attrs

text \<open>A value whose other fields are zero.\<close>

definition typed_value :: "neu_type_e \<Rightarrow> neu_value_u \<Rightarrow> neu_dvalue" where
  "typed_value t v = \<lparr>dv_type = t, dv_value = v, dv_precision = 0, dv_attrs = zero_attrs\<rparr>"

definition error_dvalue :: "neu_err \<Rightarrow> neu_dvalue" where
  "error_dvalue e = typed_value NEU_TYPE_ERROR (set_value_u32 (word_of_int e) zero_value)"

section \<open>Facts about bits\<close>

lemma unat_le_7: "(i::u8) \<le> 7 \<Longrightarrow> unat i < 8"
  by (simp add: word_le_nat_alt)

lemma unat_le_15: "(i::u8) \<le> 15 \<Longrightarrow> unat i < 16"
  by (simp add: word_le_nat_alt)

lemma and_1_bit: "(b::u8) AND 1 = (if bit b 0 then 1 else 0)"
  by (simp add: and_one_eq bit_0 mod_2_eq_odd)

lemma get_set_bit8:
  assumes "neu_value8_set_bit v i b = Some v'" and "j \<le> 7"
  shows "neu_value8_get_bit v' j =
      (if i = j then Some (b AND 1) else neu_value8_get_bit v j)"
  using assms unat_le_7 [of i] unat_le_7 [of j] word_unat_eq_iff [of i j]
  by (auto simp: neu_value8_set_bit_def neu_value8_get_bit_def bit_simps and_1_bit
      split: if_splits)

lemma get_set_bit16:
  assumes "neu_value16_set_bit v i b = Some v'" and "j \<le> 15"
  shows "neu_value16_get_bit v' j =
      (if i = j then Some (b AND 1) else neu_value16_get_bit v j)"
  using assms unat_le_15 [of i] unat_le_15 [of j] word_unat_eq_iff [of i j]
  by (auto simp: neu_value16_set_bit_def neu_value16_get_bit_def bit_simps and_1_bit
      split: if_splits)

section \<open>Facts about byte orders\<close>

text \<open>
  A byte order that is its own inverse. The conversions of \<^verbatim>\<open>type.h\<close> are applied on the
  write path and again on the read path, so being an involution is what makes the two
  paths agree.
\<close>

locale byte_involution =
  fixes p :: "nat list"
  assumes len: "length p = 8"
    and bound: "i < 8 \<Longrightarrow> p ! i < 8"
    and inv: "i < 8 \<Longrightarrow> p ! (p ! i) = i"
begin

lemma permute_twice: "length bs = 8 \<Longrightarrow> permute_bytes p (permute_bytes p bs) = bs"
  by (rule nth_equalityI) (auto simp: permute_bytes_def len bound inv)

lemma length_permute: "length (permute_bytes p bs) = 8"
  by (simp add: permute_bytes_def len)

lemma permute64_twice: "permute64 p (permute64 p u) = u"
  by (simp add: permute64_def byte_simps length_permute permute_twice)

end

lemma all_less_8: "(\<forall>i<8. P i) \<longleftrightarrow> P 0 \<and> P 1 \<and> P 2 \<and> P 3 \<and> P 4 \<and> P 5 \<and> P 6 \<and> P (7::nat)"
proof -
  have "i < 8 \<longleftrightarrow> i \<in> {0, 1, 2, 3, 4, 5, 6, 7}" for i :: nat
    by (simp only: insert_iff empty_iff) presburger
  then have "(\<forall>i<8. P i) \<longleftrightarrow> (\<forall>i\<in>{0, 1, 2, 3, 4, 5, 6, 7}. P i)" by blast
  then show ?thesis by simp
qed

lemma byte_involutionI:
  assumes "length p = 8" and "\<forall>i<8. p ! i < 8" and "\<forall>i<8. p ! (p ! i) = i"
  shows "byte_involution p"
  using assms by unfold_locales auto

interpretation htonll: byte_involution "[7, 6, 5, 4, 3, 2, 1, 0]"
  by (rule byte_involutionI) (simp_all add: all_less_8)

interpretation htonlb: byte_involution "[1, 0, 3, 2, 5, 4, 7, 6]"
  by (rule byte_involutionI) (simp_all add: all_less_8)

interpretation htonbl: byte_involution "[6, 7, 4, 5, 2, 3, 0, 1]"
  by (rule byte_involutionI) (simp_all add: all_less_8)

interpretation htonws: byte_involution "[2, 3, 0, 1, 6, 7, 4, 5]"
  by (rule byte_involutionI) (simp_all add: all_less_8)

interpretation htonwr: byte_involution "[4, 5, 6, 7, 0, 1, 2, 3]"
  by (rule byte_involutionI) (simp_all add: all_less_8)

lemma neu_hton_involutions [simp]:
  "neu_htonll (neu_htonll u) = u"
  "neu_htonlb (neu_htonlb u) = u"
  "neu_htonbl (neu_htonbl u) = u"
  "neu_htonws (neu_htonws u) = u"
  "neu_htonwr (neu_htonwr u) = u"
  by (simp_all only: neu_htonll_def neu_htonlb_def neu_htonbl_def neu_htonws_def neu_htonwr_def
      htonll.permute64_twice htonlb.permute64_twice htonbl.permute64_twice
      htonws.permute64_twice htonwr.permute64_twice)

lemma length_permute_bytes: "length (permute_bytes p bs) = length p"
  by (simp add: permute_bytes_def)

lemma permute64_comp:
  assumes "length p = 8" and "length q = 8" and "\<forall>i<8. q ! i < 8"
  shows "permute64 q (permute64 p u) = permute64 (map (\<lambda>i. p ! i) q) u"
proof -
  have "permute_bytes q (permute_bytes p bs) = permute_bytes (map (\<lambda>i. p ! i) q) bs" for bs
    using assms by (auto simp: permute_bytes_def in_set_conv_nth)
  then show ?thesis
    using assms(1) by (simp add: permute64_def byte_simps length_permute_bytes)
qed

text \<open>Each of the orders commutes with the reversal of all eight bytes.\<close>

lemma neu_hton_commutes:
  "neu_htonll (neu_htonlb u) = neu_htonlb (neu_htonll u)"
  "neu_htonll (neu_htonbl u) = neu_htonbl (neu_htonll u)"
  "neu_htonll (neu_htonws u) = neu_htonws (neu_htonll u)"
  "neu_htonll (neu_htonwr u) = neu_htonwr (neu_htonll u)"
  by (simp_all add: neu_htonll_def neu_htonlb_def neu_htonbl_def neu_htonws_def neu_htonwr_def
      permute64_comp all_less_8)

lemma value24_bytes: "neu_value24_get [a, b, c] = le_word [a, b, c]"
  by (rule bit_word_eqI) (auto simp: neu_value24_get_def bit_simps)

lemma value_set_get [byte_simps]:
  "length v = sizeof_value \<Longrightarrow> value_u16 (set_value_u16 x v) = x"
  "length v = sizeof_value \<Longrightarrow> value_u32 (set_value_u32 y v) = y"
  "length v = sizeof_value \<Longrightarrow> value_u64 (set_value_u64 z v) = z"
  by (simp_all add: value_u16_def set_value_u16_def value_u32_def set_value_u32_def
      value_u64_def set_value_u64_def byte_simps sizeof_value_def)

lemma length_set_value [simp]:
  "length v = sizeof_value \<Longrightarrow> length (set_value_u8 b v) = sizeof_value"
  "length v = sizeof_value \<Longrightarrow> length (set_value_u16 x v) = sizeof_value"
  "length v = sizeof_value \<Longrightarrow> length (set_value_u32 y v) = sizeof_value"
  "length v = sizeof_value \<Longrightarrow> length (set_value_u64 z v) = sizeof_value"
  by (simp_all add: set_value_u8_def set_value_u16_def set_value_u32_def set_value_u64_def
      sizeof_value_def)

lemma length_zero_value [simp]: "length zero_value = sizeof_value"
  by (simp add: zero_value_def)

end
