(* ===== verification/Modbus_Frame.thy ===== *)
theory Modbus_Frame
  imports Protocol_Buf Neuron_Types
begin

unbundle bit_operations_syntax

text \<open>
  The Modbus frame parts of \<^verbatim>\<open>plugins/modbus/modbus.c\<close>: the TCP header, the slave and
  function code, the register address, the data block and the RTU checksum, each with the
  function that prepends it to a pack buffer and the one that reads it from an unpack
  buffer. A failing \<^verbatim>\<open>assert\<close> of a wrap function is \<open>None\<close>.
\<close>

section \<open>Parts of a frame\<close>

datatype modbus_action = MODBUS_ACTION_DEFAULT | MODBUS_ACTION_HOLD_REG_WRITE

datatype modbus_area =
    MODBUS_AREA_COIL | MODBUS_AREA_INPUT | MODBUS_AREA_INPUT_REGISTER | MODBUS_AREA_HOLD_REGISTER

fun area_val :: "modbus_area \<Rightarrow> nat" where
  "area_val MODBUS_AREA_COIL = 0"
| "area_val MODBUS_AREA_INPUT = 1"
| "area_val MODBUS_AREA_INPUT_REGISTER = 3"
| "area_val MODBUS_AREA_HOLD_REGISTER = 4"

datatype modbus_endianess = MODBUS_ABCD | MODBUS_BADC | MODBUS_DCBA | MODBUS_CDAB

datatype modbus_endianess_64 =
  MODBUS_LL | MODBUS_LB | MODBUS_BB | MODBUS_BL | MODBUS_WS | MODBUS_WR

datatype modbus_address_base = base_0 | base_1

text \<open>Function codes of \<^verbatim>\<open>enum modbus_function\<close>.\<close>

definition MODBUS_READ_COIL :: u8 where "MODBUS_READ_COIL = 0x01"
definition MODBUS_READ_INPUT :: u8 where "MODBUS_READ_INPUT = 0x02"
definition MODBUS_READ_HOLD_REG :: u8 where "MODBUS_READ_HOLD_REG = 0x03"
definition MODBUS_READ_INPUT_REG :: u8 where "MODBUS_READ_INPUT_REG = 0x04"
definition MODBUS_WRITE_S_COIL :: u8 where "MODBUS_WRITE_S_COIL = 0x05"
definition MODBUS_WRITE_S_HOLD_REG :: u8 where "MODBUS_WRITE_S_HOLD_REG = 0x06"
definition MODBUS_WRITE_M_HOLD_REG :: u8 where "MODBUS_WRITE_M_HOLD_REG = 0x10"
definition MODBUS_WRITE_M_COIL :: u8 where "MODBUS_WRITE_M_COIL = 0x0F"

lemmas modbus_function_defs =
  MODBUS_READ_COIL_def MODBUS_READ_INPUT_def MODBUS_READ_HOLD_REG_def MODBUS_READ_INPUT_REG_def
  MODBUS_WRITE_S_COIL_def MODBUS_WRITE_S_HOLD_REG_def MODBUS_WRITE_M_HOLD_REG_def
  MODBUS_WRITE_M_COIL_def

record modbus_header =
  mh_seq :: u16
  mh_protocol :: u16
  mh_len :: u16

record modbus_code =
  mc_slave_id :: u8
  mc_function :: u8

record modbus_address =
  ma_start_address :: u16
  ma_n_reg :: u16

text \<open>The packed C structs read from and written to memory.\<close>

definition header_of_bytes :: "bytes \<Rightarrow> modbus_header" where
  "header_of_bytes bs =
     \<lparr>mh_seq = le_word (load_bytes 0 2 bs), mh_protocol = le_word (load_bytes 2 2 bs),
      mh_len = le_word (load_bytes 4 2 bs)\<rparr>"

definition header_to_bytes :: "modbus_header \<Rightarrow> bytes" where
  "header_to_bytes h = le_bytes 2 (mh_seq h) @ le_bytes 2 (mh_protocol h) @ le_bytes 2 (mh_len h)"

definition address_of_bytes :: "bytes \<Rightarrow> modbus_address" where
  "address_of_bytes bs =
     \<lparr>ma_start_address = le_word (load_bytes 0 2 bs), ma_n_reg = le_word (load_bytes 2 2 bs)\<rparr>"

definition address_to_bytes :: "modbus_address \<Rightarrow> bytes" where
  "address_to_bytes a = le_bytes 2 (ma_start_address a) @ le_bytes 2 (ma_n_reg a)"

section \<open>Header\<close>

definition modbus_header_wrap :: "protocol_buf \<Rightarrow> u16 \<Rightarrow> protocol_buf option" where
  "modbus_header_wrap buf seq =
     (if \<not> (neu_protocol_pack_buf_unused_size buf \<ge> 6) then None
      else case neu_protocol_pack_buf buf 6 of
          (None, _) \<Rightarrow> None
        | (Some p, buf) \<Rightarrow>
            let header = \<lparr>mh_seq = htons seq, mh_protocol = 0,
                          mh_len = htons (neu_protocol_pack_buf_used_size buf - 6)\<rparr>
            in Some (buf\<lparr>base := store_bytes p (header_to_bytes header) (base buf)\<rparr>))"

definition modbus_header_unwrap ::
    "protocol_buf \<Rightarrow> modbus_header \<Rightarrow> int \<times> modbus_header \<times> protocol_buf" where
  "modbus_header_unwrap buf out_header =
     (case neu_protocol_unpack_buf buf 6 of
        (None, buf) \<Rightarrow> (0, out_header, buf)
      | (Some p, buf) \<Rightarrow>
          let header = header_of_bytes (load_bytes p 6 (base buf)) in
          if ntohs (mh_len header) > neu_protocol_unpack_buf_unused_size buf
          then (0, out_header, buf)
          else if mh_protocol header \<noteq> 0 then (-1, out_header, buf)
          else (6, header\<lparr>mh_len := ntohs (mh_len header), mh_seq := ntohs (mh_seq header)\<rparr>, buf))"

section \<open>Slave and function code\<close>

definition modbus_code_wrap :: "protocol_buf \<Rightarrow> u8 \<Rightarrow> u8 \<Rightarrow> protocol_buf option" where
  "modbus_code_wrap buf slave_id function =
     (if \<not> (neu_protocol_pack_buf_unused_size buf \<ge> 2) then None
      else case neu_protocol_pack_buf buf 2 of
          (None, _) \<Rightarrow> None
        | (Some p, buf) \<Rightarrow> Some (buf\<lparr>base := store_bytes p [slave_id, function] (base buf)\<rparr>))"

definition modbus_code_unwrap ::
    "protocol_buf \<Rightarrow> modbus_code \<Rightarrow> int \<times> modbus_code \<times> protocol_buf" where
  "modbus_code_unwrap buf out_code =
     (case neu_protocol_unpack_buf buf 2 of
        (None, buf) \<Rightarrow> (0, out_code, buf)
      | (Some p, buf) \<Rightarrow>
          let bs = load_bytes p 2 (base buf)
          in (2, \<lparr>mc_slave_id = bs ! 0, mc_function = bs ! 1\<rparr>, buf))"

section \<open>Register address\<close>

definition modbus_address_wrap ::
    "protocol_buf \<Rightarrow> u16 \<Rightarrow> u16 \<Rightarrow> modbus_action \<Rightarrow> protocol_buf option" where
  "modbus_address_wrap buf start n_register action =
     (if action = MODBUS_ACTION_HOLD_REG_WRITE \<and> n_register = 1
      then (if \<not> (neu_protocol_pack_buf_unused_size buf \<ge> 2) then None
            else case neu_protocol_pack_buf buf 2 of
                (None, _) \<Rightarrow> None
              | (Some p, buf) \<Rightarrow>
                  Some (buf\<lparr>base := store_bytes p (le_bytes 2 (htons start)) (base buf)\<rparr>))
      else (if \<not> (neu_protocol_pack_buf_unused_size buf \<ge> 4) then None
            else case neu_protocol_pack_buf buf 4 of
                (None, _) \<Rightarrow> None
              | (Some p, buf) \<Rightarrow>
                  let address = \<lparr>ma_start_address = htons start, ma_n_reg = htons n_register\<rparr>
                  in Some (buf\<lparr>base := store_bytes p (address_to_bytes address) (base buf)\<rparr>)))"

definition modbus_address_unwrap ::
    "protocol_buf \<Rightarrow> modbus_address \<Rightarrow> int \<times> modbus_address \<times> protocol_buf" where
  "modbus_address_unwrap buf out_address =
     (case neu_protocol_unpack_buf buf 4 of
        (None, buf) \<Rightarrow> (0, out_address, buf)
      | (Some p, buf) \<Rightarrow>
          let address = address_of_bytes (load_bytes p 4 (base buf))
          in (4, \<lparr>ma_start_address = ntohs (ma_start_address address),
                  ma_n_reg = ntohs (ma_n_reg address)\<rparr>, buf))"

section \<open>Data\<close>

text \<open>The caller's \<^verbatim>\<open>bytes\<close> pointer has at least \<open>n_byte\<close> bytes; \<^verbatim>\<open>memcpy\<close> takes that many.\<close>

definition modbus_data_wrap ::
    "protocol_buf \<Rightarrow> u8 \<Rightarrow> bytes \<Rightarrow> modbus_action \<Rightarrow> protocol_buf option" where
  "modbus_data_wrap buf n_byte bs action =
     (if \<not> (unat (neu_protocol_pack_buf_unused_size buf) \<ge> 1 + unat n_byte) then None
      else case neu_protocol_pack_buf buf (ucast n_byte) of
          (None, _) \<Rightarrow> None
        | (Some p, buf) \<Rightarrow>
            let buf = buf\<lparr>base := store_bytes p (take (unat n_byte) bs) (base buf)\<rparr> in
            if action = MODBUS_ACTION_DEFAULT \<or> n_byte > 2
            then (case neu_protocol_pack_buf buf 1 of
                    (None, _) \<Rightarrow> None
                  | (Some q, buf) \<Rightarrow> Some (buf\<lparr>base := store_bytes q [n_byte] (base buf)\<rparr>))
            else Some buf)"

definition modbus_data_unwrap :: "protocol_buf \<Rightarrow> u8 \<Rightarrow> int \<times> u8 \<times> protocol_buf" where
  "modbus_data_unwrap buf out_n_byte =
     (case neu_protocol_unpack_buf buf 1 of
        (None, buf) \<Rightarrow> (0, out_n_byte, buf)
      | (Some p, buf) \<Rightarrow>
          let n_byte = load_bytes p 1 (base buf) ! 0 in
          if ucast n_byte > neu_protocol_unpack_buf_unused_size buf then (0, out_n_byte, buf)
          else (1, n_byte, buf))"

section \<open>Checksum\<close>

definition crc_table :: "u16 list" where
  "crc_table = [
    0x0000, 0xC0C1, 0xC181, 0x0140, 0xC301, 0x03C0, 0x0280, 0xC241, 0xC601,
    0x06C0, 0x0780, 0xC741, 0x0500, 0xC5C1, 0xC481, 0x0440, 0xCC01, 0x0CC0,
    0x0D80, 0xCD41, 0x0F00, 0xCFC1, 0xCE81, 0x0E40, 0x0A00, 0xCAC1, 0xCB81,
    0x0B40, 0xC901, 0x09C0, 0x0880, 0xC841, 0xD801, 0x18C0, 0x1980, 0xD941,
    0x1B00, 0xDBC1, 0xDA81, 0x1A40, 0x1E00, 0xDEC1, 0xDF81, 0x1F40, 0xDD01,
    0x1DC0, 0x1C80, 0xDC41, 0x1400, 0xD4C1, 0xD581, 0x1540, 0xD701, 0x17C0,
    0x1680, 0xD641, 0xD201, 0x12C0, 0x1380, 0xD341, 0x1100, 0xD1C1, 0xD081,
    0x1040, 0xF001, 0x30C0, 0x3180, 0xF141, 0x3300, 0xF3C1, 0xF281, 0x3240,
    0x3600, 0xF6C1, 0xF781, 0x3740, 0xF501, 0x35C0, 0x3480, 0xF441, 0x3C00,
    0xFCC1, 0xFD81, 0x3D40, 0xFF01, 0x3FC0, 0x3E80, 0xFE41, 0xFA01, 0x3AC0,
    0x3B80, 0xFB41, 0x3900, 0xF9C1, 0xF881, 0x3840, 0x2800, 0xE8C1, 0xE981,
    0x2940, 0xEB01, 0x2BC0, 0x2A80, 0xEA41, 0xEE01, 0x2EC0, 0x2F80, 0xEF41,
    0x2D00, 0xEDC1, 0xEC81, 0x2C40, 0xE401, 0x24C0, 0x2580, 0xE541, 0x2700,
    0xE7C1, 0xE681, 0x2640, 0x2200, 0xE2C1, 0xE381, 0x2340, 0xE101, 0x21C0,
    0x2080, 0xE041, 0xA001, 0x60C0, 0x6180, 0xA141, 0x6300, 0xA3C1, 0xA281,
    0x6240, 0x6600, 0xA6C1, 0xA781, 0x6740, 0xA501, 0x65C0, 0x6480, 0xA441,
    0x6C00, 0xACC1, 0xAD81, 0x6D40, 0xAF01, 0x6FC0, 0x6E80, 0xAE41, 0xAA01,
    0x6AC0, 0x6B80, 0xAB41, 0x6900, 0xA9C1, 0xA881, 0x6840, 0x7800, 0xB8C1,
    0xB981, 0x7940, 0xBB01, 0x7BC0, 0x7A80, 0xBA41, 0xBE01, 0x7EC0, 0x7F80,
    0xBF41, 0x7D00, 0xBDC1, 0xBC81, 0x7C40, 0xB401, 0x74C0, 0x7580, 0xB541,
    0x7700, 0xB7C1, 0xB681, 0x7640, 0x7200, 0xB2C1, 0xB381, 0x7340, 0xB101,
    0x71C0, 0x7080, 0xB041, 0x5000, 0x90C1, 0x9181, 0x5140, 0x9301, 0x53C0,
    0x5280, 0x9241, 0x9601, 0x56C0, 0x5780, 0x9741, 0x5500, 0x95C1, 0x9481,
    0x5440, 0x9C01, 0x5CC0, 0x5D80, 0x9D41, 0x5F00, 0x9FC1, 0x9E81, 0x5E40,
    0x5A00, 0x9AC1, 0x9B81, 0x5B40, 0x9901, 0x59C0, 0x5880, 0x9841, 0x8801,
    0x48C0, 0x4980, 0x8941, 0x4B00, 0x8BC1, 0x8A81, 0x4A40, 0x4E00, 0x8EC1,
    0x8F81, 0x4F40, 0x8D01, 0x4DC0, 0x4C80, 0x8C41, 0x4400, 0x84C1, 0x8581,
    0x4540, 0x8701, 0x47C0, 0x4680, 0x8641, 0x8201, 0x42C0, 0x4380, 0x8341,
    0x4100, 0x81C1, 0x8081, 0x4040]"

definition crc_update :: "u16 \<Rightarrow> u8 \<Rightarrow> u16" where
  "crc_update crc b = drop_bit 8 crc XOR crc_table ! unat ((crc XOR ucast b) AND 0xFF)"

definition calcrc :: "bytes \<Rightarrow> u16" where
  "calcrc bs = foldl crc_update 0xffff bs"

text \<open>
  \<^verbatim>\<open>calcrc(buf, len)\<close> reads the first \<open>len\<close> bytes, here all pending bytes but two, and the
  result is stored over those two; \<open>None\<close> is a store through a null pointer.
\<close>

definition modbus_crc_set :: "protocol_buf \<Rightarrow> protocol_buf option" where
  "modbus_crc_set buf =
     (let n = neu_protocol_pack_buf_used_size buf - 2;
          crc = calcrc (take (unat n) (drop (neu_protocol_pack_buf_get buf) (base buf)))
      in case neu_protocol_pack_buf_set buf n 2 of
           None \<Rightarrow> None
         | Some p \<Rightarrow> Some (buf\<lparr>base := store_bytes p (le_bytes 2 crc) (base buf)\<rparr>))"

definition modbus_crc_wrap :: "protocol_buf \<Rightarrow> protocol_buf option" where
  "modbus_crc_wrap buf =
     (if \<not> (neu_protocol_pack_buf_unused_size buf \<ge> 2) then None
      else case neu_protocol_pack_buf buf 2 of
          (None, _) \<Rightarrow> None
        | (Some p, buf) \<Rightarrow> Some (buf\<lparr>base := store_bytes p (le_bytes 2 (0::u16)) (base buf)\<rparr>))"

definition modbus_crc_unwrap :: "protocol_buf \<Rightarrow> u16 \<Rightarrow> int \<times> u16 \<times> protocol_buf" where
  "modbus_crc_unwrap buf out_crc =
     (case neu_protocol_unpack_buf buf 2 of
        (None, buf) \<Rightarrow> (0, out_crc, buf)
      | (Some p, buf) \<Rightarrow> (2, le_word (load_bytes p 2 (base buf)), buf))"

definition modbus_area_to_str :: "modbus_area \<Rightarrow> string" where
  "modbus_area_to_str area = (case area of
       MODBUS_AREA_COIL \<Rightarrow> ''coil''
     | MODBUS_AREA_INPUT \<Rightarrow> ''input''
     | MODBUS_AREA_INPUT_REGISTER \<Rightarrow> ''input register''
     | MODBUS_AREA_HOLD_REGISTER \<Rightarrow> ''hold register'')"

section \<open>The table-driven checksum is the bitwise one\<close>

text \<open>
  The Modbus checksum is specified bit by bit: shift right and, when a one falls out,
  add the reversed polynomial \<open>0xA001\<close>. The step is linear over exclusive or, so the 256
  entries of the table are the span of its entries at the powers of two.
\<close>

definition crc_step :: "u16 \<Rightarrow> u16" where
  "crc_step x = (if bit x 0 then drop_bit 1 x XOR 0xA001 else drop_bit 1 x)"

lemma crc_step_xor: "crc_step (x XOR y) = crc_step x XOR crc_step y"
  by (rule bit_word_eqI) (auto simp: crc_step_def bit_simps)

lemma crc_steps_xor: "(crc_step ^^ n) (x XOR y) = (crc_step ^^ n) x XOR (crc_step ^^ n) y"
  by (induction n) (simp_all add: crc_step_xor)

lemma crc_steps_high:
  assumes "\<And>k. k < n \<Longrightarrow> \<not> bit x k"
  shows "(crc_step ^^ n) x = drop_bit n x"
  using assms
proof (induction n)
  case 0
  then show ?case by simp
next
  case (Suc n)
  then have "(crc_step ^^ n) x = drop_bit n x" by simp
  moreover have "crc_step (drop_bit n x) = drop_bit (Suc n) x"
    using Suc.prems by (simp add: crc_step_def bit_simps)
  ultimately show ?case by simp
qed

fun xor_span :: "u16 list \<Rightarrow> u16 list" where
  "xor_span [] = [0]"
| "xor_span (c # cs) = (let t = xor_span cs in t @ map (\<lambda>v. c XOR v) t)"

lemma length_xor_span [simp]: "length (xor_span cs) = 2 ^ length cs"
  by (induction cs) (simp_all add: Let_def)

lemma xor_pow2:
  assumes "j < 2 ^ n" and "n < 16"
  shows "(of_nat (2 ^ n + j) :: u16) = 2 ^ n XOR of_nat j"
proof -
  have "(2 ^ n AND of_nat j :: u16) = 0"
  proof (rule bit_word_eqI)
    fix k assume "k < LENGTH(16)"
    have "\<not> bit j n" using assms(1) by (simp add: bit_iff_odd)
    then show "bit (2 ^ n AND of_nat j :: u16) k = bit (0 :: u16) k"
      by (auto simp: bit_simps)
  qed
  then show ?thesis by (simp add: disjunctive_add_eq_xor)
qed

lemma xor_span_nth:
  fixes g :: "u16 \<Rightarrow> u16"
  assumes lin: "\<And>x y. g (x XOR y) = g x XOR g y" and "n \<le> 16" and "i < 2 ^ n"
  shows "xor_span (map (\<lambda>k. g (2 ^ k)) (rev [0..<n])) ! i = g (of_nat i)"
  using assms(2,3)
proof (induction n arbitrary: i)
  case 0
  have "g 0 = 0" using lin [of 0 0] by simp
  with 0 show ?case by simp
next
  case (Suc n)
  show ?case
  proof (cases "i < 2 ^ n")
    case True
    with Suc show ?thesis by (simp add: Let_def nth_append)
  next
    case False
    then obtain j where i: "i = 2 ^ n + j" by (metis le_add_diff_inverse not_less)
    with Suc.prems have j: "j < 2 ^ n" by simp
    have "g (of_nat i) = g (2 ^ n) XOR g (of_nat j)"
      using Suc.prems by (simp only: i xor_pow2 [OF j] lin)
    then show ?thesis
      using Suc j by (simp add: Let_def nth_append i)
  qed
qed

lemma crc_step8: "(crc_step ^^ 8) x =
    crc_step (crc_step (crc_step (crc_step (crc_step (crc_step (crc_step (crc_step x)))))))"
  by (simp add: eval_nat_numeral)

lemma crc_table_span: "crc_table = xor_span (map (\<lambda>k. (crc_step ^^ 8) (2 ^ k)) (rev [0..<8]))"
proof -
  have "map (\<lambda>k. (crc_step ^^ 8) (2 ^ k)) (rev [0..<8]) =
      [0xA001, 0xF001, 0xD801, 0xCC01, 0xC601, 0xC301, 0xC181, 0xC0C1]"
    by (simp only: crc_step8) (simp add: crc_step_def upt_rec)
  moreover have "crc_table = xor_span [0xA001, 0xF001, 0xD801, 0xCC01, 0xC601, 0xC301, 0xC181, 0xC0C1]"
    by (simp add: crc_table_def)
  ultimately show ?thesis by simp
qed

lemma crc_table_nth: "i < 256 \<Longrightarrow> crc_table ! i = (crc_step ^^ 8) (of_nat i)"
  using xor_span_nth [of "crc_step ^^ 8" 8 i] by (simp add: crc_steps_xor crc_table_span)

definition crc_bitwise :: "bytes \<Rightarrow> u16" where
  "crc_bitwise bs = foldl (\<lambda>crc b. (crc_step ^^ 8) (crc XOR ucast b)) 0xffff bs"

lemma crc_update_bitwise: "crc_update crc b = (crc_step ^^ 8) (crc XOR ucast b)"
proof -
  let ?x = "crc XOR ucast b"
  let ?hi = "push_bit 8 (drop_bit 8 ?x)"
  have low: "?x AND 0xFF = take_bit 8 ?x"
    by (simp add: take_bit_eq_mask mask_eq_exp_minus_1)
  have "unat (?x AND 0xFF) \<le> unat (0xFF :: u16)"
    by (rule word_and_le1 [THEN word_le_nat_alt [THEN iffD1]])
  then have "unat (take_bit 8 ?x) < 256" by (simp add: low)
  then have tab: "crc_table ! unat (take_bit 8 ?x) = (crc_step ^^ 8) (take_bit 8 ?x)"
    by (simp add: crc_table_nth)
  have "(crc_step ^^ 8) ?hi = drop_bit 8 ?hi"
    by (rule crc_steps_high) (simp add: bit_simps)
  also have "\<dots> = drop_bit 8 crc"
    by (rule bit_word_eqI) (auto simp: bit_simps dest: bit_imp_le_length)
  finally have hi: "(crc_step ^^ 8) ?hi = drop_bit 8 crc" .
  have "?x = ?hi XOR take_bit 8 ?x"
    by (rule bit_word_eqI) (auto simp: bit_simps)
  then have "(crc_step ^^ 8) ?x = (crc_step ^^ 8) ?hi XOR (crc_step ^^ 8) (take_bit 8 ?x)"
    by (metis crc_steps_xor)
  then show ?thesis
    by (simp only: crc_update_def low tab hi)
qed

lemma calcrc_bitwise: "calcrc bs = crc_bitwise bs"
proof -
  have "crc_update = (\<lambda>crc b. (crc_step ^^ 8) (crc XOR ucast b))"
    by (intro ext) (rule crc_update_bitwise)
  then show ?thesis by (simp add: calcrc_def crc_bitwise_def)
qed

lemma xor_cancel: "a XOR x = b XOR x \<longleftrightarrow> a = b" "x XOR a = x XOR b \<longleftrightarrow> a = b" for a b x :: "'a::len word"
proof -
  have *: "(c XOR x) XOR x = c" for c :: "'a word" by (simp add: xor.assoc)
  show eq: "a XOR x = b XOR x \<longleftrightarrow> a = b"
  proof
    assume "a XOR x = b XOR x"
    then have "(a XOR x) XOR x = (b XOR x) XOR x" by (rule arg_cong)
    then show "a = b" unfolding * .
  qed simp
  show "x XOR a = x XOR b \<longleftrightarrow> a = b" using eq by (simp add: xor.commute)
qed

lemma crc_step_inj:
  assumes "crc_step x = crc_step y"
  shows "x = y"
proof -
  have top: "bit (crc_step z) 15 = bit z 0" for z
    by (auto simp: crc_step_def bit_simps dest: bit_imp_le_length)
  then have b0: "bit x 0 = bit y 0" using assms by metis
  then have d: "drop_bit 1 x = drop_bit 1 y"
    using assms by (auto simp: crc_step_def xor_cancel split: if_splits)
  show ?thesis
  proof (rule bit_word_eqI)
    fix n show "bit x n = bit y n"
    proof (cases n)
      case (Suc m)
      have "bit (drop_bit 1 x) m = bit (drop_bit 1 y) m" using d by simp
      then show ?thesis using Suc by (simp add: bit_simps)
    qed (simp add: b0)
  qed
qed

lemma crc_update_inj: "crc_update c b = crc_update c' b' \<longleftrightarrow> c XOR ucast b = c' XOR ucast b'"
proof -
  have "(crc_step ^^ n) x = (crc_step ^^ n) y \<Longrightarrow> x = y" for n x y
    by (induction n) (auto dest: crc_step_inj)
  then show ?thesis by (auto simp: crc_update_bitwise)
qed

lemma foldl_crc_inj: "foldl crc_update c bs = foldl crc_update c' bs \<longleftrightarrow> c = c'"
proof (induction bs arbitrary: c c')
  case (Cons b bs)
  then show ?case by (simp add: crc_update_inj xor_cancel)
qed simp

lemma crc_residue: "foldl crc_update c (le_bytes 2 c) = 0"
proof -
  have hi: "ucast (ucast (drop_bit 8 c) :: u8) = drop_bit 8 c"
    by (rule bit_word_eqI) (auto simp: bit_simps dest: bit_imp_le_length)
  have "c XOR ucast (ucast c :: u8) = push_bit 8 (drop_bit 8 c)"
    by (rule bit_word_eqI) (auto simp: bit_simps)
  then have "crc_update c (ucast c) = (crc_step ^^ 8) (push_bit 8 (drop_bit 8 c))" by (simp add: crc_update_bitwise)
  also have "\<dots> = drop_bit 8 (push_bit 8 (drop_bit 8 c))" by (rule crc_steps_high) (simp add: bit_simps)
  also have "\<dots> = drop_bit 8 c" by (rule bit_word_eqI) (auto simp: bit_simps dest: bit_imp_le_length)
  finally have lo: "crc_update c (ucast c) = drop_bit 8 c" .
  have "(crc_step ^^ n) 0 = 0" for n by (induction n) (simp_all add: crc_step_def)
  then have "crc_update (drop_bit 8 c) (ucast (drop_bit 8 c)) = 0" by (simp add: crc_update_bitwise hi)
  then show ?thesis by (simp add: numeral_2_eq_2 lo)
qed

text \<open>
  C19: The table-driven checksum is the bitwise CRC-16 of the Modbus specification (reflected
  polynomial \<open>0xA001\<close>, start value \<open>0xffff\<close>), and the checksum of a frame together with its own
  checksum, low byte first, is zero.
\<close>

theorem calcrc_is_modbus_crc:
  "calcrc bs = crc_bitwise bs \<and> calcrc (bs @ le_bytes 2 (calcrc bs)) = 0"
  by (simp add: calcrc_bitwise [symmetric]) (simp add: calcrc_def crc_residue)

text \<open>
  C20: A frame in which one byte was changed, in any way and at any position, has another
  checksum.
\<close>

theorem calcrc_detects_byte:
  assumes "b \<noteq> b'"
  shows "calcrc (xs @ b # ys) \<noteq> calcrc (xs @ b' # ys)"
proof -
  have "(ucast b :: u16) \<noteq> ucast b'"
    using assms by (simp add: word_unat_eq_iff unat_ucast_u8)
  then show ?thesis by (simp add: calcrc_def foldl_crc_inj crc_update_inj xor_cancel)
qed

section \<open>Wrap and unwrap are inverse\<close>

text \<open>
  The contract of a frame part: \<open>wrap\<close> prepends its \<open>n\<close> bytes, which may depend on what the
  buffer already holds, and aborts when they do not fit; \<open>unwrap\<close> reads them back and
  reports 0 when they have not all arrived.
\<close>

locale frame_codec =
  fixes wrap :: "protocol_buf \<Rightarrow> 'a \<Rightarrow> protocol_buf option"
    and unwrap :: "protocol_buf \<Rightarrow> int \<times> 'r \<times> protocol_buf"
    and enc :: "'a \<Rightarrow> bytes \<Rightarrow> bytes"
    and dec :: "'a \<Rightarrow> bytes \<Rightarrow> 'r"
    and n :: nat
  assumes wrap_enc: "buf_ok b \<Longrightarrow> n \<le> unat (boffset b) \<Longrightarrow> wraps b (wrap b x) (enc x (pending b))"
    and wrap_abort: "unat (boffset b) < n \<Longrightarrow> wrap b x = None"
    and unwrap_enc: "buf_ok u \<Longrightarrow> pending u = enc x p @ p \<Longrightarrow>
      \<exists>u'. unwrap u = (int n, dec x p, u') \<and> buf_ok u' \<and> pending u' = p \<and> bsize u' = bsize u"
    and unwrap_short: "buf_ok u \<Longrightarrow> length (pending u) < n \<Longrightarrow> fst (unwrap u) = 0"
begin

lemma wrap_unwrap:
  assumes "buf_ok b" and "wrap b x = Some b'" and "buf_ok u" and "pending u = pending b'"
  shows "\<exists>u'. unwrap u = (int n, dec x (pending b), u') \<and> buf_ok u' \<and> pending u' = pending b \<and> bsize u' = bsize u"
proof -
  have "n \<le> unat (boffset b)" using wrap_abort [of b x] assms(2) by (cases "unat (boffset b) < n") auto
  from wrap_enc [OF assms(1) this, of x] assms(2)
  have "pending b' = enc x (pending b) @ pending b" by (simp add: wraps_def)
  with unwrap_enc assms(3,4) show ?thesis by simp
qed

end

definition header_bytes :: "u16 \<Rightarrow> bytes \<Rightarrow> bytes" where
  "header_bytes seq p = rev (le_bytes 2 seq) @ [0, 0] @ rev (le_bytes 2 (of_nat (length p) :: u16))"

lemma length_header_bytes [simp]: "length (header_bytes seq p) = 6"
  by (simp add: header_bytes_def)

lemma header_wrap_enc:
  assumes ok: "buf_ok b" and room: "6 \<le> unat (boffset b)"
  shows "wraps b (modbus_header_wrap b seq) (header_bytes seq (pending b))"
proof -
  have "(6::u16) \<le> boffset b" using room by (simp add: word_room)
  with ok obtain b1 p where b1: "neu_protocol_pack_buf b 6 = (Some p, b1)" "buf_ok b1"
      and len: "length (pending b1) = 6 + length (pending b)"
      and fill: "\<And>bs. length bs = 6 \<Longrightarrow> wraps b (Some (b1\<lparr>base := store_bytes p bs (base b1)\<rparr>)) bs"
    by (rule reserve_fill) auto
  have "unat (neu_protocol_pack_buf_used_size b1) = 6 + length (pending b)"
    using unat_used_size [OF b1(2)] len by simp
  then have "of_nat (unat (neu_protocol_pack_buf_used_size b1)) = (of_nat (6 + length (pending b)) :: u16)"
    by simp
  then have "neu_protocol_pack_buf_used_size b1 - 6 = of_nat (length (pending b))"
    by simp
  then have "header_to_bytes \<lparr>mh_seq = htons seq, mh_protocol = 0,
      mh_len = htons (neu_protocol_pack_buf_used_size b1 - 6)\<rparr> = header_bytes seq (pending b)"
    by (simp add: header_to_bytes_def header_bytes_def byte_simps)
  then show ?thesis
    using fill [of "header_bytes seq (pending b)"] room
    by (simp add: modbus_header_wrap_def neu_protocol_pack_buf_unused_size_def word_room b1)
qed

lemma header_unwrap_enc:
  assumes ok: "buf_ok u" and pen: "pending u = header_bytes seq p @ p"
  shows "\<exists>u'. modbus_header_unwrap u out =
      (6, \<lparr>mh_seq = seq, mh_protocol = 0, mh_len = of_nat (length p)\<rparr>, u') \<and>
      buf_ok u' \<and> pending u' = p \<and> bsize u' = bsize u"
proof -
  from ok pen obtain i u' where u': "neu_protocol_unpack_buf u 6 = (Some i, u')" "buf_ok u'"
      "pending u' = p" "bsize u' = bsize u" and load: "load_bytes i 6 (base u') = header_bytes seq p"
    by (rule unpack_front [where sz = 6]) auto
  have hdr: "header_of_bytes (header_bytes seq p) =
      \<lparr>mh_seq = le_word (rev (le_bytes 2 seq)), mh_protocol = 0,
       mh_len = le_word (rev (le_bytes 2 (of_nat (length p) :: u16)))\<rparr>"
    by (simp add: header_of_bytes_def header_bytes_def load_bytes_def)
  have "neu_protocol_unpack_buf_unused_size u' = of_nat (length p)"
    using unat_unused_size [OF u'(2)] pending_length_u16 [OF u'(2)] u'(3)
    by (simp add: word_unat_eq_iff)
  then show ?thesis
    using u' by (simp add: modbus_header_unwrap_def load hdr byte_simps)
qed

interpretation header_codec: frame_codec modbus_header_wrap "\<lambda>u. modbus_header_unwrap u out"
    header_bytes "\<lambda>seq p. \<lparr>mh_seq = seq, mh_protocol = 0, mh_len = of_nat (length p)\<rparr>" 6
  for out
proof
  fix b seq
  show "buf_ok b \<Longrightarrow> 6 \<le> unat (boffset b) \<Longrightarrow>
      wraps b (modbus_header_wrap b seq) (header_bytes seq (pending b))"
    by (rule header_wrap_enc)
  show "unat (boffset b) < 6 \<Longrightarrow> modbus_header_wrap b seq = None"
    by (simp add: modbus_header_wrap_def neu_protocol_pack_buf_unused_size_def word_room)
next
  fix u seq p
  show "buf_ok u \<Longrightarrow> pending u = header_bytes seq p @ p \<Longrightarrow>
      \<exists>u'. modbus_header_unwrap u out =
        (int 6, \<lparr>mh_seq = seq, mh_protocol = 0, mh_len = of_nat (length p)\<rparr>, u') \<and>
        buf_ok u' \<and> pending u' = p \<and> bsize u' = bsize u"
    using header_unwrap_enc by simp
  show "buf_ok u \<Longrightarrow> length (pending u) < 6 \<Longrightarrow> fst (modbus_header_unwrap u out) = 0"
    by (simp add: modbus_header_unwrap_def unpack_None)
qed

lemma code_wrap_enc:
  assumes ok: "buf_ok b" and room: "2 \<le> unat (boffset b)"
  shows "wraps b (modbus_code_wrap b sid func) [sid, func]"
proof -
  have "(2::u16) \<le> boffset b" using room by (simp add: word_room)
  with ok obtain b1 p where "neu_protocol_pack_buf b 2 = (Some p, b1)"
      "\<And>bs. length bs = 2 \<Longrightarrow> wraps b (Some (b1\<lparr>base := store_bytes p bs (base b1)\<rparr>)) bs"
    by (rule reserve_fill) auto
  then show ?thesis
    using room by (simp add: modbus_code_wrap_def neu_protocol_pack_buf_unused_size_def word_room)
qed

interpretation code_codec: frame_codec "\<lambda>b (sid, func). modbus_code_wrap b sid func"
    "\<lambda>u. modbus_code_unwrap u out" "\<lambda>(sid, func) p. [sid, func]"
    "\<lambda>(sid, func) p. \<lparr>mc_slave_id = sid, mc_function = func\<rparr>" 2
  for out
proof
  fix b and x :: "u8 \<times> u8"
  obtain sid func where x: "x = (sid, func)" by (cases x)
  show "buf_ok b \<Longrightarrow> 2 \<le> unat (boffset b) \<Longrightarrow>
      wraps b (case x of (sid, func) \<Rightarrow> modbus_code_wrap b sid func) ((case x of (sid, func) \<Rightarrow> \<lambda>p. [sid, func]) (pending b))"
    by (simp add: x code_wrap_enc)
  show "unat (boffset b) < 2 \<Longrightarrow> (case x of (sid, func) \<Rightarrow> modbus_code_wrap b sid func) = None"
    by (simp add: x modbus_code_wrap_def neu_protocol_pack_buf_unused_size_def word_room)
  fix u p
  show "\<exists>u'. modbus_code_unwrap u out =
        (int 2, (case x of (sid, func) \<Rightarrow> \<lambda>p. \<lparr>mc_slave_id = sid, mc_function = func\<rparr>) p, u') \<and>
        buf_ok u' \<and> pending u' = p \<and> bsize u' = bsize u"
    if "buf_ok u" "pending u = (case x of (sid, func) \<Rightarrow> \<lambda>p. [sid, func]) p @ p"
  proof -
    from that obtain i u' where "neu_protocol_unpack_buf u 2 = (Some i, u')" "buf_ok u'"
      "pending u' = p" "bsize u' = bsize u" "load_bytes i 2 (base u') = [sid, func]"
      by (auto simp: x intro: unpack_front [of u "[sid, func]" p 2])
    then show ?thesis by (simp add: x modbus_code_unwrap_def)
  qed
  show "buf_ok u \<Longrightarrow> length (pending u) < 2 \<Longrightarrow> fst (modbus_code_unwrap u out) = 0"
    by (simp add: modbus_code_unwrap_def unpack_None)
qed

definition address_bytes :: "u16 \<Rightarrow> u16 \<Rightarrow> bytes" where
  "address_bytes start n = rev (le_bytes 2 start) @ rev (le_bytes 2 n)"

lemma length_address_bytes [simp]: "length (address_bytes start n) = 4"
  by (simp add: address_bytes_def)

lemma address_wrap_enc:
  assumes ok: "buf_ok b" and room: "4 \<le> unat (boffset b)"
    and act: "\<not> (action = MODBUS_ACTION_HOLD_REG_WRITE \<and> n = 1)"
  shows "wraps b (modbus_address_wrap b start n action) (address_bytes start n)"
proof -
  have "(4::u16) \<le> boffset b" using room by (simp add: word_room)
  with ok obtain b1 p where "neu_protocol_pack_buf b 4 = (Some p, b1)"
      "\<And>bs. length bs = 4 \<Longrightarrow> wraps b (Some (b1\<lparr>base := store_bytes p bs (base b1)\<rparr>)) bs"
    by (rule reserve_fill) auto
  then show ?thesis
    using room act
    by (auto simp: modbus_address_wrap_def neu_protocol_pack_buf_unused_size_def word_room
        address_to_bytes_def address_bytes_def byte_simps)
qed

lemma address_wrap_single:
  assumes ok: "buf_ok b" and room: "2 \<le> unat (boffset b)"
  shows "wraps b (modbus_address_wrap b start 1 MODBUS_ACTION_HOLD_REG_WRITE) (rev (le_bytes 2 start))"
proof -
  have "(2::u16) \<le> boffset b" using room by (simp add: word_room)
  with ok obtain b1 p where "neu_protocol_pack_buf b 2 = (Some p, b1)"
      "\<And>bs. length bs = 2 \<Longrightarrow> wraps b (Some (b1\<lparr>base := store_bytes p bs (base b1)\<rparr>)) bs"
    by (rule reserve_fill) auto
  then show ?thesis
    using room
    by (auto simp: modbus_address_wrap_def neu_protocol_pack_buf_unused_size_def word_room byte_simps)
qed

lemma address_unwrap_enc:
  assumes "buf_ok u" and "pending u = address_bytes start n @ p"
  shows "\<exists>u'. modbus_address_unwrap u out =
      (4, \<lparr>ma_start_address = start, ma_n_reg = n\<rparr>, u') \<and> buf_ok u' \<and> pending u' = p \<and> bsize u' = bsize u"
proof -
  from assms obtain i u' where u': "neu_protocol_unpack_buf u 4 = (Some i, u')" "buf_ok u'"
      "pending u' = p" "bsize u' = bsize u" "load_bytes i 4 (base u') = address_bytes start n"
    by (rule unpack_front [where sz = 4]) auto
  have "address_of_bytes (address_bytes start n) =
      \<lparr>ma_start_address = le_word (rev (le_bytes 2 start)), ma_n_reg = le_word (rev (le_bytes 2 n))\<rparr>"
    by (simp add: address_of_bytes_def address_bytes_def load_bytes_def)
  with u' show ?thesis by (simp add: modbus_address_unwrap_def byte_simps)
qed

interpretation address_codec: frame_codec
    "\<lambda>b (start, n). modbus_address_wrap b start n MODBUS_ACTION_DEFAULT"
    "\<lambda>u. modbus_address_unwrap u out" "\<lambda>(start, n) p. address_bytes start n"
    "\<lambda>(start, n) p. \<lparr>ma_start_address = start, ma_n_reg = n\<rparr>" 4
  for out
proof
  fix b and x :: "u16 \<times> u16"
  obtain start n where x: "x = (start, n)" by (cases x)
  show "buf_ok b \<Longrightarrow> 4 \<le> unat (boffset b) \<Longrightarrow>
      wraps b (case x of (start, n) \<Rightarrow> modbus_address_wrap b start n MODBUS_ACTION_DEFAULT)
        ((case x of (start, n) \<Rightarrow> \<lambda>p. address_bytes start n) (pending b))"
    by (simp add: x address_wrap_enc)
  show "unat (boffset b) < 4 \<Longrightarrow>
      (case x of (start, n) \<Rightarrow> modbus_address_wrap b start n MODBUS_ACTION_DEFAULT) = None"
    by (simp add: x modbus_address_wrap_def neu_protocol_pack_buf_unused_size_def word_room)
  fix u p
  show "\<exists>u'. modbus_address_unwrap u out =
        (int 4, (case x of (start, n) \<Rightarrow> \<lambda>p. \<lparr>ma_start_address = start, ma_n_reg = n\<rparr>) p, u') \<and>
        buf_ok u' \<and> pending u' = p \<and> bsize u' = bsize u"
    if "buf_ok u" "pending u = (case x of (start, n) \<Rightarrow> \<lambda>p. address_bytes start n) p @ p"
    using address_unwrap_enc [of u start n p out] that by (simp add: x)
  show "buf_ok u \<Longrightarrow> length (pending u) < 4 \<Longrightarrow> fst (modbus_address_unwrap u out) = 0"
    by (simp add: modbus_address_unwrap_def unpack_None)
qed

lemma crc_wrap_enc:
  assumes ok: "buf_ok b" and room: "2 \<le> unat (boffset b)"
  shows "wraps b (modbus_crc_wrap b) [0, 0]"
proof -
  have "(2::u16) \<le> boffset b" using room by (simp add: word_room)
  with ok obtain b1 p where "neu_protocol_pack_buf b 2 = (Some p, b1)"
      "\<And>bs. length bs = 2 \<Longrightarrow> wraps b (Some (b1\<lparr>base := store_bytes p bs (base b1)\<rparr>)) bs"
    by (rule reserve_fill) auto
  then show ?thesis
    using room by (simp add: modbus_crc_wrap_def neu_protocol_pack_buf_unused_size_def word_room)
qed

lemma crc_unwrap_enc:
  assumes "buf_ok u" and "pending u = le_bytes 2 crc @ p"
  shows "\<exists>u'. modbus_crc_unwrap u out = (2, crc, u') \<and> buf_ok u' \<and> pending u' = p \<and> bsize u' = bsize u"
proof -
  from assms obtain i u' where u': "neu_protocol_unpack_buf u 2 = (Some i, u')" "buf_ok u'"
      "pending u' = p" "bsize u' = bsize u" "load_bytes i 2 (base u') = le_bytes 2 crc"
    by (rule unpack_front [where sz = 2]) auto
  then show ?thesis by (simp add: modbus_crc_unwrap_def byte_simps)
qed

interpretation crc_codec: frame_codec "\<lambda>b x. modbus_crc_wrap b" "\<lambda>u. modbus_crc_unwrap u out"
    "\<lambda>x p. [0, 0]" "\<lambda>(x::unit) p. 0" 2
  for out
proof
  fix b u p
  show "buf_ok b \<Longrightarrow> 2 \<le> unat (boffset b) \<Longrightarrow> wraps b (modbus_crc_wrap b) [0, 0]"
    by (rule crc_wrap_enc)
  show "unat (boffset b) < 2 \<Longrightarrow> modbus_crc_wrap b = None"
    by (simp add: modbus_crc_wrap_def neu_protocol_pack_buf_unused_size_def word_room)
  show "buf_ok u \<Longrightarrow> pending u = [0, 0] @ p \<Longrightarrow>
      \<exists>u'. modbus_crc_unwrap u out = (int 2, 0, u') \<and> buf_ok u' \<and> pending u' = p \<and> bsize u' = bsize u"
    using crc_unwrap_enc [of u 0 p out] by simp
  show "buf_ok u \<Longrightarrow> length (pending u) < 2 \<Longrightarrow> fst (modbus_crc_unwrap u out) = 0"
    by (simp add: modbus_crc_unwrap_def unpack_None)
qed

lemma data_wrap_enc:
  assumes ok: "buf_ok b" and room: "1 + unat n \<le> unat (boffset b)" and len: "unat n \<le> length bs"
  shows "wraps b (modbus_data_wrap b n bs action)
     ((if action = MODBUS_ACTION_DEFAULT \<or> n > 2 then [n] else []) @ take (unat n) bs)"
proof -
  have n16: "unat (ucast n :: u16) = unat n"
    by (rule unat_ucast_u8)
  then have "(ucast n :: u16) \<le> boffset b" using room by (simp add: word_le_nat_alt)
  with ok obtain b1 p where p: "neu_protocol_pack_buf b (ucast n) = (Some p, b1)"
      "\<And>cs. length cs = unat n \<Longrightarrow> wraps b (Some (b1\<lparr>base := store_bytes p cs (base b1)\<rparr>)) cs"
    by (rule reserve_fill) (auto simp: n16)
  let ?b2 = "b1\<lparr>base := store_bytes p (take (unat n) bs) (base b1)\<rparr>"
  have w: "wraps b (Some ?b2) (take (unat n) bs)" using p(2) len by simp
  then have b2: "buf_ok ?b2" "bsize ?b2 = bsize b" "pending ?b2 = take (unat n) bs @ pending b"
    by (simp_all add: wraps_def)
  have "unat (boffset b) - unat n = unat (boffset ?b2)"
    using wraps_offset [OF ok w] len by simp
  then have "(1::u16) \<le> boffset ?b2" using room by (simp add: word_le_nat_alt)
  with b2(1) obtain b3 q where q: "neu_protocol_pack_buf ?b2 1 = (Some q, b3)"
      "\<And>cs. length cs = 1 \<Longrightarrow> wraps ?b2 (Some (b3\<lparr>base := store_bytes q cs (base b3)\<rparr>)) cs"
    by (rule reserve_fill) auto
  then have "wraps b (Some (b3\<lparr>base := store_bytes q [n] (base b3)\<rparr>)) (n # take (unat n) bs)"
    using q(2) [of "[n]"] b2 by (simp add: wraps_def)
  then show ?thesis
    using room p(1) q(1) w
    by (simp add: modbus_data_wrap_def neu_protocol_pack_buf_unused_size_def)
qed

lemma data_unwrap_enc:
  assumes ok: "buf_ok u" and pen: "pending u = n # p" and len: "unat n \<le> length p"
  shows "\<exists>u'. modbus_data_unwrap u out = (1, n, u') \<and> buf_ok u' \<and> pending u' = p \<and> bsize u' = bsize u"
proof -
  from ok pen obtain i u' where u': "neu_protocol_unpack_buf u 1 = (Some i, u')" "buf_ok u'"
      "pending u' = p" "bsize u' = bsize u" "load_bytes i 1 (base u') = [n]"
    using unpack_front [of u "[n]" p 1] by (metis One_nat_def append_Cons append_Nil length_Cons list.size(3) unat_1)
  have "unat (ucast n :: u16) = unat n" by (rule unat_ucast_u8)
  with len u' have "\<not> ucast n > neu_protocol_unpack_buf_unused_size u'"
    using unat_unused_size [OF u'(2)] by (simp add: word_less_nat_alt)
  with u' show ?thesis by (simp add: modbus_data_unwrap_def)
qed

lemma crc_set_spec:
  assumes ok: "buf_ok b" and pen: "pending b = bs @ [x, y]"
  shows "\<exists>b'. modbus_crc_set b = Some b' \<and> buf_ok b' \<and> bsize b' = bsize b \<and>
      pending b' = bs @ le_bytes 2 (calcrc bs)"
proof -
  let ?n = "neu_protocol_pack_buf_used_size b - 2"
  have "unat (neu_protocol_pack_buf_used_size b) = length bs + 2"
    using unat_used_size [OF ok] pen by simp
  moreover from this have "(2::u16) \<le> neu_protocol_pack_buf_used_size b" by (simp add: word_le_nat_alt)
  ultimately have n: "unat ?n = length bs" by (simp add: unat_sub)
  have sum: "unat (boffset b) + length bs + 2 = unat (bsize b)"
    using length_pending [OF ok] pen ok by (simp add: buf_ok_def word_le_nat_alt)
  then have "uint (boffset b) + uint ?n + 2 = uint (bsize b)"
    unfolding uint_nat n by linarith
  then have set: "neu_protocol_pack_buf_set b ?n 2 = Some (unat (boffset b) + length bs)"
    by (simp add: neu_protocol_pack_buf_set_def n)
  have crc: "calcrc (take (unat ?n) (drop (neu_protocol_pack_buf_get b) (base b))) = calcrc bs"
    using pen by (simp add: n neu_protocol_pack_buf_get_def pending_def)
  have "drop (unat (boffset b)) (base b) = bs @ [x, y]" using pen by (simp add: pending_def)
  then have split: "base b = take (unat (boffset b)) (base b) @ bs @ [x, y]"
    by (metis append_take_drop_id)
  let ?m = "store_bytes (unat (boffset b) + length bs) (le_bytes 2 (calcrc bs)) (base b)"
  have len: "length (take (unat (boffset b)) (base b)) = unat (boffset b)"
    using buf_ok_offset [OF ok] by simp
  have mem: "?m = take (unat (boffset b)) (base b) @ bs @ le_bytes 2 (calcrc bs)"
    by (subst split) (simp add: store_bytes_def buf_ok_offset [OF ok])
  then have "pending (b\<lparr>base := ?m\<rparr>) = bs @ le_bytes 2 (calcrc bs)"
    using len by (simp add: pending_def)
  moreover have "length ?m = length (base b)"
    using sum ok by (simp add: buf_ok_def)
  ultimately show ?thesis
    using ok unfolding modbus_crc_set_def crc Let_def set by (simp add: buf_ok_def)
qed

section \<open>Instances\<close>

theorem calcrc_detects_byte_witness: "calcrc ([1] @ 3 # [0]) \<noteq> calcrc ([1] @ 4 # [0])"
  using calcrc_detects_byte [of 3 4 "[1]" "[0]"] by simp

end
