(* ===== verification/Datatag.thy ===== *)
theory Datatag
  imports Neuron_Types
begin

unbundle bit_operations_syntax

text \<open>
  Tags, \<^verbatim>\<open>include/neuron/tag.h\<close> and \<^verbatim>\<open>src/base/tag.c\<close>: the tag record, copying, the display
  format of a tag and its parser, the options at the end of a tag address, the UTF-8 check
  and the byte swap of strings. The union of address options is the twelve bytes of its
  storage, because \<^verbatim>\<open>neu_datatag_parse_addr_option\<close> reads a member it has not written.
\<close>

section \<open>Tags\<close>

definition NEU_TAG_META_LENGTH :: nat where "NEU_TAG_META_LENGTH = 20"
definition NEU_TAG_FORMAT_LENGTH :: nat where "NEU_TAG_FORMAT_LENGTH = 16"

definition NEU_ATTRIBUTE_READ :: u32 where "NEU_ATTRIBUTE_READ = 1"
definition NEU_ATTRIBUTE_WRITE :: u32 where "NEU_ATTRIBUTE_WRITE = 2"
definition NEU_ATTRIBUTE_SUBSCRIBE :: u32 where "NEU_ATTRIBUTE_SUBSCRIBE = 4"

datatype neu_datatag_endian_e =
    NEU_DATATAG_ENDIAN_L16 | NEU_DATATAG_ENDIAN_B16
  | NEU_DATATAG_ENDIAN_LL32 | NEU_DATATAG_ENDIAN_LB32
  | NEU_DATATAG_ENDIAN_BB32 | NEU_DATATAG_ENDIAN_BL32
  | NEU_DATATAG_ENDIAN_L64 | NEU_DATATAG_ENDIAN_B64
  | NEU_DATATAG_ENDIAN_LL64 | NEU_DATATAG_ENDIAN_LB64
  | NEU_DATATAG_ENDIAN_BB64 | NEU_DATATAG_ENDIAN_BL64
  | NEU_DATATAG_ENDIAN_WS64 | NEU_DATATAG_ENDIAN_WR64

fun endian_code :: "neu_datatag_endian_e \<Rightarrow> u32" where
  "endian_code NEU_DATATAG_ENDIAN_L16 = 0"
| "endian_code NEU_DATATAG_ENDIAN_B16 = 1"
| "endian_code NEU_DATATAG_ENDIAN_LL32 = 2"
| "endian_code NEU_DATATAG_ENDIAN_LB32 = 3"
| "endian_code NEU_DATATAG_ENDIAN_BB32 = 4"
| "endian_code NEU_DATATAG_ENDIAN_BL32 = 5"
| "endian_code NEU_DATATAG_ENDIAN_L64 = 6"
| "endian_code NEU_DATATAG_ENDIAN_B64 = 7"
| "endian_code NEU_DATATAG_ENDIAN_LL64 = 8"
| "endian_code NEU_DATATAG_ENDIAN_LB64 = 9"
| "endian_code NEU_DATATAG_ENDIAN_BB64 = 10"
| "endian_code NEU_DATATAG_ENDIAN_BL64 = 11"
| "endian_code NEU_DATATAG_ENDIAN_WS64 = 12"
| "endian_code NEU_DATATAG_ENDIAN_WR64 = 13"

datatype neu_datatag_string_type_e =
    NEU_DATATAG_STRING_TYPE_H | NEU_DATATAG_STRING_TYPE_L
  | NEU_DATATAG_STRING_TYPE_D | NEU_DATATAG_STRING_TYPE_E

fun string_type_code :: "neu_datatag_string_type_e \<Rightarrow> u32" where
  "string_type_code NEU_DATATAG_STRING_TYPE_H = 0"
| "string_type_code NEU_DATATAG_STRING_TYPE_L = 1"
| "string_type_code NEU_DATATAG_STRING_TYPE_D = 2"
| "string_type_code NEU_DATATAG_STRING_TYPE_E = 3"

text \<open>
  \<^verbatim>\<open>neu_datatag_addr_option_u\<close>: \<^verbatim>\<open>endian\<close> of the numeric members is the int at offset 0 and
  \<^verbatim>\<open>is_default\<close> of \<^verbatim>\<open>value32\<close> and \<^verbatim>\<open>value64\<close> the byte at 4; \<^verbatim>\<open>string\<close> has a 16-bit length at
  0, its type at 4 and \<^verbatim>\<open>is_default\<close> at 8; \<^verbatim>\<open>bytes.length\<close> is the byte at 0; \<^verbatim>\<open>bit\<close> has \<^verbatim>\<open>op\<close>
  at 0 and \<^verbatim>\<open>bit\<close> at 1.
\<close>

type_synonym addr_option = bytes

definition sizeof_option :: nat where "sizeof_option = 12"

definition zero_option :: addr_option where
  "zero_option = replicate sizeof_option 0"

definition bool_byte :: "bool \<Rightarrow> u8" where
  "bool_byte b = (if b then 1 else 0)"

definition opt_endian :: "addr_option \<Rightarrow> u32" where
  "opt_endian opt = le_word (load_bytes 0 4 opt)"

definition opt_set_endian :: "neu_datatag_endian_e \<Rightarrow> addr_option \<Rightarrow> addr_option" where
  "opt_set_endian e opt = store_bytes 0 (le_bytes 4 (endian_code e)) opt"

definition opt_value_is_default :: "addr_option \<Rightarrow> bool" where
  "opt_value_is_default opt \<longleftrightarrow> load_bytes 4 1 opt \<noteq> [0]"

definition opt_set_value_is_default :: "bool \<Rightarrow> addr_option \<Rightarrow> addr_option" where
  "opt_set_value_is_default b opt = store_bytes 4 [bool_byte b] opt"

definition opt_string_length :: "addr_option \<Rightarrow> u16" where
  "opt_string_length opt = le_word (load_bytes 0 2 opt)"

definition opt_set_string_length :: "u16 \<Rightarrow> addr_option \<Rightarrow> addr_option" where
  "opt_set_string_length n opt = store_bytes 0 (le_bytes 2 n) opt"

definition opt_string_type :: "addr_option \<Rightarrow> u32" where
  "opt_string_type opt = le_word (load_bytes 4 4 opt)"

definition opt_set_string_type ::
    "neu_datatag_string_type_e \<Rightarrow> bool \<Rightarrow> addr_option \<Rightarrow> addr_option" where
  "opt_set_string_type t d opt =
     store_bytes 8 [bool_byte d] (store_bytes 4 (le_bytes 4 (string_type_code t)) opt)"

definition opt_bytes_length :: "addr_option \<Rightarrow> u8" where
  "opt_bytes_length opt = le_word (load_bytes 0 1 opt)"

definition opt_set_bytes_length :: "u8 \<Rightarrow> addr_option \<Rightarrow> addr_option" where
  "opt_set_bytes_length n opt = store_bytes 0 [n] opt"

definition opt_bit_op :: "addr_option \<Rightarrow> bool" where
  "opt_bit_op opt \<longleftrightarrow> load_bytes 0 1 opt \<noteq> [0]"

definition opt_set_bit_op :: "bool \<Rightarrow> addr_option \<Rightarrow> addr_option" where
  "opt_set_bit_op b opt = store_bytes 0 [bool_byte b] opt"

definition opt_bit :: "addr_option \<Rightarrow> u8" where
  "opt_bit opt = le_word (load_bytes 1 1 opt)"

definition opt_set_bit :: "u8 \<Rightarrow> addr_option \<Rightarrow> addr_option" where
  "opt_set_bit n opt = store_bytes 1 [n] opt"

text \<open>
  A tag. \<open>dt_decimal\<close> and \<open>dt_bias\<close> are the bit patterns of the doubles, which the modelled code
  only copies and compares to zero. Name and address are never null in a tag; the
  description and the unit may be.
\<close>

record neu_datatag =
  dt_name :: string
  dt_address :: string
  dt_attribute :: u32
  dt_type :: neu_type_e
  dt_precision :: u8
  dt_decimal :: u64
  dt_bias :: u64
  dt_description :: "string option"
  dt_unit :: "string option"
  dt_option :: addr_option
  dt_meta :: bytes
  dt_format :: bytes
  dt_n_format :: u8

definition neu_tag_attribute_test :: "neu_datatag \<Rightarrow> u32 \<Rightarrow> bool" where
  "neu_tag_attribute_test tag attribute \<longleftrightarrow> dt_attribute tag AND attribute = attribute"

definition strdup_or_empty :: "string option \<Rightarrow> string option" where
  "strdup_or_empty s = Some (case s of None \<Rightarrow> '''' | Some s \<Rightarrow> s)"

definition tag_array_copy :: "neu_datatag \<Rightarrow> neu_datatag \<Rightarrow> neu_datatag" where
  "tag_array_copy dst src =
     dst\<lparr>dt_type := dt_type src, dt_attribute := dt_attribute src,
         dt_precision := dt_precision src, dt_decimal := dt_decimal src, dt_bias := dt_bias src,
         dt_option := dt_option src, dt_address := dt_address src, dt_name := dt_name src,
         dt_description := strdup_or_empty (dt_description src),
         dt_unit := strdup_or_empty (dt_unit src),
         dt_format := dt_format src, dt_n_format := dt_n_format src, dt_meta := dt_meta src\<rparr>"

definition zero_tag :: neu_datatag where
  "zero_tag =
     \<lparr>dt_name = '''', dt_address = '''', dt_attribute = 0, dt_type = NEU_TYPE_INT8,
      dt_precision = 0, dt_decimal = 0, dt_bias = 0, dt_description = None, dt_unit = None,
      dt_option = zero_option, dt_meta = replicate NEU_TAG_META_LENGTH 0,
      dt_format = replicate NEU_TAG_FORMAT_LENGTH 0, dt_n_format = 0\<rparr>"

definition neu_tag_dup :: "bool \<Rightarrow> neu_datatag \<Rightarrow> neu_datatag option" where
  "neu_tag_dup alloc_ok tag = (if \<not> alloc_ok then None else Some (tag_array_copy zero_tag tag))"

definition neu_tag_copy :: "neu_datatag option \<Rightarrow> neu_datatag \<Rightarrow> neu_datatag option" where
  "neu_tag_copy tag other = (case tag of None \<Rightarrow> None | Some t \<Rightarrow> Some (tag_array_copy t other))"

section \<open>Display formats\<close>

text \<open>
  \<^verbatim>\<open>snprintf\<close> into the rest of a buffer of \<open>len\<close> bytes that already has \<open>offset\<close> characters:
  at most \<open>len - offset - 1\<close> are kept, and the return value is the length the text would
  have. A negative rest is a huge \<^verbatim>\<open>size_t\<close>, so the write leaves the buffer: \<open>None\<close>.
\<close>

definition snprintf_at :: "string \<Rightarrow> int \<Rightarrow> int \<Rightarrow> string \<Rightarrow> string option" where
  "snprintf_at buf offset len s =
     (if len - offset < 0 then None
      else if len - offset = 0 then Some buf
      else Some (take (nat offset) buf @ take (nat (len - offset - 1)) s))"

fun format_loop :: "bytes \<Rightarrow> bool \<Rightarrow> int \<Rightarrow> int \<Rightarrow> string \<Rightarrow> string option" where
  "format_loop [] first offset len buf = Some buf"
| "format_loop (f # fs) first offset len buf =
     (let s = (if first then show_nat (unat f) else CHR '','' # show_nat (unat f)) in
      case snprintf_at buf offset len s of
        None \<Rightarrow> None
      | Some buf \<Rightarrow> format_loop fs False (offset + int (length s)) len buf)"

text \<open>\<open>n_format\<close> past the array is an out-of-bounds read.\<close>

definition neu_tag_format_str :: "neu_datatag \<Rightarrow> string \<Rightarrow> int \<Rightarrow> string option" where
  "neu_tag_format_str tag buf len =
     (if unat (dt_n_format tag) > length (dt_format tag) then None
      else format_loop (take (unat (dt_n_format tag)) (dt_format tag)) True 0 len buf)"

text \<open>
  \<^verbatim>\<open>sscanf\<close> with \<open>n\<close> comma-separated \<^verbatim>\<open>%hhu\<close> conversions: the values assigned before the
  first failure.
\<close>

fun scan_formats :: "nat \<Rightarrow> string \<Rightarrow> bytes" where
  "scan_formats 0 s = []"
| "scan_formats (Suc n) s =
     (case scan_u s of
        None \<Rightarrow> []
      | Some (v, rest) \<Rightarrow>
          (case rest of
             [] \<Rightarrow> [v]
           | c # cs \<Rightarrow> if c = CHR '','' then v # scan_formats n cs else [v]))"

text \<open>The return value is \<^verbatim>\<open>EOF\<close> when the input ends before the first conversion.\<close>

definition neu_format_from_str :: "string option \<Rightarrow> bytes \<Rightarrow> int \<times> bytes" where
  "neu_format_from_str format_str formats =
     (case format_str of
        None \<Rightarrow> (0, formats)
      | Some s \<Rightarrow>
          if length s = 0 then (0, formats)
          else let vs = scan_formats 16 s
               in (if dropWhile is_space s = [] then -1 else int (length vs),
                   store_bytes 0 vs formats))"

section \<open>Address options\<close>

lemma strchr_length: "strchr s c = Some t \<Longrightarrow> length t \<le> length s \<and> t \<noteq> []"
  by (induction s) (auto split: if_splits)

function find_last_loop :: "string option \<Rightarrow> string option \<Rightarrow> char \<Rightarrow> string option" where
  "find_last_loop ret None c = ret"
| "find_last_loop ret (Some f) c = find_last_loop (Some f) (strchr (tl f) c) c"
  by pat_completeness auto

termination
proof (relation "measure (\<lambda>(ret, find, c). case find of None \<Rightarrow> 0 | Some f \<Rightarrow> Suc (length f))")
  show "((Some f, strchr (tl f) c, c), ret, Some f, c)
      \<in> measure (\<lambda>(ret, find, c). case find of None \<Rightarrow> 0 | Some f \<Rightarrow> Suc (length f))" for f ret and c
  proof (cases "strchr (tl f) c")
    case (Some t)
    then have "length t \<le> length f - 1" "t \<noteq> []" using strchr_length [of "tl f" c t] by auto
    then show ?thesis using Some by (cases f) auto
  qed simp
qed simp

definition find_last_character :: "string \<Rightarrow> char \<Rightarrow> string option" where
  "find_last_character str character =
     (let find = strchr str character in find_last_loop find find character)"

text \<open>The options of \<^verbatim>\<open>BYTES\<close> and \<^verbatim>\<open>STRING\<close>; \<open>op\<close> starts with the dot that was found.\<close>

definition parse_bytes_option :: "string \<Rightarrow> addr_option \<Rightarrow> int \<times> addr_option" where
  "parse_bytes_option address opt =
     (case find_last_character address CHR ''.'' of
        None \<Rightarrow> (-1, opt)
      | Some op \<Rightarrow>
          let (n, opt) = (case scan_d (tl op) of
                            None \<Rightarrow> (0, opt)
                          | Some (v, rest) \<Rightarrow> (1, opt_set_bytes_length v opt))
          in (if n \<noteq> (1::int) \<or> opt_string_length opt \<le> 0 then -1 else 0, opt))"

definition string_type_of :: "char \<Rightarrow> neu_datatag_string_type_e \<times> bool" where
  "string_type_of t =
     (if t = CHR ''H'' then (NEU_DATATAG_STRING_TYPE_H, False)
      else if t = CHR ''L'' then (NEU_DATATAG_STRING_TYPE_L, False)
      else if t = CHR ''D'' then (NEU_DATATAG_STRING_TYPE_D, False)
      else if t = CHR ''E'' then (NEU_DATATAG_STRING_TYPE_E, False)
      else (NEU_DATATAG_STRING_TYPE_H, True))"

definition parse_string_option :: "string \<Rightarrow> addr_option \<Rightarrow> int \<times> addr_option" where
  "parse_string_option address opt =
     (case find_last_character address CHR ''.'' of
        None \<Rightarrow> (-1, opt)
      | Some op \<Rightarrow>
          let (n, opt, t) = (case scan_d (tl op) of
                               None \<Rightarrow> (0, opt, CHR 0x00)
                             | Some (v, []) \<Rightarrow> (1, opt_set_string_length v opt, CHR 0x00)
                             | Some (v, c # _) \<Rightarrow> (2, opt_set_string_length v opt, c));
              opt = opt_set_string_type (fst (string_type_of t)) (snd (string_type_of t)) opt
          in (if n < (1::int) \<or> opt_string_length opt \<le> 0 then -1 else 0, opt))"

definition parse_value16_option :: "string \<Rightarrow> addr_option \<Rightarrow> addr_option" where
  "parse_value16_option address opt =
     (let opt = opt_set_endian NEU_DATATAG_ENDIAN_L16 opt in
      case find_last_character address CHR ''#'' of
        None \<Rightarrow> opt
      | Some op \<Rightarrow>
          let e = (case tl op of [] \<Rightarrow> CHR 0x00 | c # _ \<Rightarrow> c)
          in if e = CHR ''B'' then opt_set_endian NEU_DATATAG_ENDIAN_B16 opt
             else if e = CHR ''L'' then opt_set_endian NEU_DATATAG_ENDIAN_L16 opt
             else opt_set_endian NEU_DATATAG_ENDIAN_L16 opt)"

definition opt_set_value :: "neu_datatag_endian_e \<Rightarrow> bool \<Rightarrow> addr_option \<Rightarrow> addr_option" where
  "opt_set_value e d opt = opt_set_value_is_default d (opt_set_endian e opt)"

definition parse_value32_option :: "string \<Rightarrow> addr_option \<Rightarrow> addr_option" where
  "parse_value32_option address opt =
     (let opt = opt_set_value NEU_DATATAG_ENDIAN_LL32 True opt in
      case find_last_character address CHR ''#'' of
        None \<Rightarrow> opt
      | Some op \<Rightarrow>
          (case tl op of
             e1 # e2 # _ \<Rightarrow>
               if e1 = CHR ''B'' \<and> e2 = CHR ''B'' then opt_set_value NEU_DATATAG_ENDIAN_BB32 False opt
               else if e1 = CHR ''B'' \<and> e2 = CHR ''L'' then opt_set_value NEU_DATATAG_ENDIAN_BL32 False opt
               else if e1 = CHR ''L'' \<and> e2 = CHR ''L'' then opt_set_value NEU_DATATAG_ENDIAN_LL32 False opt
               else if e1 = CHR ''L'' \<and> e2 = CHR ''B'' then opt_set_value NEU_DATATAG_ENDIAN_LB32 False opt
               else opt
           | _ \<Rightarrow> opt))"

definition parse_value64_option :: "string \<Rightarrow> addr_option \<Rightarrow> addr_option" where
  "parse_value64_option address opt =
     (let opt = opt_set_value NEU_DATATAG_ENDIAN_L64 True opt in
      case find_last_character address CHR ''#'' of
        None \<Rightarrow> opt
      | Some op \<Rightarrow>
          (case tl op of
             e1 # e2 # _ \<Rightarrow>
               if e1 = CHR ''B'' \<and> e2 = CHR ''B'' then opt_set_value NEU_DATATAG_ENDIAN_BB64 False opt
               else if e1 = CHR ''B'' \<and> e2 = CHR ''L'' then opt_set_value NEU_DATATAG_ENDIAN_BL64 False opt
               else if e1 = CHR ''L'' \<and> e2 = CHR ''L'' then opt_set_value NEU_DATATAG_ENDIAN_LL64 False opt
               else if e1 = CHR ''L'' \<and> e2 = CHR ''B'' then opt_set_value NEU_DATATAG_ENDIAN_LB64 False opt
               else if e1 = CHR ''W'' \<and> e2 = CHR ''S'' then opt_set_value NEU_DATATAG_ENDIAN_WS64 False opt
               else if e1 = CHR ''W'' \<and> e2 = CHR ''R'' then opt_set_value NEU_DATATAG_ENDIAN_WR64 False opt
               else opt
           | [e1] \<Rightarrow>
               if e1 = CHR ''B'' then opt_set_value NEU_DATATAG_ENDIAN_B64 False opt
               else if e1 = CHR ''L'' then opt_set_value NEU_DATATAG_ENDIAN_L64 False opt
               else opt
           | [] \<Rightarrow> opt))"

definition parse_bit_option :: "string \<Rightarrow> addr_option \<Rightarrow> addr_option" where
  "parse_bit_option address opt =
     (case find_last_character address CHR ''.'' of
        None \<Rightarrow> opt_set_bit_op False opt
      | Some op \<Rightarrow>
          opt_set_bit_op True
            (case scan_d (tl op) of None \<Rightarrow> opt | Some (v, rest) \<Rightarrow> opt_set_bit v opt))"

definition neu_datatag_parse_addr_option :: "neu_datatag \<Rightarrow> addr_option \<Rightarrow> int \<times> addr_option" where
  "neu_datatag_parse_addr_option datatag opt =
     (let address = dt_address datatag; t = dt_type datatag in
      if t = NEU_TYPE_BYTES then parse_bytes_option address opt
      else if t = NEU_TYPE_STRING then parse_string_option address opt
      else if t \<in> {NEU_TYPE_INT16, NEU_TYPE_UINT16} then (0, parse_value16_option address opt)
      else if t \<in> {NEU_TYPE_FLOAT, NEU_TYPE_INT32, NEU_TYPE_UINT32, NEU_TYPE_DATA_AND_TIME,
                   NEU_TYPE_TIME}
        then (0, parse_value32_option address opt)
      else if t \<in> {NEU_TYPE_DOUBLE, NEU_TYPE_INT64, NEU_TYPE_UINT64}
        then (0, parse_value64_option address opt)
      else if t \<in> {NEU_TYPE_BOOL, NEU_TYPE_BIT} then (0, parse_bit_option address opt)
      else (0, opt))"

section \<open>Strings\<close>

text \<open>The loop counter \<open>i\<close> of \<^verbatim>\<open>pre_num\<close> counts up to 8, the mask shifts right as long as bits match.\<close>

fun pre_num_loop :: "nat \<Rightarrow> u8 \<Rightarrow> u8 \<Rightarrow> nat \<Rightarrow> nat" where
  "pre_num_loop 0 byte msk num = num"
| "pre_num_loop (Suc k) byte msk num =
     (if byte AND msk = msk then pre_num_loop k byte (drop_bit 1 msk) (num + 1) else num)"

definition pre_num :: "u8 \<Rightarrow> nat" where
  "pre_num byte = pre_num_loop 8 byte 0x80 0"

text \<open>The \<open>n\<close> continuation bytes from index \<open>i\<close>; a read outside the memory is \<open>None\<close>.\<close>

fun continuation_loop :: "bytes \<Rightarrow> nat \<Rightarrow> nat \<Rightarrow> bool option" where
  "continuation_loop data 0 i = Some True"
| "continuation_loop data (Suc n) i =
     (if i \<ge> length data then None
      else if data ! i AND 0xc0 \<noteq> 0x80 then Some False
      else continuation_loop data n (i + 1))"

function utf8_loop :: "bytes \<Rightarrow> nat \<Rightarrow> nat \<Rightarrow> bool option" where
  "utf8_loop data len i =
     (if \<not> i < len then Some True
      else if i \<ge> length data then None
      else if data ! i AND 0x80 = 0x00 then utf8_loop data len (i + 1)
      else let num = pre_num (data ! i) in
           if num > 1
           then (case continuation_loop data (num - 1) (i + 1) of
                   Some True \<Rightarrow> utf8_loop data len (i + 1 + (num - 1))
                 | r \<Rightarrow> r)
           else Some False)"
  by pat_completeness auto

termination
  by (relation "measure (\<lambda>(data, len, i). len - i)") auto

declare utf8_loop.simps [simp del]

definition neu_datatag_string_is_utf8 :: "bytes \<Rightarrow> int \<Rightarrow> bool option" where
  "neu_datatag_string_is_utf8 data len = utf8_loop data (nat len) 0"

function htol_loop :: "bytes \<Rightarrow> nat \<Rightarrow> nat \<Rightarrow> bytes option" where
  "htol_loop str len i =
     (if \<not> i < len then Some str
      else if i + 1 \<ge> length str then None
      else htol_loop (str[i := str ! (i + 1), i + 1 := str ! i]) len (i + 2))"
  by pat_completeness auto

termination
  by (relation "measure (\<lambda>(str, len, i). len - i)") auto

declare htol_loop.simps [simp del]

definition neu_datatag_string_htol :: "bytes \<Rightarrow> int \<Rightarrow> bytes option" where
  "neu_datatag_string_htol str len = htol_loop str (nat len) 0"

definition neu_datatag_string_ltoh :: "bytes \<Rightarrow> int \<Rightarrow> bytes option" where
  "neu_datatag_string_ltoh str len = neu_datatag_string_htol str len"

section \<open>The last occurrence of a character\<close>

lemma strchr_None [simp]: "c \<notin> set s \<Longrightarrow> strchr s c = None"
  by (induction s) auto

lemma strchr_first: "c \<notin> set p \<Longrightarrow> strchr (p @ c # r) c = Some (c # r)"
  by (induction p) auto

lemma find_last_loop_spec:
  "c \<notin> set r \<Longrightarrow> find_last_loop ret (strchr (p @ c # r) c) c = Some (c # r)"
proof (induction "length p" arbitrary: p ret rule: less_induct)
  case less
  show ?case
  proof (cases "c \<in> set p")
    case False
    then show ?thesis using less.prems by (simp add: strchr_first)
  next
    case True
    then obtain q p' where p: "p = q @ c # p'" "c \<notin> set q" by (meson split_list_first)
    then have "strchr (p @ c # r) c = Some (c # p' @ c # r)" by (simp add: strchr_first)
    then show ?thesis using less.hyps [of p' "Some (c # p' @ c # r)"] less.prems p by simp
  qed
qed

lemma find_last_character_Some:
  "c \<notin> set r \<Longrightarrow> find_last_character (p @ c # r) c = Some (c # r)"
  by (simp add: find_last_character_def find_last_loop_spec)

lemma find_last_character_None: "c \<notin> set s \<Longrightarrow> find_last_character s c = None"
  by (simp add: find_last_character_def)

lemma find_last_characterE:
  assumes "find_last_character s c = Some op"
  obtains p r where "s = p @ c # r" "op = c # r" "c \<notin> set r"
proof -
  have "c \<in> set s" using assms find_last_character_None [of c s] by fastforce
  then obtain p r where s: "s = p @ c # r" "c \<notin> set r" by (meson split_list_last)
  with assms find_last_character_Some [of c r p] have "op = c # r" by simp
  with s that show thesis by blast
qed

section \<open>Reading options back\<close>

lemma length_opt_set [simp]:
  assumes "length opt = sizeof_option"
  shows "length (opt_set_endian e opt) = sizeof_option"
    "length (opt_set_value_is_default b opt) = sizeof_option"
    "length (opt_set_value e b opt) = sizeof_option"
    "length (opt_set_string_length n opt) = sizeof_option"
    "length (opt_set_string_type t b opt) = sizeof_option"
    "length (opt_set_bytes_length m opt) = sizeof_option"
    "length (opt_set_bit_op b opt) = sizeof_option"
    "length (opt_set_bit m opt) = sizeof_option"
  using assms by (simp_all add: opt_set_endian_def opt_set_value_is_default_def opt_set_value_def
      opt_set_string_length_def opt_set_string_type_def opt_set_bytes_length_def opt_set_bit_op_def
      opt_set_bit_def sizeof_option_def)

lemma opt_get_set [byte_simps]:
  assumes "length opt = sizeof_option"
  shows "opt_endian (opt_set_endian e opt) = endian_code e"
    "opt_endian (opt_set_value e b opt) = endian_code e"
    "opt_value_is_default (opt_set_value e b opt) = b"
    "opt_string_length (opt_set_string_length n opt) = n"
    "opt_string_length (opt_set_string_type t b opt) = opt_string_length opt"
    "opt_string_type (opt_set_string_type t b opt) = string_type_code t"
    "opt_bytes_length (opt_set_bytes_length m opt) = m"
    "opt_bit_op (opt_set_bit_op b opt) = b"
    "opt_bit (opt_set_bit m opt) = m"
    "opt_bit (opt_set_bit_op b opt) = opt_bit opt"
  using assms
  by (simp_all add: opt_endian_def opt_set_endian_def opt_set_value_def opt_value_is_default_def
      opt_set_value_is_default_def opt_string_length_def opt_set_string_length_def
      opt_set_string_type_def opt_string_type_def opt_bytes_length_def opt_set_bytes_length_def
      opt_bit_op_def opt_set_bit_op_def opt_bit_def opt_set_bit_def bool_byte_def
      byte_simps sizeof_option_def)

lemma length_parse_bytes_option [simp]:
  "length opt = sizeof_option \<Longrightarrow> length (snd (parse_bytes_option a opt)) = sizeof_option"
  by (simp add: parse_bytes_option_def split: option.split prod.split)

lemma length_parse_string_option [simp]:
  "length opt = sizeof_option \<Longrightarrow> length (snd (parse_string_option a opt)) = sizeof_option"
  by (simp add: parse_string_option_def Let_def split: option.split prod.split list.split)

lemma length_parse_value_option [simp]:
  assumes "length opt = sizeof_option"
  shows "length (parse_value16_option a opt) = sizeof_option"
    "length (parse_value32_option a opt) = sizeof_option"
    "length (parse_value64_option a opt) = sizeof_option"
    "length (parse_bit_option a opt) = sizeof_option"
  using assms by (simp_all add: parse_value16_option_def parse_value32_option_def
      parse_value64_option_def parse_bit_option_def Let_def split: option.split list.split)

lemma length_parse_addr_option:
  "length opt = sizeof_option \<Longrightarrow> length (snd (neu_datatag_parse_addr_option tag opt)) = sizeof_option"
  by (simp add: neu_datatag_parse_addr_option_def Let_def)

section \<open>Formats are read back as printed\<close>

text \<open>The text of the formats after the first.\<close>

definition formats_tail :: "bytes \<Rightarrow> string" where
  "formats_tail fs = concat (map (\<lambda>f. CHR '','' # show_nat (unat f)) fs)"

lemma length_show_byte: "length (show_nat (unat (f::u8))) \<le> 3"
proof -
  have "unat f < 2 ^ LENGTH(8)" by (rule unsigned_less)
  then show ?thesis by (intro length_show_nat_byte) simp
qed

lemma length_formats_tail: "length (formats_tail fs) \<le> 4 * length fs"
  by (induction fs) (use length_show_byte in \<open>auto simp: formats_tail_def add_mono intro: order_trans\<close>)

lemma snprintf_fits:
  "int (length buf) + int (length s) < len \<Longrightarrow> snprintf_at buf (int (length buf)) len s = Some (buf @ s)"
  by (simp add: snprintf_at_def)

lemma format_loop_tail:
  "int (length buf) + int (length (formats_tail fs)) < len \<Longrightarrow>
     format_loop fs False (int (length buf)) len buf = Some (buf @ formats_tail fs)"
proof (induction fs arbitrary: buf)
  case (Cons f fs)
  let ?s = "CHR '','' # show_nat (unat f)"
  have "formats_tail (f # fs) = ?s @ formats_tail fs" by (simp add: formats_tail_def)
  with Cons.prems have "snprintf_at buf (int (length buf)) len ?s = Some (buf @ ?s)"
    and "int (length (buf @ ?s)) + int (length (formats_tail fs)) < len"
    by (simp_all add: snprintf_fits)
  with Cons.IH [of "buf @ ?s"] show ?case
    by (simp add: formats_tail_def algebra_simps)
qed (simp add: formats_tail_def)

lemma format_str_text:
  assumes "dt_format tag = f # fs @ gs" and "unat (dt_n_format tag) = Suc (length fs)"
    and "4 * (length fs + 1) \<le> len"
  shows "neu_tag_format_str tag buf (int len) = Some (show_nat (unat f) @ formats_tail fs)"
proof -
  let ?s = "show_nat (unat f)"
  have len: "int (length ?s) + int (length (formats_tail fs)) < int len"
    using length_show_byte [of f] length_formats_tail [of fs] assms(3) by simp
  then have "snprintf_at buf 0 (int len) ?s = Some ?s"
    by (simp add: snprintf_at_def)
  with format_loop_tail [OF len] show ?thesis
    using assms(1,2) by (simp add: neu_tag_format_str_def)
qed

lemma no_digit_tail: "no_digit (formats_tail fs)"
  by (cases fs) (simp_all add: no_digit_def formats_tail_def is_digit_def)

lemma scan_formats_text:
  "length fs < n \<Longrightarrow> scan_formats n (show_nat (unat f) @ formats_tail fs) = f # fs"
proof (induction fs arbitrary: n f)
  case Nil
  then obtain m where "n = Suc m" by (cases n) auto
  moreover have "unat f < 2 ^ 64" using unsigned_less [of f, where 'a = nat] by simp
  moreover have "scan_u (show_nat (unat f)) = Some (f, [])"
    using scan_u_show [of "[]" "unat f", where 'a = 8] calculation by (simp add: no_digit_def)
  ultimately show ?case by (simp add: formats_tail_def)
next
  case (Cons g fs)
  then obtain m where n: "n = Suc m" by (cases n) auto
  have "unat f < 2 ^ 64" using unsigned_less [of f, where 'a = nat] by simp
  then have "scan_u (show_nat (unat f) @ formats_tail (g # fs)) = Some (f, formats_tail (g # fs))"
    using scan_u_show [OF no_digit_tail, where 'a = 8] by simp
  with Cons n show ?case by (simp add: formats_tail_def)
qed

lemma text_not_blank: "dropWhile is_space (show_nat n @ s) \<noteq> []"
proof -
  obtain d ds where "show_nat n = char_of (48 + d) # ds" "d < (10::nat)" using show_nat_Cons by blast
  then show ?thesis using char_digit_distinct [of d] by simp
qed

text \<open>
  C27: Printing the display formats of a tag and parsing the text gives back the count and
  the formats, for one to sixteen formats and a buffer of at least 64 bytes; bytes of the
  destination past them are untouched.
\<close>

theorem tag_format_roundtrip:
  assumes "dt_format tag = f # fs @ gs" and "unat (dt_n_format tag) = Suc (length fs)"
    and "length fs < 16" and "64 \<le> len"
  shows "\<exists>s. neu_tag_format_str tag buf (int len) = Some s \<and>
      neu_format_from_str (Some s) old = (int (length fs + 1), store_bytes 0 (f # fs) old)"
proof -
  have "show_nat (unat f) \<noteq> []" using show_nat_Cons [of "unat f"] by auto
  moreover have "4 * (length fs + 1) \<le> len" using assms(3,4) by simp
  ultimately show ?thesis
    using format_str_text [OF assms(1,2)] scan_formats_text [OF assms(3), of f]
      text_not_blank [of "unat f" "formats_tail fs"]
    by (simp add: neu_format_from_str_def del: dropWhile_eq_Nil_conv)
qed

section \<open>What the UTF-8 check accepts\<close>

text \<open>
  The texts the loop means to accept: ASCII bytes, and lead bytes with \<open>n\<close> leading ones,
  \<open>n > 1\<close>, followed by \<open>n - 1\<close> bytes that start with the bits \<open>10\<close>.
\<close>

inductive utf8_text :: "bytes \<Rightarrow> bool" where
  "utf8_text []"
| "b AND 0x80 = 0 \<Longrightarrow> utf8_text bs \<Longrightarrow> utf8_text (b # bs)"
| "b AND 0x80 \<noteq> 0 \<Longrightarrow> pre_num b = Suc (length cs) \<Longrightarrow> cs \<noteq> [] \<Longrightarrow>
     \<forall>c \<in> set cs. c AND 0xc0 = 0x80 \<Longrightarrow> utf8_text bs \<Longrightarrow> utf8_text (b # cs @ bs)"

lemma continuation_True: "continuation_loop data n i = Some True \<longleftrightarrow>
    (n = 0 \<or> i + n \<le> length data) \<and> (\<forall>c \<in> set (take n (drop i data)). c AND 0xc0 = 0x80)"
proof (induction n arbitrary: i)
  case (Suc n)
  show ?case
  proof (cases "i < length data")
    case True
    then have "take (Suc n) (drop i data) = data ! i # take n (drop (Suc i) data)"
      by (simp add: Cons_nth_drop_Suc [symmetric])
    with True Suc show ?thesis by auto
  qed auto
qed simp

lemma utf8_loop_step:
  assumes "i < len" and "i < length data"
  shows "utf8_loop data len i = Some True \<longleftrightarrow>
     (if data ! i AND 0x80 = 0 then utf8_loop data len (i + 1) = Some True
      else 1 < pre_num (data ! i) \<and>
        continuation_loop data (pre_num (data ! i) - 1) (i + 1) = Some True \<and>
        utf8_loop data len (i + 1 + (pre_num (data ! i) - 1)) = Some True)"
  using assms by (subst utf8_loop.simps) (auto simp: Let_def split: option.splits bool.splits)

lemma utf8_loop_end: "len \<le> i \<Longrightarrow> utf8_loop data len i = Some True"
  by (subst utf8_loop.simps) simp

lemma utf8_loop_sound:
  "utf8_loop data (length data) i = Some True \<Longrightarrow> i \<le> length data \<Longrightarrow> utf8_text (drop i data)"
proof (induction "length data - i" arbitrary: i rule: less_induct)
  case less
  let ?b = "data ! i" let ?n = "pre_num ?b - 1"
  consider "i = length data" | "i < length data" "?b AND 0x80 = 0" | "i < length data" "?b AND 0x80 \<noteq> 0"
    using less.prems(2) by fastforce
  then show ?case
  proof cases
    case 1
    then show ?thesis by (simp add: utf8_text.intros)
  next
    case 2
    with less.prems less.hyps [of "i + 1"] have "utf8_text (drop (i + 1) data)"
      by (simp add: utf8_loop_step)
    with 2 have "utf8_text (?b # drop (i + 1) data)" by (intro utf8_text.intros)
    with 2 show ?thesis by (simp add: Cons_nth_drop_Suc)
  next
    case 3
    have "1 < pre_num ?b \<and> continuation_loop data ?n (i + 1) = Some True \<and>
        utf8_loop data (length data) (i + 1 + ?n) = Some True"
      using utf8_loop_step [OF 3(1) 3(1)] less.prems(1) 3(2) by (simp only: if_False simp_thms)
    then have n: "1 < pre_num ?b" "continuation_loop data ?n (i + 1) = Some True"
      "utf8_loop data (length data) (i + 1 + ?n) = Some True" by blast+
    then have le: "i + 1 + ?n \<le> length data" and cs: "\<forall>c \<in> set (take ?n (drop (i + 1) data)). c AND 0xc0 = 0x80"
      by (auto simp: continuation_True)
    have "utf8_text (drop (i + 1 + ?n) data)"
      by (rule less.hyps) (use 3 n le in auto)
    with 3 n le cs have "utf8_text (?b # take ?n (drop (i + 1) data) @ drop (i + 1 + ?n) data)"
      by (intro utf8_text.intros) auto
    moreover have "take ?n (drop (i + 1) data) @ drop (i + 1 + ?n) data = drop (i + 1) data"
      by (metis append_take_drop_id drop_drop add.commute)
    ultimately show ?thesis using 3 by (simp add: Cons_nth_drop_Suc)
  qed
qed

lemma utf8_loop_complete:
  "utf8_text bs \<Longrightarrow> utf8_loop (pre @ bs @ gs) (length (pre @ bs)) (length pre) = Some True"
proof (induction arbitrary: pre rule: utf8_text.induct)
  case 1
  then show ?case by (simp add: utf8_loop_end)
next
  case (2 b bs)
  then show ?case using 2(3) [of "pre @ [b]"] by (simp add: utf8_loop_step nth_append)
next
  case (3 b cs bs)
  have "utf8_loop (pre @ (b # cs @ bs) @ gs) (length (pre @ b # cs @ bs)) (length pre + 1 + length cs) = Some True"
    using 3(6) [of "pre @ b # cs"] by (simp add: algebra_simps)
  moreover have "continuation_loop (pre @ (b # cs @ bs) @ gs) (length cs) (length pre + 1) = Some True"
    using 3(4) by (simp add: continuation_True)
  ultimately show ?case using 3(1-3) by (simp add: utf8_loop_step nth_append)
qed


section \<open>Swapping bytes in pairs\<close>

fun swap_pairs :: "bytes \<Rightarrow> bytes" where
  "swap_pairs (a # b # bs) = b # a # swap_pairs bs"
| "swap_pairs bs = bs"

lemma length_swap_pairs [simp]: "length (swap_pairs bs) = length bs"
  by (induction bs rule: swap_pairs.induct) auto

lemma swap_pairs_twice [simp]: "swap_pairs (swap_pairs bs) = bs"
  by (induction bs rule: swap_pairs.induct) auto

lemma htol_loop_even:
  "even (length bs) \<Longrightarrow> htol_loop (pre @ bs @ gs) (length pre + length bs) (length pre) =
     Some (pre @ swap_pairs bs @ gs)"
proof (induction bs arbitrary: pre rule: swap_pairs.induct)
  case (1 a b bs)
  have "htol_loop (pre @ (a # b # bs) @ gs) (length pre + length (a # b # bs)) (length pre) =
      htol_loop ((pre @ [b, a]) @ bs @ gs) (length (pre @ [b, a]) + length bs) (length (pre @ [b, a]))"
    by (subst htol_loop.simps) (simp add: nth_append list_update_append)
  also have "\<dots> = Some ((pre @ [b, a]) @ swap_pairs bs @ gs)"
    using 1(1) [of "pre @ [b, a]"] 1(2) by simp
  finally show ?case by simp
qed (simp_all add: htol_loop.simps)

lemma htol_even:
  assumes "even (length bs)"
  shows "neu_datatag_string_htol (bs @ gs) (int (length bs)) = Some (swap_pairs bs @ gs)"
  using htol_loop_even [OF assms, of "[]" gs] by (simp add: neu_datatag_string_htol_def)

section \<open>Instances\<close>

theorem tag_format_roundtrip_witness:
  "\<exists>s. neu_tag_format_str (zero_tag\<lparr>dt_format := [7, 255] @ replicate 14 0, dt_n_format := 2\<rparr>) [] 64 = Some s \<and>
     neu_format_from_str (Some s) (replicate 16 0) = (2, store_bytes 0 [7, 255] (replicate 16 0))"
  using tag_format_roundtrip [where tag = "zero_tag\<lparr>dt_format := [7, 255] @ replicate 14 0, dt_n_format := 2\<rparr>"
      and f = 7 and fs = "[255]" and gs = "replicate 14 0" and len = 64 and buf = "[]" and old = "replicate 16 0"]
  by (simp del: replicate.simps)

end
