(* ===== verification/Tag_Sort.thy ===== *)
theory Tag_Sort
  imports Neuron_Prelude
begin

text \<open>
  Sorting and grouping of tags: \<^verbatim>\<open>DL_SORT\<close> of \<^verbatim>\<open>utlist.h\<close>, a bottom-up merge sort of a linked
  list, and \<^verbatim>\<open>src/base/tag_sort.c\<close>, which sorts tags and deals them into groups with a
  driver's own predicate. A linked list is the list of its elements; a pointer into it is the
  list from that element on.
\<close>

section \<open>\<^verbatim>\<open>DL_SORT\<close>\<close>

text \<open>
  The inner loop merges \<open>psize\<close> elements from \<open>p\<close> with up to \<open>qsize\<close> elements from \<open>q\<close>. It
  gives the elements in the order they are appended and the rest of \<open>q\<close>.
\<close>

function dl_merge :: "('a \<Rightarrow> 'a \<Rightarrow> int) \<Rightarrow> 'a list \<Rightarrow> nat \<Rightarrow> 'a list \<Rightarrow> nat \<Rightarrow> 'a list \<times> 'a list" where
  "dl_merge cmp p psize q qsize =
     (if psize > 0 \<or> (qsize > 0 \<and> q \<noteq> [])
      then if psize = 0
           then let (m, r) = dl_merge cmp p psize (tl q) (qsize - 1) in (hd q # m, r)
           else if qsize = 0 \<or> q = []
           then let (m, r) = dl_merge cmp (tl p) (psize - 1) q qsize in (hd p # m, r)
           else if cmp (hd p) (hd q) \<le> 0
           then let (m, r) = dl_merge cmp (tl p) (psize - 1) q qsize in (hd p # m, r)
           else let (m, r) = dl_merge cmp p psize (tl q) (qsize - 1) in (hd q # m, r)
      else ([], q))"
  by pat_completeness auto

termination
  by (relation "measure (\<lambda>(cmp, p, psize, q, qsize). psize + qsize)") auto

declare dl_merge.simps [simp del]

text \<open>The reference: a stable merge of two lists.\<close>

fun merge_by :: "('a \<Rightarrow> 'a \<Rightarrow> int) \<Rightarrow> 'a list \<Rightarrow> 'a list \<Rightarrow> 'a list" where
  "merge_by cmp [] ys = ys"
| "merge_by cmp xs [] = xs"
| "merge_by cmp (x # xs) (y # ys) =
     (if cmp x y \<le> 0 then x # merge_by cmp xs (y # ys) else y # merge_by cmp (x # xs) ys)"

lemma merge_by_Nil [simp]: "merge_by cmp xs [] = xs"
  by (cases xs) auto

lemma dl_merge_spec:
  "psize \<le> length p \<Longrightarrow>
     dl_merge cmp p psize q qsize = (merge_by cmp (take psize p) (take qsize q), drop qsize q)"
proof (induction cmp p psize q qsize rule: dl_merge.induct)
  case (1 cmp p psize q qsize)
  show ?case
  proof (cases "psize = 0")
    case True
    show ?thesis
    proof (cases "qsize > 0 \<and> q \<noteq> []")
      case True
      then obtain y ys n where "q = y # ys" "qsize = Suc n" by (meson gr0_conv_Suc neq_Nil_conv)
      with 1 \<open>psize = 0\<close> show ?thesis by (subst dl_merge.simps) simp
    qed (subst dl_merge.simps, use True in auto)
  next
    case False
    then obtain x xs m where p: "p = x # xs" "psize = Suc m"
      using 1(5) by (cases p; cases psize) auto
    show ?thesis
    proof (cases "qsize = 0 \<or> q = []")
      case True
      with 1 p show ?thesis by (subst dl_merge.simps) auto
    next
      case False
      then obtain y ys n where "q = y # ys" "qsize = Suc n" by (meson not0_implies_Suc neq_Nil_conv)
      with 1 p show ?thesis by (subst dl_merge.simps) simp
    qed
  qed
qed

text \<open>
  One pass over the list merges neighbouring runs of \<open>insize\<close> elements and counts the merges.
  The \<^verbatim>\<open>for\<close> loop that finds \<open>q\<close> steps at most \<open>insize\<close> times and stops at the end.
\<close>

function dl_pass :: "('a \<Rightarrow> 'a \<Rightarrow> int) \<Rightarrow> nat \<Rightarrow> 'a list \<Rightarrow> 'a list \<times> nat" where
  "dl_pass cmp insize p =
     (if p = [] \<or> insize = 0 then ([], 0)
      else let psize = min insize (length p);
               (m, q) = dl_merge cmp p psize (drop psize p) insize;
               (ms, nmerges) = dl_pass cmp insize q
           in (m @ ms, nmerges + 1))"
  by pat_completeness auto

termination
  by (relation "measure (\<lambda>(cmp, insize, p). length p)") (auto simp: dl_merge_spec)

declare dl_pass.simps [simp del]

lemma dl_pass_Nil [simp]: "dl_pass cmp insize [] = ([], 0)"
  by (subst dl_pass.simps) simp

lemma dl_pass_step: "insize > 0 \<Longrightarrow> p \<noteq> [] \<Longrightarrow>
    dl_pass cmp insize p =
      (merge_by cmp (take insize p) (take insize (drop insize p)) @
         fst (dl_pass cmp insize (drop (2 * insize) p)),
       snd (dl_pass cmp insize (drop (2 * insize) p)) + 1)"
  by (subst dl_pass.simps)
    (cases "insize \<le> length p", auto simp: dl_merge_spec Let_def min_def mult_2 split: prod.split)

lemma length_merge_by [simp]: "length (merge_by cmp xs ys) = length xs + length ys"
  by (induction cmp xs ys rule: merge_by.induct) auto

lemma mset_merge_by [simp]: "mset (merge_by cmp xs ys) = mset xs + mset ys"
  by (induction cmp xs ys rule: merge_by.induct) auto

lemma dl_pass_mset: "insize > 0 \<Longrightarrow> mset (fst (dl_pass cmp insize p)) = mset p"
proof (induction "length p" arbitrary: p rule: less_induct)
  case less
  show ?case
  proof (cases "p = []")
    case False
    then have "mset (fst (dl_pass cmp insize (drop (2 * insize) p))) = mset (drop (2 * insize) p)"
      using less by simp
    moreover have "mset p = mset (take insize p) + mset (take insize (drop insize p)) + mset (drop (2 * insize) p)"
      by (metis append_take_drop_id drop_drop mset_append mult_2 add.assoc)
    ultimately show ?thesis using less(2) False by (simp add: dl_pass_step)
  qed simp
qed

lemma dl_pass_length: "insize > 0 \<Longrightarrow> length (fst (dl_pass cmp insize p)) = length p"
  using dl_pass_mset [of insize cmp p] mset_eq_length by blast

lemma dl_pass_count: "insize > 0 \<Longrightarrow> length p \<le> 2 * insize \<Longrightarrow> snd (dl_pass cmp insize p) \<le> 1"
  by (cases "p = []") (simp_all add: dl_pass_step)

text \<open>
  The outer loop doubles the run length, which starts at 1, until a pass does at most one
  merge.
\<close>

function dl_sort_loop :: "('a \<Rightarrow> 'a \<Rightarrow> int) \<Rightarrow> nat \<Rightarrow> 'a list \<Rightarrow> 'a list" where
  "dl_sort_loop cmp insize list =
     (let (list', nmerges) = dl_pass cmp insize list in
      if nmerges \<le> 1 \<or> insize = 0 then list' else dl_sort_loop cmp (insize * 2) list')"
  by pat_completeness auto

termination
proof (relation "measure (\<lambda>(cmp, insize, list). length list - insize)")
  fix cmp :: "'a \<Rightarrow> 'a \<Rightarrow> int" and insize list r list' nmerges
  assume r: "r = dl_pass cmp insize list" "(list', nmerges) = r" and n: "\<not> (nmerges \<le> 1 \<or> insize = 0)"
  then have "length list' = length list"
    using dl_pass_length [of insize cmp list] by (metis fst_conv gr0I)
  moreover have "length list > 2 * insize"
    using dl_pass_count [of insize list cmp] r n by (metis gr0I not_le snd_conv)
  ultimately show "((cmp, insize * 2, list'), cmp, insize, list)
      \<in> measure (\<lambda>(cmp, insize, list). length list - insize)"
    using n by auto
qed simp

declare dl_sort_loop.simps [simp del]

definition DL_SORT :: "'a list \<Rightarrow> ('a \<Rightarrow> 'a \<Rightarrow> int) \<Rightarrow> 'a list" where
  "DL_SORT list cmp = (if list \<noteq> [] then dl_sort_loop cmp 1 list else list)"

section \<open>Grouping\<close>

text \<open>
  A group, the result and the driver's predicate, which may update the group's context. A
  new group after 65535 others wraps the 16-bit counter to 0 and the code then writes in
  front of the array: \<open>None\<close>.
\<close>

record ('t, 'c) neu_tag_sort_t =
  ts_size :: u16
  ts_context :: "'c option"
  ts_tags :: "'t list"

record ('t, 'c) neu_tag_sort_result =
  n_sort :: u16
  sorts :: "('t, 'c) neu_tag_sort_t list"

type_synonym ('t, 'c) neu_tag_sort_fn =
  "('t, 'c) neu_tag_sort_t \<Rightarrow> 't \<Rightarrow> 't \<Rightarrow> bool \<times> ('t, 'c) neu_tag_sort_t"

fun tag_sort_find :: "('t, 'c) neu_tag_sort_fn \<Rightarrow> 't \<Rightarrow> ('t, 'c) neu_tag_sort_t list \<Rightarrow>
    bool \<times> ('t, 'c) neu_tag_sort_t list" where
  "tag_sort_find fn tag [] = (False, [])"
| "tag_sort_find fn tag (s # ss) =
     (let (hit, s) = fn s (last (ts_tags s)) tag in
      if hit
      then (True, s\<lparr>ts_tags := ts_tags s @ [tag], ts_size := ts_size s + 1\<rparr> # ss)
      else let (sorted, ss) = tag_sort_find fn tag ss in (sorted, s # ss))"

definition tag_sort :: "('t, 'c) neu_tag_sort_result \<Rightarrow> 't \<Rightarrow> ('t, 'c) neu_tag_sort_fn \<Rightarrow>
    ('t, 'c) neu_tag_sort_result option" where
  "tag_sort result tag fn =
     (let (sorted, ss) = tag_sort_find fn tag (sorts result) in
      if sorted then Some (result\<lparr>sorts := ss\<rparr>)
      else let n = n_sort result + 1 in
           if n = 0 then None
           else let s = \<lparr>ts_size = 1, ts_context = None, ts_tags = [tag]\<rparr>
                in Some (result\<lparr>n_sort := n, sorts := ss @ [snd (fn s tag tag)]\<rparr>))"

fun tag_sort_all :: "('t, 'c) neu_tag_sort_fn \<Rightarrow> ('t, 'c) neu_tag_sort_result \<Rightarrow> 't list \<Rightarrow>
    ('t, 'c) neu_tag_sort_result option" where
  "tag_sort_all fn result [] = Some result"
| "tag_sort_all fn result (tag # tags) =
     (case tag_sort result tag fn of
        None \<Rightarrow> None
      | Some result \<Rightarrow> tag_sort_all fn result tags)"

definition neu_tag_sort :: "'t list \<Rightarrow> ('t, 'c) neu_tag_sort_fn \<Rightarrow> ('t \<Rightarrow> 't \<Rightarrow> int) \<Rightarrow>
    ('t, 'c) neu_tag_sort_result option" where
  "neu_tag_sort tags fn cmp =
     tag_sort_all fn \<lparr>n_sort = 0, sorts = []\<rparr> (DL_SORT tags cmp)"

section \<open>\<^verbatim>\<open>DL_SORT\<close> sorts and is stable\<close>

lemma set_merge_by [simp]: "set (merge_by cmp xs ys) = set xs \<union> set ys"
  using mset_merge_by [of cmp xs ys] by (metis set_mset_mset set_mset_union)

definition sorted_runs :: "('a \<Rightarrow> 'a \<Rightarrow> bool) \<Rightarrow> nat \<Rightarrow> 'a list \<Rightarrow> bool" where
  "sorted_runs le k xs \<longleftrightarrow> (\<forall>i. sorted_wrt le (take k (drop (i * k) xs)))"

lemma dl_pass_one: "insize > 0 \<Longrightarrow> snd (dl_pass cmp insize p) \<le> 1 \<Longrightarrow> length p \<le> 2 * insize"
proof (rule ccontr)
  assume a: "insize > 0" "snd (dl_pass cmp insize p) \<le> 1" "\<not> length p \<le> 2 * insize"
  then have "p \<noteq> []" "drop (2 * insize) p \<noteq> []" by auto
  with a show False
    using dl_pass_step [of insize p cmp] dl_pass_step [of insize "drop (2 * insize) p" cmp] by simp
qed

lemma sort_loop_mset: "k > 0 \<Longrightarrow> mset (dl_sort_loop cmp k xs) = mset xs"
proof (induction cmp k xs rule: dl_sort_loop.induct)
  case (1 cmp k xs)
  obtain ys n where p: "dl_pass cmp k xs = (ys, n)" by (cases "dl_pass cmp k xs")
  then show ?case
    using 1 dl_pass_mset [of k cmp xs] by (subst dl_sort_loop.simps) (auto simp: p)
qed

lemma DL_SORT_mset [simp]: "mset (DL_SORT xs cmp) = mset xs"
  by (simp add: DL_SORT_def sort_loop_mset)

text \<open>
  What \<^verbatim>\<open>DL_SORT\<close> needs of its comparison function: a total preorder.
\<close>

locale list_comparator =
  fixes cmp :: "'a \<Rightarrow> 'a \<Rightarrow> int"
  assumes total: "cmp a b \<le> 0 \<or> cmp b a \<le> 0"
    and trans: "cmp a b \<le> 0 \<Longrightarrow> cmp b c \<le> 0 \<Longrightarrow> cmp a c \<le> 0"
begin

abbreviation le :: "'a \<Rightarrow> 'a \<Rightarrow> bool" where
  "le a b \<equiv> cmp a b \<le> 0"

abbreviation eqv :: "'a \<Rightarrow> 'a \<Rightarrow> bool" where
  "eqv a b \<equiv> cmp a b \<le> 0 \<and> cmp b a \<le> 0"

lemma merge_induct [case_names Nil1 Nil2 Cons]:
  assumes "\<And>ys. P [] ys" and "\<And>x xs. P (x # xs) []"
    and "\<And>x xs y ys. (cmp x y \<le> 0 \<Longrightarrow> P xs (y # ys)) \<Longrightarrow> (\<not> cmp x y \<le> 0 \<Longrightarrow> P (x # xs) ys) \<Longrightarrow>
      P (x # xs) (y # ys)"
  shows "P xs ys"
proof (induction xs arbitrary: ys)
  case (Cons x xs)
  show ?case by (induction ys) (use assms Cons in blast)+
qed (rule assms(1))

lemma sorted_merge:
  "sorted_wrt le xs \<Longrightarrow> sorted_wrt le ys \<Longrightarrow> sorted_wrt le (merge_by cmp xs ys)"
proof (induction xs ys rule: merge_induct)
  case (Cons x xs y ys)
  show ?case
  proof (cases "le x y")
    case True
    then show ?thesis using Cons trans [OF True] by auto
  next
    case False
    then have "le y x" using total by blast
    then show ?thesis using Cons False trans [OF \<open>le y x\<close>] by auto
  qed
qed simp_all

lemma filter_merge:
  "sorted_wrt le xs \<Longrightarrow> filter (eqv a) (merge_by cmp xs ys) = filter (eqv a) xs @ filter (eqv a) ys"
proof (induction xs ys rule: merge_induct)
  case (Cons x xs y ys)
  show ?case
  proof (cases "le x y")
    case True
    then show ?thesis using Cons by auto
  next
    case False
    have "\<not> eqv a z" if "eqv a y" "z \<in> set (x # xs)" for z
    proof
      assume "eqv a z"
      have "le x z" using Cons.prems that(2) total [of x x] by auto
      then show False using \<open>eqv a z\<close> that(1) False trans by blast
    qed
    then have "eqv a y \<Longrightarrow> filter (eqv a) (x # xs) = []" by (auto simp: filter_empty_conv)
    then show ?thesis using Cons False by auto
  qed
qed simp_all

lemma runs_split:
  assumes "sorted_runs le k p"
  shows "sorted_wrt le (take k p)" "sorted_wrt le (take k (drop k p))" "sorted_runs le k (drop (2 * k) p)"
proof -
  note run = assms [unfolded sorted_runs_def, rule_format]
  show "sorted_wrt le (take k p)" "sorted_wrt le (take k (drop k p))"
    using run [of 0] run [of 1] by simp_all
  show "sorted_runs le k (drop (2 * k) p)"
    unfolding sorted_runs_def using run [of "_ + 2"] unfolding add_mult_distrib drop_drop by blast
qed

lemma pass_filter:
  "k > 0 \<Longrightarrow> sorted_runs le k p \<Longrightarrow> filter (eqv a) (fst (dl_pass cmp k p)) = filter (eqv a) p"
proof (induction "length p" arbitrary: p rule: less_induct)
  case less
  show ?case
  proof (cases "p = []")
    case False
    let ?q = "drop (2 * k) p"
    note runs = runs_split [OF less.prems(2)]
    have "filter (eqv a) (fst (dl_pass cmp k ?q)) = filter (eqv a) ?q"
      using less runs(3) False by simp
    then have "filter (eqv a) (fst (dl_pass cmp k p)) = filter (eqv a) (take k p @ take k (drop k p) @ ?q)"
      using less.prems(1) False by (simp add: dl_pass_step filter_merge [OF runs(1)])
    also have "take k p @ take k (drop k p) @ ?q = p"
      by (metis append_take_drop_id drop_drop mult_2)
    finally show ?thesis .
  qed simp
qed

lemma pass_runs:
  "k > 0 \<Longrightarrow> sorted_runs le k p \<Longrightarrow> sorted_runs le (2 * k) (fst (dl_pass cmp k p))"
proof (induction "length p" arbitrary: p rule: less_induct)
  case less
  show ?case
  proof (cases "p = []")
    case True
    then show ?thesis by (simp add: sorted_runs_def)
  next
    case False
    let ?q = "drop (2 * k) p" let ?m = "merge_by cmp (take k p) (take k (drop k p))"
    note runs = runs_split [OF less.prems(2)]
    have IH: "sorted_runs le (2 * k) (fst (dl_pass cmp k ?q))"
      using less runs(3) False by simp
    have "sorted_wrt le (take (2 * k) (drop (i * (2 * k)) (?m @ fst (dl_pass cmp k ?q))))" for i
    proof (cases "length p < 2 * k")
      case True
      then show ?thesis using sorted_merge [OF runs(1,2)] by (cases i) auto
    next
      case False
      then have len: "length ?m = 2 * k" by (auto simp: min_def)
      show ?thesis
        using sorted_merge [OF runs(1,2)] IH len by (cases i) (simp_all add: sorted_runs_def)
    qed
    then show ?thesis using less.prems(1) False by (simp add: dl_pass_step sorted_runs_def)
  qed
qed

lemma sort_loop_sorted:
  "k > 0 \<Longrightarrow> sorted_runs le k xs \<Longrightarrow> sorted_wrt le (dl_sort_loop cmp k xs) \<and>
     filter (eqv a) (dl_sort_loop cmp k xs) = filter (eqv a) xs"
proof (induction "length xs - k" arbitrary: xs k rule: less_induct)
  case less
  obtain ys n where p: "dl_pass cmp k xs = (ys, n)" by (cases "dl_pass cmp k xs")
  note runs = pass_runs [OF less.prems, unfolded p fst_conv] pass_filter [OF less.prems, of a, unfolded p fst_conv]
  have ms: "mset ys = mset xs" using dl_pass_mset [OF less.prems(1), of cmp xs] p by simp
  show ?case
  proof (cases "n \<le> 1")
    case True
    then have "length ys \<le> 2 * k"
      using dl_pass_one [OF less.prems(1), of cmp xs] p mset_eq_length [OF ms] by simp
    then have "sorted_wrt le ys"
      using runs(1) [unfolded sorted_runs_def, rule_format, of 0] by simp
    then show ?thesis using True p runs ms by (subst (1 2) dl_sort_loop.simps) simp
  next
    case False
    then have "length xs > 2 * k"
      using dl_pass_count [OF less.prems(1), of xs cmp] p by (metis not_le snd_conv)
    then have "sorted_wrt le (dl_sort_loop cmp (2 * k) ys) \<and>
        filter (eqv a) (dl_sort_loop cmp (2 * k) ys) = filter (eqv a) ys"
      using less.prems runs mset_eq_length [OF ms] by (intro less.hyps) auto
    moreover have "dl_sort_loop cmp k xs = dl_sort_loop cmp (2 * k) ys"
      using False p less.prems by (subst dl_sort_loop.simps) (simp add: mult.commute)
    ultimately show ?thesis using runs by simp
  qed
qed

lemma DL_SORT_correct:
  shows DL_SORT_sorted: "sorted_wrt le (DL_SORT xs cmp)"
    and DL_SORT_stable: "filter (eqv a) (DL_SORT xs cmp) = filter (eqv a) xs"
proof -
  have "sorted_wrt le (take 1 ys)" for ys by (cases ys) simp_all
  then have "sorted_runs le 1 xs" by (simp add: sorted_runs_def)
  from sort_loop_sorted [OF _ this, of a]
  show "sorted_wrt le (DL_SORT xs cmp)" "filter (eqv a) (DL_SORT xs cmp) = filter (eqv a) xs"
    by (simp_all add: DL_SORT_def)
qed

end

section \<open>Groups partition the tags\<close>

lemma tag_sort_find_length: "length (snd (tag_sort_find fn tag ss)) = length ss"
  by (induction ss) (auto simp: Let_def split: prod.splits)

lemma tag_sort_total:
  assumes "unat (n_sort r) = length (sorts r)" and "length (sorts r) + 1 < 65536"
  shows "\<exists>r'. tag_sort r tag fn = Some r' \<and> unat (n_sort r') = length (sorts r') \<and>
    length (sorts r') \<le> length (sorts r) + 1"
proof -
  have "unat (n_sort r) + unat (1::u16) < 2 ^ LENGTH(16)" using assms by simp
  then have "unat (n_sort r + 1) = unat (n_sort r) + unat (1::u16)"
    by (rule unat_add_lem [THEN iffD1])
  then have u: "unat (n_sort r + 1) = length (sorts r) + 1" by (simp add: assms(1))
  then have nz: "n_sort r + 1 \<noteq> 0" by (metis Suc_eq_plus1 nat.distinct(1) unat_0)
  obtain hit ss where f: "tag_sort_find fn tag (sorts r) = (hit, ss)"
    by (cases "tag_sort_find fn tag (sorts r)")
  have "length ss = length (sorts r)" using tag_sort_find_length [of fn tag "sorts r"] f by simp
  then show ?thesis
    using u nz f assms(1) by (cases hit) (simp_all add: tag_sort_def)
qed

lemma tag_sort_all_total:
  assumes "unat (n_sort r) = length (sorts r)" and "length (sorts r) + length tags < 65536"
  shows "\<exists>r'. tag_sort_all fn r tags = Some r' \<and> unat (n_sort r') = length (sorts r')"
  using assms
proof (induction tags arbitrary: r)
  case (Cons tag tags)
  from tag_sort_total [of r tag fn] Cons.prems obtain r' where
    r': "tag_sort r tag fn = Some r'" "unat (n_sort r') = length (sorts r')"
      "length (sorts r') \<le> length (sorts r) + 1" by auto
  with Cons.IH [of r'] Cons.prems show ?case by simp
qed simp

lemma length_DL_SORT [simp]: "length (DL_SORT xs cmp) = length xs"
  by (rule mset_eq_length) simp

lemma set_DL_SORT [simp]: "set (DL_SORT xs cmp) = set xs"
  by (rule mset_eq_setD) simp

lemma neu_tag_sort_total:
  "length tags < 65536 \<Longrightarrow> \<exists>r. neu_tag_sort tags fn cmp = Some r \<and> unat (n_sort r) = length (sorts r)"
  using tag_sort_all_total [of "\<lparr>n_sort = 0, sorts = []\<rparr>" "DL_SORT tags cmp" fn]
  by (simp add: neu_tag_sort_def)

text \<open>
  The contract between \<^verbatim>\<open>neu_tag_sort\<close> and a driver: the comparison is a total preorder, and
  the predicate sets up the context of a new group and keeps the group invariant \<open>inv\<close>
  whether or not it accepts a tag that is not below those already in the group.
\<close>

locale tag_grouping = list_comparator cmp for cmp :: "'t \<Rightarrow> 't \<Rightarrow> int" +
  fixes fn :: "('t, 'c) neu_tag_sort_fn" and inv :: "('t, 'c) neu_tag_sort_t \<Rightarrow> bool"
    and ok :: "'t \<Rightarrow> bool"
  assumes fresh: "ok t \<Longrightarrow> fn \<lparr>ts_size = 1, ts_context = None, ts_tags = [t]\<rparr> t t = (b, s) \<Longrightarrow>
      inv s \<and> ts_tags s = [t]"
    and step: "inv s \<Longrightarrow> ok t \<Longrightarrow> ts_tags s \<noteq> [] \<Longrightarrow> \<forall>u \<in> set (ts_tags s). cmp u t \<le> 0 \<Longrightarrow>
      fn s (last (ts_tags s)) t = (b, s') \<Longrightarrow>
      ts_tags s' = ts_tags s \<and>
      (if b then inv (s'\<lparr>ts_tags := ts_tags s' @ [t], ts_size := ts_size s' + 1\<rparr>) else inv s')"
begin

definition good :: "('t, 'c) neu_tag_sort_t list \<Rightarrow> 't list \<Rightarrow> bool" where
  "good ss tags \<longleftrightarrow> (\<forall>s \<in> set ss. inv s \<and> ts_tags s \<noteq> []) \<and> mset (concat (map ts_tags ss)) = mset tags"

lemma find_good:
  assumes "\<forall>s \<in> set ss. inv s \<and> ts_tags s \<noteq> [] \<and> (\<forall>u \<in> set (ts_tags s). cmp u t \<le> 0)" and "ok t"
    and "tag_sort_find fn t ss = (hit, ss')"
  shows "(\<forall>s \<in> set ss'. inv s \<and> ts_tags s \<noteq> []) \<and>
    mset (concat (map ts_tags ss')) = mset (concat (map ts_tags ss)) + (if hit then {#t#} else {#})"
  using assms(1,3)
proof (induction ss arbitrary: ss' hit)
  case (Cons s ss)
  obtain b s' where f: "fn s (last (ts_tags s)) t = (b, s')" by (cases "fn s (last (ts_tags s)) t")
  with step [OF _ assms(2) _ _ f] Cons.prems(1)
  have s': "ts_tags s' = ts_tags s"
    "if b then inv (s'\<lparr>ts_tags := ts_tags s' @ [t], ts_size := ts_size s' + 1\<rparr>) else inv s'"
    by auto
  obtain b2 ss2 where g: "tag_sort_find fn t ss = (b2, ss2)" by (cases "tag_sort_find fn t ss")
  show ?case
  proof (cases b)
    case True
    then have "hit" "ss' = s'\<lparr>ts_tags := ts_tags s' @ [t], ts_size := ts_size s' + 1\<rparr> # ss"
      using Cons.prems(2) f by simp_all
    then show ?thesis using True Cons.prems(1) s' by simp
  next
    case False
    then have "hit = b2" "ss' = s' # ss2" using Cons.prems(2) f g by simp_all
    moreover have "(\<forall>s \<in> set ss2. inv s \<and> ts_tags s \<noteq> []) \<and>
        mset (concat (map ts_tags ss2)) = mset (concat (map ts_tags ss)) + (if b2 then {#t#} else {#})"
      using Cons.prems(1) by (intro Cons.IH [OF _ g]) simp
    ultimately show ?thesis using False Cons.prems(1) s' by simp
  qed
qed simp

lemma tag_sort_good:
  assumes "good (sorts r) seen" and "ok t" and "\<forall>u \<in> set seen. cmp u t \<le> 0"
    and "tag_sort r t fn = Some r'"
  shows "good (sorts r') (seen @ [t])"
proof -
  obtain hit ss where f: "tag_sort_find fn t (sorts r) = (hit, ss)"
    by (cases "tag_sort_find fn t (sorts r)")
  have "set (concat (map ts_tags (sorts r))) = set seen"
    using assms(1) mset_eq_setD [of "concat (map ts_tags (sorts r))" seen] by (simp add: good_def)
  moreover have "set (ts_tags s) \<subseteq> set (concat (map ts_tags (sorts r)))" if "s \<in> set (sorts r)" for s
    using that by auto
  ultimately have "\<forall>s \<in> set (sorts r). inv s \<and> ts_tags s \<noteq> [] \<and> (\<forall>u \<in> set (ts_tags s). cmp u t \<le> 0)"
    using assms(1,3) unfolding good_def by blast
  note found = find_good [OF this assms(2) f]
  obtain b s where n: "fn \<lparr>ts_size = 1, ts_context = None, ts_tags = [t]\<rparr> t t = (b, s)"
    by (cases "fn \<lparr>ts_size = 1, ts_context = None, ts_tags = [t]\<rparr> t t")
  have new: "inv s" "ts_tags s = [t]" using fresh [OF assms(2) n] by simp_all
  show ?thesis
  proof (cases hit)
    case True
    then have "sorts r' = ss" using assms(4) f by (auto simp: tag_sort_def)
    then show ?thesis using True found assms(1) by (simp add: good_def)
  next
    case False
    then have "sorts r' = ss @ [s]" using assms(4) f n by (auto simp: tag_sort_def Let_def split: if_splits)
    then show ?thesis using False found new assms(1) by (simp add: good_def)
  qed
qed

lemma tag_sort_all_good:
  assumes "good (sorts r) seen" and "\<forall>t \<in> set tags. ok t"
    and "sorted_wrt le (seen @ tags)" and "tag_sort_all fn r tags = Some r'"
  shows "good (sorts r') (seen @ tags)"
  using assms
proof (induction tags arbitrary: r seen)
  case (Cons t tags)
  then obtain r1 where r1: "tag_sort r t fn = Some r1" "tag_sort_all fn r1 tags = Some r'"
    by (auto split: option.splits)
  moreover have "good (sorts r1) (seen @ [t])"
    using Cons.prems r1 by (intro tag_sort_good [OF Cons.prems(1)]) (auto simp: sorted_wrt_append)
  ultimately show ?case using Cons.IH [of r1 "seen @ [t]"] Cons.prems by simp
qed simp

lemma neu_tag_sort_good:
  assumes "\<forall>t \<in> set tags. ok t" and "neu_tag_sort tags fn cmp = Some r"
  shows "\<forall>s \<in> set (sorts r). inv s \<and> ts_tags s \<noteq> []"
    and "mset (concat (map ts_tags (sorts r))) = mset tags"
proof -
  have "good (sorts r) (DL_SORT tags cmp)"
    using tag_sort_all_good [of "\<lparr>n_sort = 0, sorts = []\<rparr>" "[]" "DL_SORT tags cmp" r]
      DL_SORT_sorted [of tags] assms
    by (simp add: neu_tag_sort_def good_def)
  then show "\<forall>s \<in> set (sorts r). inv s \<and> ts_tags s \<noteq> []"
    and "mset (concat (map ts_tags (sorts r))) = mset tags"
    by (simp_all add: good_def)
qed

end

end
