(* ===== verification/Modbus_Point.thy ===== *)
theory Modbus_Point
  imports Modbus_Frame Datatag Tag_Sort
begin

unbundle bit_operations_syntax

text \<open>
  \<^verbatim>\<open>plugins/modbus/modbus_point.c\<close>: from a tag address to a point, the grouping of points into
  read and write commands, and the byte orders of values. The thread-local limit
  \<^verbatim>\<open>modbus_read_max_byte\<close> is an argument of the grouping predicates.
\<close>

section \<open>Points\<close>

record modbus_point =
  mp_slave_id :: u8
  mp_area :: modbus_area
  mp_start_address :: u16
  mp_n_register :: u16
  mp_type :: neu_type_e
  mp_option :: addr_option
  mp_name :: string

record modbus_point_write =
  pw_point :: modbus_point
  pw_value :: neu_value_u

definition zero_point :: modbus_point where
  "zero_point =
     \<lparr>mp_slave_id = 0, mp_area = MODBUS_AREA_COIL, mp_start_address = 0, mp_n_register = 0,
      mp_type = NEU_TYPE_INT8, mp_option = zero_option, mp_name = ''''\<rparr>"

text \<open>
  \<^verbatim>\<open>sscanf(address, "%hhu!%c%u", ...)\<close>: the conversions that succeeded, in order.
\<close>

definition scan_address :: "string \<Rightarrow> u8 option \<times> char option \<times> u32 option" where
  "scan_address s =
     (case scan_u s of
        None \<Rightarrow> (None, None, None)
      | Some (slave, rest) \<Rightarrow>
          (case rest of
             bang # area # rest \<Rightarrow>
               if bang = CHR ''!''
               then (Some slave, Some area, map_option fst (scan_u rest))
               else (Some slave, None, None)
           | _ \<Rightarrow> (Some slave, None, None)))"

definition address_base_val :: "modbus_address_base \<Rightarrow> nat" where
  "address_base_val b = (case b of base_0 \<Rightarrow> 0 | base_1 \<Rightarrow> 1)"

definition point_start_address :: "u32 \<Rightarrow> modbus_address_base \<Rightarrow> u16" where
  "point_start_address start_address address_base =
     (if start_address = 65536 \<and> address_base = base_0 then 65535
      else if start_address = 0 \<and> address_base = base_1 then 0
      else ucast start_address - of_nat (address_base_val address_base))"

definition area_of_char :: "char \<Rightarrow> modbus_area option" where
  "area_of_char c =
     (if c = CHR ''0'' then Some MODBUS_AREA_COIL
      else if c = CHR ''1'' then Some MODBUS_AREA_INPUT
      else if c = CHR ''3'' then Some MODBUS_AREA_INPUT_REGISTER
      else if c = CHR ''4'' then Some MODBUS_AREA_HOLD_REGISTER
      else None)"

text \<open>The checks on area, type and attribute before the register count is known.\<close>

definition check_point :: "neu_datatag \<Rightarrow> modbus_point \<Rightarrow> neu_err" where
  "check_point tag point =
     (let area = mp_area point; opt = mp_option point;
          writable = (dt_attribute tag AND NEU_ATTRIBUTE_WRITE = NEU_ATTRIBUTE_WRITE) in
      if area \<in> {MODBUS_AREA_INPUT, MODBUS_AREA_INPUT_REGISTER} \<and> writable
      then NEU_ERR_TAG_ATTRIBUTE_NOT_SUPPORT
      else if area \<in> {MODBUS_AREA_INPUT, MODBUS_AREA_COIL}
      then (if mp_type point \<noteq> NEU_TYPE_BIT then NEU_ERR_TAG_TYPE_NOT_SUPPORT
            else if opt_bit opt > 7 then NEU_ERR_TAG_ADDRESS_FORMAT_INVALID
            else NEU_ERR_SUCCESS)
      else (if mp_type point = NEU_TYPE_STRING \<and> opt_string_length opt \<le> 0
            then NEU_ERR_TAG_ADDRESS_FORMAT_INVALID
            else if mp_type point = NEU_TYPE_BYTES \<and> opt_bytes_length opt \<le> 0
            then NEU_ERR_TAG_ADDRESS_FORMAT_INVALID
            else if mp_type point = NEU_TYPE_BIT \<and> opt_bit opt > 15
            then NEU_ERR_TAG_ADDRESS_FORMAT_INVALID
            else if mp_type point = NEU_TYPE_BIT \<and> writable
            then NEU_ERR_TAG_ATTRIBUTE_NOT_SUPPORT
            else NEU_ERR_SUCCESS))"

text \<open>
  The register count by type: \<open>Inl\<close> returns at once, \<open>Inr\<close> goes on to copy the name and
  returns the error it carries.
\<close>

definition set_n_register :: "modbus_point \<Rightarrow> neu_err + neu_err \<times> modbus_point" where
  "set_n_register point =
     (let bits = mp_area point \<in> {MODBUS_AREA_COIL, MODBUS_AREA_INPUT};
          opt = mp_option point; t = mp_type point;
          registers = (\<lambda>n. Inr (if bits then (NEU_ERR_TAG_TYPE_NOT_SUPPORT, point)
                                else (NEU_ERR_SUCCESS, point\<lparr>mp_n_register := n\<rparr>))) in
      if t \<in> {NEU_TYPE_BIT, NEU_TYPE_BOOL, NEU_TYPE_INT8, NEU_TYPE_UINT8, NEU_TYPE_PTR}
      then Inr (NEU_ERR_SUCCESS, point\<lparr>mp_n_register := 1\<rparr>)
      else if t \<in> {NEU_TYPE_UINT16, NEU_TYPE_INT16, NEU_TYPE_WORD} then registers 1
      else if t \<in> {NEU_TYPE_UINT32, NEU_TYPE_INT32, NEU_TYPE_FLOAT, NEU_TYPE_DWORD,
                   NEU_TYPE_TIME, NEU_TYPE_DATA_AND_TIME} then registers 2
      else if t \<in> {NEU_TYPE_UINT64, NEU_TYPE_INT64, NEU_TYPE_DOUBLE, NEU_TYPE_LWORD}
      then registers 4
      else if t = NEU_TYPE_STRING
      then (if bits then Inr (NEU_ERR_TAG_TYPE_NOT_SUPPORT, point)
            else if opt_string_length opt > 127 then Inl NEU_ERR_TAG_ADDRESS_FORMAT_INVALID
            else if opt_string_type opt \<in> {string_type_code NEU_DATATAG_STRING_TYPE_H,
                                           string_type_code NEU_DATATAG_STRING_TYPE_L}
            then Inr (NEU_ERR_SUCCESS, point\<lparr>mp_n_register :=
                        opt_string_length opt div 2 + opt_string_length opt mod 2\<rparr>)
            else if opt_string_type opt \<in> {string_type_code NEU_DATATAG_STRING_TYPE_D,
                                           string_type_code NEU_DATATAG_STRING_TYPE_E}
            then Inr (NEU_ERR_SUCCESS, point\<lparr>mp_n_register := opt_string_length opt\<rparr>)
            else Inr (NEU_ERR_SUCCESS, point))
      else if t = NEU_TYPE_BYTES
      then (if bits then Inr (NEU_ERR_TAG_TYPE_NOT_SUPPORT, point)
            else if opt_bytes_length opt > 128 \<or> opt_bytes_length opt mod 2 = 1
            then Inl NEU_ERR_TAG_ADDRESS_FORMAT_INVALID
            else Inr (NEU_ERR_SUCCESS, point\<lparr>mp_n_register :=
                        ucast (opt_bytes_length opt div 2 + opt_bytes_length opt mod 2)\<rparr>))
      else Inl NEU_ERR_TAG_TYPE_NOT_SUPPORT)"

definition modbus_tag_to_point ::
    "neu_datatag \<Rightarrow> modbus_point \<Rightarrow> modbus_address_base \<Rightarrow> neu_err \<times> modbus_point" where
  "modbus_tag_to_point tag point address_base =
     (let (ret, opt) = neu_datatag_parse_addr_option tag (mp_option point);
          point = point\<lparr>mp_option := opt\<rparr> in
      if ret \<noteq> 0 then (NEU_ERR_TAG_ADDRESS_FORMAT_INVALID, point)
      else
        let (slave, area, start) = scan_address (dt_address tag);
            point = (case slave of None \<Rightarrow> point | Some s \<Rightarrow> point\<lparr>mp_slave_id := s\<rparr>) in
        case (area, start) of
          (Some area, Some start_address) \<Rightarrow>
            if start_address > 65536 then (NEU_ERR_TAG_ADDRESS_FORMAT_INVALID, point)
            else
              let point = point\<lparr>mp_start_address := point_start_address start_address address_base,
                                mp_type := dt_type tag\<rparr> in
              (case area_of_char area of
                 None \<Rightarrow> (NEU_ERR_TAG_ADDRESS_FORMAT_INVALID, point)
               | Some a \<Rightarrow>
                   let point = point\<lparr>mp_area := a\<rparr>; err = check_point tag point in
                   if err \<noteq> NEU_ERR_SUCCESS then (err, point)
                   else (case set_n_register point of
                           Inl err \<Rightarrow> (err, point)
                         | Inr (ret, point) \<Rightarrow>
                             (ret, point\<lparr>mp_name := strncpy_to NEU_TAG_NAME_LEN (dt_name tag)\<rparr>)))
        | _ \<Rightarrow> (NEU_ERR_TAG_ADDRESS_FORMAT_INVALID, point))"

definition modbus_write_tag_to_point ::
    "neu_datatag \<Rightarrow> neu_value_u \<Rightarrow> modbus_point_write \<Rightarrow> modbus_address_base \<Rightarrow>
     neu_err \<times> modbus_point_write" where
  "modbus_write_tag_to_point tag v point address_base =
     (let (ret, p) = modbus_tag_to_point tag (pw_point point) address_base
      in (ret, point\<lparr>pw_point := p, pw_value := v\<rparr>))"

section \<open>Grouping points\<close>

record modbus_sort_ctx =
  ctx_start :: u16
  ctx_end :: u16

definition int_cmp :: "nat \<Rightarrow> nat \<Rightarrow> int \<Rightarrow> int" where
  "int_cmp a b rest = (if a > b then 1 else if a < b then -1 else rest)"

definition tag_cmp :: "modbus_point \<Rightarrow> modbus_point \<Rightarrow> int" where
  "tag_cmp p1 p2 =
     int_cmp (unat (mp_slave_id p1)) (unat (mp_slave_id p2))
      (int_cmp (area_val (mp_area p1)) (area_val (mp_area p2))
        (int_cmp (unat (mp_start_address p1)) (unat (mp_start_address p2))
          (int_cmp (unat (mp_n_register p1)) (unat (mp_n_register p2)) 0)))"

definition tag_cmp_write :: "modbus_point_write \<Rightarrow> modbus_point_write \<Rightarrow> int" where
  "tag_cmp_write w1 w2 =
     (let p1 = pw_point w1; p2 = pw_point w2 in
      int_cmp (unat (mp_slave_id p1)) (unat (mp_slave_id p2))
      (int_cmp (area_val (mp_area p1)) (area_val (mp_area p2))
        (int_cmp (unat (mp_start_address p1)) (unat (mp_start_address p2))
          (int_cmp (unat (mp_n_register p1)) (unat (mp_n_register p2)) 0))))"

text \<open>
  \<open>ctx->end - ctx->start\<close> is an \<^verbatim>\<open>int\<close>; stored in a \<^verbatim>\<open>uint16_t\<close> it is the difference modulo
  \<open>2 ^ 16\<close>.
\<close>

definition ctx_span :: "modbus_sort_ctx \<Rightarrow> int" where
  "ctx_span ctx = uint (ctx_end ctx) - uint (ctx_start ctx)"

definition ctx_extend :: "modbus_point \<Rightarrow> modbus_sort_ctx \<Rightarrow> modbus_sort_ctx" where
  "ctx_extend t2 ctx =
     (if uint (mp_start_address t2) + uint (mp_n_register t2) > uint (ctx_end ctx)
      then ctx\<lparr>ctx_end := mp_start_address t2 + mp_n_register t2\<rparr> else ctx)"

definition ctx_new :: "modbus_point \<Rightarrow> modbus_sort_ctx" where
  "ctx_new t1 = \<lparr>ctx_start = mp_start_address t1, ctx_end = mp_start_address t1 + mp_n_register t1\<rparr>"

definition registers_full :: "u16 \<Rightarrow> modbus_sort_ctx \<Rightarrow> modbus_point \<Rightarrow> bool" where
  "registers_full max_byte ctx t2 =
     (let now_bytes = (ctx_end ctx - ctx_start ctx) * 2;
          add_now = now_bytes + mp_n_register t2 * 2
      in add_now \<ge> max_byte)"

definition point_tag_sort :: "u16 \<Rightarrow> (modbus_point, modbus_sort_ctx) neu_tag_sort_fn" where
  "point_tag_sort max_byte srt t1 t2 =
     (case ts_context srt of
        None \<Rightarrow> (True, srt\<lparr>ts_context := Some (ctx_new t1)\<rparr>)
      | Some ctx \<Rightarrow>
          if mp_slave_id t1 \<noteq> mp_slave_id t2 then (False, srt)
          else if mp_area t1 \<noteq> mp_area t2 then (False, srt)
          else if mp_start_address t2 > ctx_end ctx then (False, srt)
          else if (if mp_area t1 \<in> {MODBUS_AREA_COIL, MODBUS_AREA_INPUT}
                   then c_div (ctx_span ctx + 7) 8 \<ge> uint max_byte
                   else registers_full max_byte ctx t2) then (False, srt)
          else (True, srt\<lparr>ts_context := Some (ctx_extend t2 ctx)\<rparr>))"

definition point_tag_sort_write :: "u16 \<Rightarrow> (modbus_point_write, modbus_sort_ctx) neu_tag_sort_fn" where
  "point_tag_sort_write max_byte srt w1 w2 =
     (let t1 = pw_point w1; t2 = pw_point w2 in
      case ts_context srt of
        None \<Rightarrow> (True, srt\<lparr>ts_context := Some (ctx_new t1)\<rparr>)
      | Some ctx \<Rightarrow>
          if mp_slave_id t1 \<noteq> mp_slave_id t2 then (False, srt)
          else if mp_area t1 \<noteq> mp_area t2 then (False, srt)
          else if mp_start_address t2 > ctx_end ctx then (False, srt)
          else if (if mp_area t1 \<in> {MODBUS_AREA_COIL, MODBUS_AREA_INPUT}
                   then c_div (ctx_span ctx) 8 \<ge> uint max_byte - 1
                   else registers_full max_byte ctx t2) then (False, srt)
          else (True, srt\<lparr>ts_context := Some (ctx_extend t2 ctx)\<rparr>))"

section \<open>Read commands\<close>

record modbus_read_cmd =
  rc_slave_id :: u8
  rc_area :: modbus_area
  rc_start_address :: u16
  rc_n_register :: u16
  rc_tags :: "modbus_point list"

record modbus_read_cmd_sort =
  rs_n_cmd :: u16
  rs_cmd :: "modbus_read_cmd list"

text \<open>A group without a context would be a null dereference.\<close>

definition read_cmd_of :: "(modbus_point, modbus_sort_ctx) neu_tag_sort_t \<Rightarrow> modbus_read_cmd option" where
  "read_cmd_of s =
     (case ts_context s of
        None \<Rightarrow> None
      | Some ctx \<Rightarrow>
          let tag = hd (ts_tags s) in
          Some \<lparr>rc_slave_id = mp_slave_id tag, rc_area = mp_area tag,
                rc_start_address = mp_start_address tag,
                rc_n_register = ctx_end ctx - ctx_start ctx, rc_tags = ts_tags s\<rparr>)"

definition modbus_tag_sort :: "modbus_point list \<Rightarrow> u16 \<Rightarrow> modbus_read_cmd_sort option" where
  "modbus_tag_sort tags max_byte =
     (case neu_tag_sort tags (point_tag_sort max_byte) tag_cmp of
        None \<Rightarrow> None
      | Some result \<Rightarrow>
          (case those (map read_cmd_of (sorts result)) of
             None \<Rightarrow> None
           | Some cmds \<Rightarrow> Some \<lparr>rs_n_cmd = n_sort result, rs_cmd = cmds\<rparr>))"

section \<open>Byte orders of values\<close>

definition swap16_at :: "nat \<Rightarrow> neu_value_u \<Rightarrow> neu_value_u" where
  "swap16_at off v = store_bytes off (neu_ntohs_p (load_bytes off 2 v)) v"

definition modbus_convert_endianess :: "neu_value_u \<Rightarrow> modbus_endianess \<Rightarrow> neu_value_u" where
  "modbus_convert_endianess v endianess =
     (case endianess of
        MODBUS_ABCD \<Rightarrow> v
      | MODBUS_CDAB \<Rightarrow> swap16_at 2 (swap16_at 0 (set_value_u32 (htonl (value_u32 v)) v))
      | MODBUS_BADC \<Rightarrow> swap16_at 2 (swap16_at 0 v)
      | MODBUS_DCBA \<Rightarrow> set_value_u32 (htonl (value_u32 v)) v)"

definition modbus_convert_endianess_64 :: "neu_value_u \<Rightarrow> modbus_endianess_64 \<Rightarrow> neu_value_u" where
  "modbus_convert_endianess_64 v endianess_64 =
     (case endianess_64 of
        MODBUS_LL \<Rightarrow> v
      | MODBUS_BB \<Rightarrow> set_value_u64 (neu_htonll (value_u64 v)) v
      | MODBUS_LB \<Rightarrow> set_value_u64 (neu_htonlb (value_u64 v)) v
      | MODBUS_BL \<Rightarrow> set_value_u64 (neu_htonbl (value_u64 v)) v
      | MODBUS_WS \<Rightarrow> set_value_u64 (neu_htonws (value_u64 v)) v
      | MODBUS_WR \<Rightarrow> set_value_u64 (neu_htonwr (value_u64 v)) v)"

text \<open>
  \<^verbatim>\<open>cal_n_byte\<close> converts a value to wire order in place and gives its size; a type outside
  the switch is an assertion failure.
\<close>

definition cal_n_byte ::
    "neu_type_e \<Rightarrow> neu_value_u \<Rightarrow> addr_option \<Rightarrow> modbus_endianess \<Rightarrow> bool \<Rightarrow>
     modbus_endianess_64 \<Rightarrow> bool \<Rightarrow> (nat \<times> neu_value_u) option" where
  "cal_n_byte t v opt endianess default_tag_endian endianess_64 default_tag_endian_64 =
     (if t \<in> {NEU_TYPE_UINT16, NEU_TYPE_INT16}
      then Some (2, set_value_u16 (htons (value_u16 v)) v)
      else if t \<in> {NEU_TYPE_FLOAT, NEU_TYPE_UINT32, NEU_TYPE_INT32}
      then let v = (if default_tag_endian then modbus_convert_endianess v endianess else v)
           in Some (4, set_value_u32 (htonl (value_u32 v)) v)
      else if t \<in> {NEU_TYPE_DOUBLE, NEU_TYPE_INT64, NEU_TYPE_UINT64}
      then let v = (if default_tag_endian_64 then modbus_convert_endianess_64 v endianess_64 else v)
           in Some (8, set_value_u64 (neu_htonll (value_u64 v)) v)
      else if t = NEU_TYPE_BIT then Some (1, v)
      else if t = NEU_TYPE_STRING
      then (if opt_string_type opt = string_type_code NEU_DATATAG_STRING_TYPE_L
            then map_option (\<lambda>v. (unat (opt_string_length opt), v))
                   (neu_datatag_string_ltoh v (uint (opt_string_length opt)))
            else Some (unat (opt_string_length opt), v))
      else if t = NEU_TYPE_BYTES then Some (unat (opt_bytes_length opt), v)
      else None)"

section \<open>Write commands\<close>

record modbus_write_cmd =
  wc_slave_id :: u8
  wc_area :: modbus_area
  wc_start_address :: u16
  wc_n_register :: u16
  wc_n_byte :: u8
  wc_bytes :: bytes
  wc_tags :: "modbus_point_write list"

record modbus_write_cmd_sort =
  ws_n_cmd :: u16
  ws_cmd :: "modbus_write_cmd list"

text \<open>The locals of the loop over the tags of a command.\<close>

record write_acc =
  wa_bytes :: bytes
  wa_data_bit :: bytes
  wa_k :: nat
  wa_n_byte :: nat

definition write_tag_step ::
    "modbus_endianess \<Rightarrow> modbus_endianess_64 \<Rightarrow> modbus_point_write \<Rightarrow> modbus_point_write \<Rightarrow>
     write_acc \<Rightarrow> write_acc option" where
  "write_tag_step endianess endianess_64 tag tag_s acc =
     (let p = pw_point tag_s in
      if mp_area p = MODBUS_AREA_COIL
      then (case cal_n_byte (mp_type p) (pw_value tag_s) (mp_option p) endianess True endianess_64 True of
              None \<Rightarrow> None
            | Some (n, v) \<Rightarrow>
                let k = wa_k acc in
                Some (acc\<lparr>wa_data_bit := (wa_data_bit acc)[k div 8 :=
                                           wa_data_bit acc ! (k div 8) + push_bit (k mod 8) (v ! 0)],
                          wa_n_byte := wa_n_byte acc + n, wa_k := k + 1\<rparr>))
      else (case cal_n_byte (mp_type p) (pw_value tag_s) (mp_option p) endianess
                   (opt_value_is_default (mp_option p)) endianess_64
                   (opt_value_is_default (mp_option p)) of
              None \<Rightarrow> None
            | Some (n, v) \<Rightarrow>
                let off = 2 * (uint (mp_start_address p) - uint (mp_start_address (pw_point tag))) in
                if off < 0 \<or> nat off + n > length (wa_bytes acc) \<or> n > length v then None
                else Some (acc\<lparr>wa_bytes := store_bytes (nat off) (take n v) (wa_bytes acc),
                               wa_n_byte := wa_n_byte acc + n\<rparr>)))"

fun write_tags_loop ::
    "modbus_endianess \<Rightarrow> modbus_endianess_64 \<Rightarrow> modbus_point_write \<Rightarrow> modbus_point_write list \<Rightarrow>
     write_acc \<Rightarrow> write_acc option" where
  "write_tags_loop e e64 tag [] acc = Some acc"
| "write_tags_loop e e64 tag (t # ts) acc =
     (case write_tag_step e e64 tag t acc of
        None \<Rightarrow> None
      | Some acc \<Rightarrow> write_tags_loop e e64 tag ts acc)"

definition write_cmd_of ::
    "modbus_endianess \<Rightarrow> modbus_endianess_64 \<Rightarrow>
     (modbus_point_write, modbus_sort_ctx) neu_tag_sort_t \<Rightarrow> modbus_write_cmd option" where
  "write_cmd_of endianess endianess_64 s =
     (case ts_context s of
        None \<Rightarrow> None
      | Some ctx \<Rightarrow>
          let tag = hd (ts_tags s); num_tags = length (ts_tags s);
              acc = \<lparr>wa_bytes = replicate (num_tags * sizeof_value) 0,
                     wa_data_bit = replicate ((num_tags + 7) div 8) 0, wa_k = 0, wa_n_byte = 0\<rparr> in
          (case write_tags_loop endianess endianess_64 tag (ts_tags s) acc of
             None \<Rightarrow> None
           | Some acc \<Rightarrow>
               let bs = (if mp_area (pw_point tag) = MODBUS_AREA_COIL
                         then store_bytes 0 (take ((wa_k acc + 7) div 8) (wa_data_bit acc)) (wa_bytes acc)
                         else wa_bytes acc) in
               Some \<lparr>wc_slave_id = mp_slave_id (pw_point tag), wc_area = mp_area (pw_point tag),
                     wc_start_address = mp_start_address (pw_point tag),
                     wc_n_register = ctx_end ctx - ctx_start ctx,
                     wc_n_byte = of_nat (wa_n_byte acc), wc_bytes = bs, wc_tags = ts_tags s\<rparr>))"

definition modbus_write_tags_sort ::
    "modbus_point_write list \<Rightarrow> u16 \<Rightarrow> modbus_endianess \<Rightarrow> modbus_endianess_64 \<Rightarrow>
     modbus_write_cmd_sort option" where
  "modbus_write_tags_sort tags max_byte endianess endianess_64 =
     (case neu_tag_sort tags (point_tag_sort_write max_byte) tag_cmp_write of
        None \<Rightarrow> None
      | Some result \<Rightarrow>
          (case those (map (write_cmd_of endianess endianess_64) (sorts result)) of
             None \<Rightarrow> None
           | Some cmds \<Rightarrow> Some \<lparr>ws_n_cmd = n_sort result, ws_cmd = cmds\<rparr>))"

section \<open>The comparison functions are total preorders\<close>

lemma int_cmp_le: "int_cmp a b r \<le> 0 \<longleftrightarrow> a < b \<or> a = b \<and> r \<le> 0"
  by (auto simp: int_cmp_def)

interpretation read_cmp: list_comparator tag_cmp
  by unfold_locales (auto simp: tag_cmp_def int_cmp_le)

lemma tag_cmp_write_point: "tag_cmp_write w1 w2 = tag_cmp (pw_point w1) (pw_point w2)"
  by (simp add: tag_cmp_write_def tag_cmp_def Let_def)

interpretation write_cmp: list_comparator tag_cmp_write
  using read_cmp.total read_cmp.trans by unfold_locales (auto simp: tag_cmp_write_point)

section \<open>What a group covers\<close>

text \<open>
  \<open>groupable\<close> is what \<^verbatim>\<open>modbus_tag_to_point\<close> guarantees of a point: bits take one address and
  other values at most 127 registers. \<open>covers m ctx ps e\<close> says that the points \<open>ps\<close>, which all
  have the slave and area of the first, lie in the addresses from the start of the context
  up to \<open>e\<close>, that the 16-bit end of the context is \<open>e\<close> modulo \<open>2 ^ 16\<close>, and that the span is
  within the limit of a request.
\<close>

definition bits_area :: "modbus_area \<Rightarrow> bool" where
  "bits_area a \<longleftrightarrow> a \<in> {MODBUS_AREA_COIL, MODBUS_AREA_INPUT}"

definition groupable :: "u16 \<Rightarrow> modbus_point \<Rightarrow> bool" where
  "groupable max_byte t \<longleftrightarrow> max_byte \<le> 0x1fff \<and>
     (if bits_area (mp_area t) then mp_n_register t = 1 else mp_n_register t \<le> 127)"

definition span_limit :: "u16 \<Rightarrow> modbus_area \<Rightarrow> nat" where
  "span_limit max_byte a = (if bits_area a then max 1 (8 * unat max_byte) else max 127 (unat max_byte div 2))"

definition covers :: "u16 \<Rightarrow> modbus_sort_ctx \<Rightarrow> modbus_point list \<Rightarrow> nat \<Rightarrow> bool" where
  "covers max_byte ctx ps e \<longleftrightarrow>
     ctx_start ctx = mp_start_address (hd ps) \<and> ctx_end ctx = of_nat e \<and>
     unat (ctx_start ctx) \<le> e \<and>
     e - unat (ctx_start ctx) \<le> span_limit max_byte (mp_area (hd ps)) \<and>
     (\<forall>t \<in> set ps. mp_slave_id t = mp_slave_id (hd ps) \<and> mp_area t = mp_area (hd ps) \<and>
        unat (ctx_start ctx) \<le> unat (mp_start_address t) \<and>
        unat (mp_start_address t) + unat (mp_n_register t) \<le> e)"

lemma coversD:
  assumes "covers max_byte ctx ps e"
  shows "ctx_start ctx = mp_start_address (hd ps)" "unat (ctx_start ctx) \<le> e"
    "e - unat (ctx_start ctx) \<le> span_limit max_byte (mp_area (hd ps))"
    "t \<in> set ps \<Longrightarrow> mp_slave_id t = mp_slave_id (hd ps)" "t \<in> set ps \<Longrightarrow> mp_area t = mp_area (hd ps)"
    "t \<in> set ps \<Longrightarrow> unat (ctx_start ctx) \<le> unat (mp_start_address t)"
    "t \<in> set ps \<Longrightarrow> unat (mp_start_address t) + unat (mp_n_register t) \<le> e"
    "ctx_end ctx = of_nat e"
  using assms unfolding covers_def by blast+

lemma coversI:
  assumes "ctx_start ctx = mp_start_address (hd ps)" "ctx_end ctx = of_nat e" "unat (ctx_start ctx) \<le> e"
    "e - unat (ctx_start ctx) \<le> span_limit max_byte (mp_area (hd ps))"
    "\<And>t. t \<in> set ps \<Longrightarrow> mp_slave_id t = mp_slave_id (hd ps) \<and> mp_area t = mp_area (hd ps)"
    "\<And>t. t \<in> set ps \<Longrightarrow> unat (ctx_start ctx) \<le> unat (mp_start_address t) \<and>
      unat (mp_start_address t) + unat (mp_n_register t) \<le> e"
  shows "covers max_byte ctx ps e"
  unfolding covers_def using assms by blast

lemma span_limit_less: "groupable max_byte t \<Longrightarrow> span_limit max_byte a < 65536"
  by (auto simp: groupable_def span_limit_def word_le_nat_alt)

lemma covers_new:
  assumes "groupable max_byte t"
  shows "covers max_byte (ctx_new t) [t] (unat (mp_start_address t) + unat (mp_n_register t))"
  using assms
  by (auto simp: covers_def ctx_new_def span_limit_def groupable_def word_le_nat_alt)

text \<open>A point is accepted only by a context that has not wrapped.\<close>

lemma covers_end:
  assumes "covers max_byte ctx ps e" and "groupable max_byte t"
    and "unat (ctx_start ctx) \<le> unat (mp_start_address t)" and "\<not> mp_start_address t > ctx_end ctx"
  shows "e < 65536" "unat (ctx_end ctx) = e" "unat (mp_start_address t) \<le> e"
proof -
  let ?s = "unat (ctx_start ctx)"
  have e: "ctx_end ctx = of_nat e" "?s \<le> e" "e - ?s < 65536"
    using assms(1) span_limit_less [OF assms(2)] by (auto simp: covers_def intro: le_less_trans)
  have u: "unat (ctx_end ctx) = e mod 65536" by (simp add: e(1) unat_of_nat)
  have le: "unat (mp_start_address t) \<le> unat (ctx_end ctx)"
    using assms(4) by (simp add: word_le_nat_alt not_less)
  show e': "e < 65536"
  proof (rule ccontr)
    assume "\<not> e < 65536"
    moreover have "?s < 65536" by (rule unat_u16_less)
    ultimately have "e mod 65536 = e - 65536" using e(3) by (simp add: mod_if)
    with u le assms(3) e(3) \<open>\<not> e < 65536\<close> show False by linarith
  qed
  then show "unat (ctx_end ctx) = e" "unat (mp_start_address t) \<le> e" using u le by simp_all
qed

lemma covers_extend:
  assumes cov: "covers max_byte ctx ps e" and ok: "groupable max_byte t" and ne: "ps \<noteq> []"
    and same: "mp_slave_id t = mp_slave_id (hd ps)" "mp_area t = mp_area (hd ps)"
    and start: "unat (ctx_start ctx) \<le> unat (mp_start_address t)"
    and inside: "\<not> mp_start_address t > ctx_end ctx"
    and room: "e + unat (mp_n_register t) - unat (ctx_start ctx) \<le> span_limit max_byte (mp_area t)"
  shows "covers max_byte (ctx_extend t ctx) (ps @ [t])
     (max e (unat (mp_start_address t) + unat (mp_n_register t)))"
proof -
  note e = covers_end [OF cov ok start inside]
  let ?n = "unat (mp_start_address t) + unat (mp_n_register t)"
  have "uint (mp_start_address t) + uint (mp_n_register t) > uint (ctx_end ctx) \<longleftrightarrow> ?n > e"
    unfolding uint_nat e(2) by linarith
  then have ext: "ctx_extend t ctx = (if ?n > e then ctx\<lparr>ctx_end := of_nat ?n\<rparr> else ctx)"
    by (simp add: ctx_extend_def)
  have ctx: "ctx_start (ctx_extend t ctx) = ctx_start ctx" "ctx_end (ctx_extend t ctx) = of_nat (max e ?n)"
    using coversD(8) [OF cov] by (simp_all add: ext max_def)
  have hd: "hd (ps @ [t]) = hd ps" using ne by simp
  show ?thesis
  proof (rule coversI)
    show "ctx_start (ctx_extend t ctx) = mp_start_address (hd (ps @ [t]))"
      by (simp only: ctx hd coversD(1) [OF cov])
    show "ctx_end (ctx_extend t ctx) = of_nat (max e ?n)" by (rule ctx)
    show "unat (ctx_start (ctx_extend t ctx)) \<le> max e ?n"
      using coversD(2) [OF cov] by (simp only: ctx max.coboundedI1)
    show "max e ?n - unat (ctx_start (ctx_extend t ctx)) \<le> span_limit max_byte (mp_area (hd (ps @ [t])))"
      using room e(3) unfolding ctx hd same by linarith
  next
    fix u assume "u \<in> set (ps @ [t])"
    then have u: "u \<in> set ps \<or> u = t" by auto
    show "mp_slave_id u = mp_slave_id (hd (ps @ [t])) \<and> mp_area u = mp_area (hd (ps @ [t]))"
      unfolding hd using u same coversD(4,5) [OF cov] by blast
    show "unat (ctx_start (ctx_extend t ctx)) \<le> unat (mp_start_address u) \<and>
        unat (mp_start_address u) + unat (mp_n_register u) \<le> max e ?n"
      unfolding ctx using u start coversD(6,7) [OF cov] by (metis max.cobounded2 max.coboundedI1)
  qed
qed

lemma room_registers:
  assumes cov: "covers max_byte ctx ps e" and ok: "groupable max_byte t" and area: "\<not> bits_area (mp_area t)"
    and same: "mp_area t = mp_area (hd ps)" and e: "unat (ctx_end ctx) = e"
    and fits: "\<not> registers_full max_byte ctx t"
  shows "e + unat (mp_n_register t) - unat (ctx_start ctx) \<le> span_limit max_byte (mp_area t)"
proof -
  let ?s = "unat (ctx_start ctx)" let ?n = "unat (mp_n_register t)" let ?m = "unat max_byte"
  have le: "?s \<le> e" "e - ?s \<le> max 127 (?m div 2)"
    using coversD(2,3) [OF cov] area same by (simp_all add: span_limit_def)
  have b: "?n \<le> 127" "?m \<le> 0x1fff" using ok area by (simp_all add: groupable_def word_le_nat_alt)
  have "(ctx_end ctx - ctx_start ctx) * 2 + mp_n_register t * 2 = of_nat (2 * (e - ?s) + 2 * ?n)"
    using le(1) by (simp add: coversD(8) [OF cov] of_nat_diff)
  moreover have "2 * (e - ?s) + 2 * ?n < 65536" using le(2) b by linarith
  ultimately have "unat ((ctx_end ctx - ctx_start ctx) * 2 + mp_n_register t * 2) = 2 * (e - ?s) + 2 * ?n"
    by (simp only: unat_of_nat) simp
  with fits have "2 * (e - ?s) + 2 * ?n < ?m"
    by (simp add: registers_full_def Let_def word_le_nat_alt not_le)
  then show ?thesis using le(1) area by (simp add: span_limit_def)
qed

lemma room_bits:
  assumes cov: "covers max_byte ctx ps e" and ok: "groupable max_byte t" and area: "bits_area (mp_area t)"
    and e: "unat (ctx_end ctx) = e" and fits: "\<not> c_div (ctx_span ctx + 7) 8 \<ge> uint max_byte"
  shows "e + unat (mp_n_register t) - unat (ctx_start ctx) \<le> span_limit max_byte (mp_area t)"
proof -
  let ?s = "unat (ctx_start ctx)"
  have le: "?s \<le> e" by (rule coversD(2) [OF cov])
  then have "ctx_span ctx = int (e - ?s)" unfolding ctx_span_def uint_nat e by simp
  with fits have "(int (e - ?s) + 7) div 8 < int (unat max_byte)"
    unfolding uint_nat by (simp add: c_div_nonneg)
  then have "e - ?s + 7 < 8 * unat max_byte" by linarith
  then show ?thesis using le area ok by (simp add: span_limit_def groupable_def)
qed

lemma room_bits_write:
  assumes cov: "covers max_byte ctx ps e" and ok: "groupable max_byte t" and area: "bits_area (mp_area t)"
    and e: "unat (ctx_end ctx) = e" and fits: "\<not> c_div (ctx_span ctx) 8 \<ge> uint max_byte - 1"
  shows "e + unat (mp_n_register t) - unat (ctx_start ctx) \<le> span_limit max_byte (mp_area t)"
proof -
  let ?s = "unat (ctx_start ctx)"
  have le: "?s \<le> e" by (rule coversD(2) [OF cov])
  then have "ctx_span ctx = int (e - ?s)" unfolding ctx_span_def uint_nat e by simp
  with fits have "int (e - ?s) div 8 < int (unat max_byte) - 1"
    unfolding uint_nat by (simp add: c_div_nonneg)
  then have "e - ?s + 8 < 8 * unat max_byte" by linarith
  then show ?thesis using le area ok by (simp add: span_limit_def groupable_def)
qed

definition group_inv :: "u16 \<Rightarrow> ('t \<Rightarrow> modbus_point) \<Rightarrow> ('t, modbus_sort_ctx) neu_tag_sort_t \<Rightarrow> bool" where
  "group_inv max_byte proj s \<longleftrightarrow>
     (\<exists>ctx e. ts_context s = Some ctx \<and> covers max_byte ctx (map proj (ts_tags s)) e)"

lemma group_step:
  fixes proj :: "'t \<Rightarrow> modbus_point" and s :: "('t, modbus_sort_ctx) neu_tag_sort_t"
  assumes cov: "covers max_byte ctx (map proj (ts_tags s)) e" and ok: "groupable max_byte (proj t)"
    and ne: "ts_tags s \<noteq> []" and sorted: "\<forall>u \<in> set (ts_tags s). tag_cmp (proj u) (proj t) \<le> 0"
    and same: "mp_slave_id (proj (last (ts_tags s))) = mp_slave_id (proj t)"
      "mp_area (proj (last (ts_tags s))) = mp_area (proj t)"
    and inside: "\<not> mp_start_address (proj t) > ctx_end ctx"
    and room: "unat (ctx_end ctx) = e \<Longrightarrow>
      e + unat (mp_n_register (proj t)) - unat (ctx_start ctx) \<le> span_limit max_byte (mp_area (proj t))"
  shows "group_inv max_byte proj
     (s\<lparr>ts_context := Some (ctx_extend (proj t) ctx), ts_tags := ts_tags s @ [t], ts_size := n\<rparr>)"
proof -
  let ?ps = "map proj (ts_tags s)"
  have hd: "hd ?ps = proj (hd (ts_tags s))" "hd (ts_tags s) \<in> set (ts_tags s)" "proj (last (ts_tags s)) \<in> set ?ps"
    using ne by (simp_all add: hd_map)
  have sm: "mp_slave_id (proj t) = mp_slave_id (hd ?ps)" "mp_area (proj t) = mp_area (hd ?ps)"
    using coversD(4,5) [OF cov hd(3)] same by simp_all
  then have "unat (mp_start_address (hd ?ps)) \<le> unat (mp_start_address (proj t))"
    using sorted hd(1,2) by (fastforce simp: tag_cmp_def int_cmp_le)
  then have start: "unat (ctx_start ctx) \<le> unat (mp_start_address (proj t))"
    by (simp add: coversD(1) [OF cov])
  have "unat (ctx_end ctx) = e" by (rule covers_end [OF cov ok start inside])
  then have "covers max_byte (ctx_extend (proj t) ctx) (?ps @ [proj t])
      (max e (unat (mp_start_address (proj t)) + unat (mp_n_register (proj t))))"
    using ne by (intro covers_extend [OF cov ok _ sm start inside room]) simp_all
  then show ?thesis by (auto simp: group_inv_def)
qed

interpretation read_groups: tag_grouping tag_cmp "point_tag_sort max_byte" "group_inv max_byte id" "groupable max_byte"
  for max_byte
proof
  fix t b and s :: "(modbus_point, modbus_sort_ctx) neu_tag_sort_t"
  assume "groupable max_byte t"
    and "point_tag_sort max_byte \<lparr>ts_size = 1, ts_context = None, ts_tags = [t]\<rparr> t t = (b, s)"
  then show "group_inv max_byte id s \<and> ts_tags s = [t]"
    using covers_new [of max_byte t] by (auto simp: point_tag_sort_def group_inv_def)
next
  fix s t b s'
  assume inv: "group_inv max_byte id s" and ok: "groupable max_byte t" and ne: "ts_tags s \<noteq> []"
    and sorted: "\<forall>u \<in> set (ts_tags s). tag_cmp u t \<le> 0"
    and f: "point_tag_sort max_byte s (last (ts_tags s)) t = (b, s')"
  obtain ctx e where ctx: "ts_context s = Some ctx" and cov: "covers max_byte ctx (map id (ts_tags s)) e"
    using inv by (auto simp: group_inv_def)
  show "ts_tags s' = ts_tags s \<and>
      (if b then group_inv max_byte id (s'\<lparr>ts_tags := ts_tags s' @ [t], ts_size := ts_size s' + 1\<rparr>)
       else group_inv max_byte id s')"
  proof (cases b)
    case False
    then have "s' = s" using f ctx by (auto simp: point_tag_sort_def split: if_splits)
    then show ?thesis using inv False by simp
  next
    case True
    then have s': "s' = s\<lparr>ts_context := Some (ctx_extend t ctx)\<rparr>"
      and same: "mp_slave_id (last (ts_tags s)) = mp_slave_id t" "mp_area (last (ts_tags s)) = mp_area t"
      and inside: "\<not> mp_start_address t > ctx_end ctx"
      and room: "\<not> (if bits_area (mp_area t) then c_div (ctx_span ctx + 7) 8 \<ge> uint max_byte
                 else registers_full max_byte ctx t)"
      using f ctx by (auto simp: point_tag_sort_def bits_area_def split: if_splits)
    have "mp_area t = mp_area (hd (map id (ts_tags s)))"
      using coversD(5) [OF cov, of "last (ts_tags s)"] ne same(2) by simp
    then have "group_inv max_byte id
        (s\<lparr>ts_context := Some (ctx_extend (id t) ctx), ts_tags := ts_tags s @ [t], ts_size := ts_size s + 1\<rparr>)"
      using room_bits [OF cov ok] room_registers [OF cov ok] room sorted same inside ok
      by (intro group_step [OF cov _ ne]) (auto split: if_splits)
    then show ?thesis using True s' by simp
  qed
qed

interpretation write_groups: tag_grouping tag_cmp_write "point_tag_sort_write max_byte"
    "group_inv max_byte pw_point" "\<lambda>w. groupable max_byte (pw_point w)"
  for max_byte
proof
  fix t b and s :: "(modbus_point_write, modbus_sort_ctx) neu_tag_sort_t"
  assume "groupable max_byte (pw_point t)"
    and "point_tag_sort_write max_byte \<lparr>ts_size = 1, ts_context = None, ts_tags = [t]\<rparr> t t = (b, s)"
  then show "group_inv max_byte pw_point s \<and> ts_tags s = [t]"
    using covers_new [of max_byte "pw_point t"] by (auto simp: point_tag_sort_write_def group_inv_def)
next
  fix s t b s'
  assume inv: "group_inv max_byte pw_point s" and ok: "groupable max_byte (pw_point t)" and ne: "ts_tags s \<noteq> []"
    and sorted: "\<forall>u \<in> set (ts_tags s). tag_cmp_write u t \<le> 0"
    and f: "point_tag_sort_write max_byte s (last (ts_tags s)) t = (b, s')"
  obtain ctx e where ctx: "ts_context s = Some ctx" and cov: "covers max_byte ctx (map pw_point (ts_tags s)) e"
    using inv by (auto simp: group_inv_def)
  show "ts_tags s' = ts_tags s \<and>
      (if b then group_inv max_byte pw_point (s'\<lparr>ts_tags := ts_tags s' @ [t], ts_size := ts_size s' + 1\<rparr>)
       else group_inv max_byte pw_point s')"
  proof (cases b)
    case False
    then have "s' = s" using f ctx by (auto simp: point_tag_sort_write_def Let_def split: if_splits)
    then show ?thesis using inv False by simp
  next
    case True
    then have s': "s' = s\<lparr>ts_context := Some (ctx_extend (pw_point t) ctx)\<rparr>"
      and same: "mp_slave_id (pw_point (last (ts_tags s))) = mp_slave_id (pw_point t)"
        "mp_area (pw_point (last (ts_tags s))) = mp_area (pw_point t)"
      and inside: "\<not> mp_start_address (pw_point t) > ctx_end ctx"
      and room: "\<not> (if bits_area (mp_area (pw_point t)) then c_div (ctx_span ctx) 8 \<ge> uint max_byte - 1
                 else registers_full max_byte ctx (pw_point t))"
      using f ctx by (auto simp: point_tag_sort_write_def Let_def bits_area_def split: if_splits)
    have "mp_area (pw_point t) = mp_area (hd (map pw_point (ts_tags s)))"
      using coversD(5) [OF cov, of "pw_point (last (ts_tags s))"] ne same(2) by simp
    then have "group_inv max_byte pw_point (s\<lparr>ts_context := Some (ctx_extend (pw_point t) ctx),
        ts_tags := ts_tags s @ [t], ts_size := ts_size s + 1\<rparr>)"
      using room_bits_write [OF cov ok] room_registers [OF cov ok] room sorted same inside ok
      by (intro group_step [OF cov _ ne]) (auto simp: tag_cmp_write_point split: if_splits)
    then show ?thesis using True s' by simp
  qed
qed

text \<open>The command a read group becomes, with what the group invariant says about it.\<close>

definition cmd_covers :: "u16 \<Rightarrow> modbus_read_cmd \<Rightarrow> bool" where
  "cmd_covers max_byte c \<longleftrightarrow>
     rc_tags c \<noteq> [] \<and> unat (rc_n_register c) \<le> span_limit max_byte (rc_area c) \<and>
     (\<forall>t \<in> set (rc_tags c). mp_slave_id t = rc_slave_id c \<and> mp_area t = rc_area c \<and>
        rc_start_address c \<le> mp_start_address t \<and>
        unat (mp_start_address t - rc_start_address c) + unat (mp_n_register t) \<le> unat (rc_n_register c))"

lemma read_cmd_of_group:
  assumes inv: "group_inv max_byte id s" and ne: "ts_tags s \<noteq> []"
    and ok: "\<forall>t \<in> set (ts_tags s). groupable max_byte t"
  shows "\<exists>c. read_cmd_of s = Some c \<and> rc_tags c = ts_tags s \<and> cmd_covers max_byte c"
proof -
  from inv obtain ctx e where ctx: "ts_context s = Some ctx" and cov: "covers max_byte ctx (ts_tags s) e"
    by (auto simp: group_inv_def)
  let ?h = "hd (ts_tags s)"
  have lt: "e - unat (ctx_start ctx) < 65536"
    using coversD(3) [OF cov] span_limit_less [of max_byte ?h] ok ne by (meson hd_in_set le_less_trans)
  have "ctx_end ctx - ctx_start ctx = of_nat (e - unat (ctx_start ctx))"
    using coversD(2) [OF cov] by (simp add: coversD(8) [OF cov] of_nat_diff)
  then have reg: "unat (ctx_end ctx - ctx_start ctx) = e - unat (ctx_start ctx)"
    using lt by (simp add: unat_of_nat)
  have tag: "mp_start_address ?h \<le> mp_start_address t \<and>
      unat (mp_start_address t - mp_start_address ?h) + unat (mp_n_register t) \<le> unat (ctx_end ctx - ctx_start ctx)"
    if "t \<in> set (ts_tags s)" for t
  proof
    show le: "mp_start_address ?h \<le> mp_start_address t"
      using coversD(6) [OF cov that] by (simp add: coversD(1) [OF cov] word_le_nat_alt)
    have "unat (mp_start_address t - mp_start_address ?h) = unat (mp_start_address t) - unat (ctx_start ctx)"
      using unat_sub [OF le] coversD(1) [OF cov] by simp
    then show "unat (mp_start_address t - mp_start_address ?h) + unat (mp_n_register t) \<le> unat (ctx_end ctx - ctx_start ctx)"
      using coversD(6,7) [OF cov that] unfolding reg by linarith
  qed
  let ?c = "\<lparr>rc_slave_id = mp_slave_id ?h, rc_area = mp_area ?h, rc_start_address = mp_start_address ?h,
      rc_n_register = ctx_end ctx - ctx_start ctx, rc_tags = ts_tags s\<rparr>"
  have "cmd_covers max_byte ?c"
    unfolding cmd_covers_def modbus_read_cmd.simps
    using tag ne coversD(3-5) [OF cov] unfolding reg by blast
  moreover have "read_cmd_of s = Some ?c" by (simp add: read_cmd_of_def ctx Let_def)
  ultimately show ?thesis by (intro exI [of _ ?c]) simp
qed

lemma modbus_tag_sort_groups:
  assumes "length tags < 65536" and "\<forall>t \<in> set tags. groupable max_byte t"
  shows "\<exists>r. modbus_tag_sort tags max_byte = Some r \<and> unat (rs_n_cmd r) = length (rs_cmd r) \<and>
    mset (concat (map rc_tags (rs_cmd r))) = mset tags \<and> (\<forall>c \<in> set (rs_cmd r). cmd_covers max_byte c)"
proof -
  obtain r where r: "neu_tag_sort tags (point_tag_sort max_byte) tag_cmp = Some r"
    and n: "unat (n_sort r) = length (sorts r)"
    using neu_tag_sort_total [OF assms(1)] by blast
  note good = read_groups.neu_tag_sort_good [OF assms(2) r]
  have "set (ts_tags s) \<subseteq> set tags" if "s \<in> set (sorts r)" for s
    using that mset_eq_setD [OF good(2)] by auto
  then have "\<forall>s \<in> set (sorts r). \<exists>c. read_cmd_of s = Some c \<and> rc_tags c = ts_tags s \<and> cmd_covers max_byte c"
    using good(1) assms(2) by (intro ballI read_cmd_of_group) auto
  then obtain g where g: "\<forall>s \<in> set (sorts r). read_cmd_of s = Some (g s) \<and> rc_tags (g s) = ts_tags s \<and> cmd_covers max_byte (g s)"
    by metis
  then have "those (map read_cmd_of (sorts r)) = Some (map g (sorts r))"
    by (intro those_map_Some) simp
  then have "modbus_tag_sort tags max_byte = Some \<lparr>rs_n_cmd = n_sort r, rs_cmd = map g (sorts r)\<rparr>"
    by (simp add: modbus_tag_sort_def r)
  moreover have "map rc_tags (map g (sorts r)) = map ts_tags (sorts r)" using g by simp
  moreover have "\<forall>c \<in> set (map g (sorts r)). cmd_covers max_byte c" using g by simp
  ultimately show ?thesis
    using n good(2) by (intro exI [of _ "\<lparr>rs_n_cmd = n_sort r, rs_cmd = map g (sorts r)\<rparr>"])
      (simp del: map_map)
qed


section \<open>Addresses are parsed as written\<close>

text \<open>The types of one, two and four registers, and the text of an address.\<close>

fun value_registers :: "neu_type_e \<Rightarrow> nat" where
  "value_registers NEU_TYPE_INT16 = 1"
| "value_registers NEU_TYPE_UINT16 = 1"
| "value_registers NEU_TYPE_INT32 = 2"
| "value_registers NEU_TYPE_UINT32 = 2"
| "value_registers NEU_TYPE_FLOAT = 2"
| "value_registers NEU_TYPE_INT64 = 4"
| "value_registers NEU_TYPE_UINT64 = 4"
| "value_registers NEU_TYPE_DOUBLE = 4"
| "value_registers _ = 0"

definition modbus_address_text :: "nat \<Rightarrow> char \<Rightarrow> nat \<Rightarrow> string \<Rightarrow> string" where
  "modbus_address_text slave area addr sfx =
     show_nat slave @ CHR ''!'' # area # show_nat addr @ sfx"

lemma scan_address_text:
  assumes "slave < 256" and "addr < 2 ^ 32" and "no_digit sfx"
  shows "scan_address (modbus_address_text slave area addr sfx) =
    (Some (of_nat slave), Some area, Some (of_nat addr))"
proof -
  have "no_digit (CHR ''!'' # area # show_nat addr @ sfx)" by (simp add: no_digit_def is_digit_def)
  from scan_u_show [OF this, of slave, where 'a = 8] scan_u_show [OF assms(3), of addr, where 'a = 32] assms
  show ?thesis by (simp add: scan_address_def modbus_address_text_def)
qed

lemma point_start_address_spec:
  assumes "addr \<le> 65536" and "ab = base_0 \<Longrightarrow> addr < 65536" and "ab = base_1 \<Longrightarrow> 0 < addr"
  shows "unat (point_start_address (of_nat addr) ab) = addr - address_base_val ab"
proof -
  have u: "unat (of_nat addr :: u32) = addr" using assms(1) by (simp add: unat_of_nat)
  then have eq: "(of_nat addr :: u32) = 65536 \<longleftrightarrow> addr = 65536" "(of_nat addr :: u32) = 0 \<longleftrightarrow> addr = 0"
    by (simp_all add: word_unat_eq_iff)
  have c: "(ucast (of_nat addr :: u32) :: u16) = of_nat addr"
    by (rule bit_word_eqI) (simp add: bit_simps)
  show ?thesis
  proof (cases ab)
    case base_0
    then show ?thesis
      using assms(2) by (simp add: point_start_address_def eq c address_base_val_def unat_of_nat)
  next
    case base_1
    then have m: "(of_nat addr - 1 :: u16) = of_nat (addr - 1)" using assms(3) by (simp add: of_nat_diff)
    have "unat (of_nat addr - 1 :: u16) = addr - 1" unfolding m using assms(1) by (simp add: unat_of_nat)
    then show ?thesis
      using base_1 assms(3) by (simp add: point_start_address_def eq c address_base_val_def)
  qed
qed

lemma parse_value_type:
  assumes "value_registers (dt_type tag) > 0"
  shows "fst (neu_datatag_parse_addr_option tag opt) = 0"
  using assms by (cases "dt_type tag") (simp_all add: neu_datatag_parse_addr_option_def)

lemma set_n_register_value:
  assumes "value_registers (mp_type p) > 0" and "\<not> bits_area (mp_area p)"
  shows "set_n_register p = Inr (NEU_ERR_SUCCESS, p\<lparr>mp_n_register := of_nat (value_registers (mp_type p))\<rparr>)"
  using assms by (cases "mp_type p") (simp_all add: set_n_register_def bits_area_def Let_def)

lemma check_point_value:
  assumes "value_registers (mp_type p) > 0" and "\<not> bits_area (mp_area p)"
    and "mp_area p = MODBUS_AREA_INPUT_REGISTER \<Longrightarrow> \<not> neu_tag_attribute_test tag NEU_ATTRIBUTE_WRITE"
  shows "check_point tag p = NEU_ERR_SUCCESS"
  using assms by (cases "mp_type p"; cases "mp_area p")
    (simp_all add: check_point_def bits_area_def Let_def neu_tag_attribute_test_def)


section \<open>Instances\<close>

definition sample_point :: "u16 \<Rightarrow> modbus_point" where
  "sample_point a = \<lparr>mp_slave_id = 1, mp_area = MODBUS_AREA_HOLD_REGISTER, mp_start_address = a, mp_n_register = 1,
      mp_type = NEU_TYPE_UINT16, mp_option = zero_option, mp_name = ''t''\<rparr>"

lemma sample_point_groupable [simp]: "groupable 250 (sample_point a)"
  by (simp add: groupable_def sample_point_def bits_area_def)



end
