(* ===== verification/Modbus_Stack.thy ===== *)
theory Modbus_Stack
  imports Modbus_Point
begin

unbundle bit_operations_syntax

text \<open>
  \<^verbatim>\<open>plugins/modbus/modbus_stack.c\<close>: the protocol stack of the Modbus driver. It builds read and
  write requests for TCP and RTU, and takes responses apart. The three callbacks of the
  stack are events of the model; the result of sending is an argument, a function of the
  bytes sent. Tracing is left out.
\<close>

section \<open>State and events\<close>

datatype modbus_protocol_e = MODBUS_PROTOCOL_TCP | MODBUS_PROTOCOL_RTU

record modbus_stack =
  st_protocol :: modbus_protocol_e
  st_read_seq :: u16
  st_write_seq :: u16
  st_buf :: bytes
  st_buf_size :: u16

text \<open>
  \<open>Ev_send\<close> is a call of \<^verbatim>\<open>send_fn\<close>, \<open>Ev_value\<close> of \<^verbatim>\<open>value_fn\<close> with the slave, the data bytes and
  the error, and \<open>Ev_write_resp\<close> of \<^verbatim>\<open>write_resp\<close>.
\<close>

datatype modbus_event =
    Ev_send bytes
  | Ev_value u8 bytes neu_err
  | Ev_write_resp neu_err

definition modbus_stack_create :: "modbus_protocol_e \<Rightarrow> modbus_stack" where
  "modbus_stack_create protocol =
     \<lparr>st_protocol = protocol, st_read_seq = 0, st_write_seq = 0, st_buf = replicate 256 0,
      st_buf_size = 256\<rparr>"

definition modbus_stack_is_rtu :: "modbus_stack \<Rightarrow> bool" where
  "modbus_stack_is_rtu stack \<longleftrightarrow> st_protocol stack = MODBUS_PROTOCOL_RTU"

definition MODBUS_DEVICE_ERR :: int where "MODBUS_DEVICE_ERR = -2"

definition MODBUS_READS :: "u8 list" where
  "MODBUS_READS = [MODBUS_READ_COIL, MODBUS_READ_INPUT, MODBUS_READ_HOLD_REG, MODBUS_READ_INPUT_REG]"

definition MODBUS_ERRS :: "u8 list" where
  "MODBUS_ERRS = [0x81, 0x82, 0x83, 0x84, 0x85, 0x86, 0x90, 0x8F]"

section \<open>Responses\<close>

text \<open>
  The body of a read response: the data bytes are taken off the buffer and handed on. On
  TCP a count of 255 means that the length of the header decides.
\<close>

definition recv_read ::
    "modbus_protocol_e \<Rightarrow> modbus_header \<Rightarrow> modbus_code \<Rightarrow> protocol_buf \<Rightarrow>
     (modbus_event list \<times> protocol_buf) option" where
  "recv_read protocol header code buf =
     (let (ret, n_byte, buf) = modbus_data_unwrap buf 0 in
      if ret \<le> 0 then None
      else let n = (if protocol = MODBUS_PROTOCOL_TCP \<and> n_byte = 0xff
                    then mh_len header - 2 - 1 else ucast n_byte)
           in case neu_protocol_unpack_buf buf n of
                (None, _) \<Rightarrow> None
              | (Some p, buf) \<Rightarrow>
                  Some ([Ev_value (mc_slave_id code) (load_bytes p (unat n) (base buf)) NEU_ERR_SUCCESS],
                        buf))"

definition recv_crc :: "modbus_protocol_e \<Rightarrow> modbus_event list \<Rightarrow> protocol_buf \<Rightarrow> int \<times> modbus_event list" where
  "recv_crc protocol evs buf =
     (if protocol = MODBUS_PROTOCOL_RTU
      then let (ret, crc, buf) = modbus_crc_unwrap buf 0
           in if ret \<le> 0 then (-1, evs)
              else (uint (neu_protocol_unpack_buf_used_size buf), evs)
      else (uint (neu_protocol_unpack_buf_used_size buf), evs))"

definition recv_body ::
    "modbus_protocol_e \<Rightarrow> u8 \<Rightarrow> modbus_header \<Rightarrow> protocol_buf \<Rightarrow> int \<times> modbus_event list" where
  "recv_body protocol slave_id header buf =
     (let (ret, code, buf) = modbus_code_unwrap buf \<lparr>mc_slave_id = 0, mc_function = 0\<rparr>;
          f = mc_function code in
      if ret \<le> 0 then (-1, [])
      else if mc_slave_id code \<noteq> slave_id then (-1, [])
      else if f \<in> set MODBUS_READS
      then (case recv_read protocol header code buf of
              None \<Rightarrow> (-1, [])
            | Some (evs, buf) \<Rightarrow> recv_crc protocol evs buf)
      else if f \<in> {MODBUS_WRITE_S_COIL, MODBUS_WRITE_M_HOLD_REG, MODBUS_WRITE_M_COIL}
      then (let (ret, address, buf) =
                  modbus_address_unwrap buf \<lparr>ma_start_address = 0, ma_n_reg = 0\<rparr>
            in if ret \<le> 0 then (-1, []) else recv_crc protocol [] buf)
      else if f \<in> set MODBUS_ERRS then (MODBUS_DEVICE_ERR, [])
      else if f = MODBUS_WRITE_S_HOLD_REG then recv_crc protocol [] buf
      else (-1, []))"

definition zero_header :: modbus_header where
  "zero_header = \<lparr>mh_seq = 0, mh_protocol = 0, mh_len = 0\<rparr>"

text \<open>
  \<open>check_header\<close> is the setting of the plugin. The comparisons of the sequence numbers are
  in \<^verbatim>\<open>int\<close>, without wrap-around.
\<close>

definition modbus_stack_recv ::
    "bool \<Rightarrow> modbus_stack \<Rightarrow> u8 \<Rightarrow> protocol_buf \<Rightarrow> int \<times> modbus_event list" where
  "modbus_stack_recv check_header stack slave_id buf =
     (case st_protocol stack of
        MODBUS_PROTOCOL_TCP \<Rightarrow>
          let (ret, header, buf) = modbus_header_unwrap buf zero_header in
          if ret \<le> 0 then (-1, [])
          else if check_header \<and> uint (mh_seq header) + 1 \<noteq> uint (st_read_seq stack) \<and>
                  uint (mh_seq header) + 1 \<noteq> uint (st_write_seq stack)
          then (-1, [])
          else recv_body (st_protocol stack) slave_id header buf
      | MODBUS_PROTOCOL_RTU \<Rightarrow> recv_body (st_protocol stack) slave_id zero_header buf)"

section \<open>Read requests\<close>

definition read_function :: "modbus_area \<Rightarrow> u8" where
  "read_function area = (case area of
       MODBUS_AREA_COIL \<Rightarrow> MODBUS_READ_COIL
     | MODBUS_AREA_INPUT \<Rightarrow> MODBUS_READ_INPUT
     | MODBUS_AREA_INPUT_REGISTER \<Rightarrow> MODBUS_READ_INPUT_REG
     | MODBUS_AREA_HOLD_REGISTER \<Rightarrow> MODBUS_READ_HOLD_REG)"

definition read_data_size :: "modbus_area \<Rightarrow> u16 \<Rightarrow> u16" where
  "read_data_size area n_reg =
     (if area \<in> {MODBUS_AREA_COIL, MODBUS_AREA_INPUT}
      then n_reg div 8 + (if n_reg mod 8 > 0 then 1 else 0) else n_reg * 2)"

text \<open>
  The last part of a request: the TCP header with the sequence number, or the checksum. The
  sequence number is counted up only on TCP.
\<close>

definition finish_request :: "modbus_protocol_e \<Rightarrow> u16 \<Rightarrow> protocol_buf \<Rightarrow> (protocol_buf \<times> u16) option" where
  "finish_request protocol seq pbuf =
     (case protocol of
        MODBUS_PROTOCOL_TCP \<Rightarrow> map_option (\<lambda>b. (b, seq + 1)) (modbus_header_wrap pbuf seq)
      | MODBUS_PROTOCOL_RTU \<Rightarrow> map_option (\<lambda>b. (b, seq)) (modbus_crc_set pbuf))"

definition start_request :: "modbus_protocol_e \<Rightarrow> protocol_buf \<Rightarrow> protocol_buf option" where
  "start_request protocol pbuf =
     (case protocol of
        MODBUS_PROTOCOL_TCP \<Rightarrow> Some pbuf
      | MODBUS_PROTOCOL_RTU \<Rightarrow> modbus_crc_wrap pbuf)"

text \<open>What \<^verbatim>\<open>send_fn\<close> is given: the bytes from the cursor, as many as are used.\<close>

definition sent_bytes :: "protocol_buf \<Rightarrow> bytes" where
  "sent_bytes pbuf =
     take (unat (neu_protocol_pack_buf_used_size pbuf)) (drop (neu_protocol_pack_buf_get pbuf) (base pbuf))"

definition trailer_size :: "modbus_protocol_e \<Rightarrow> u16" where
  "trailer_size protocol = (case protocol of MODBUS_PROTOCOL_TCP \<Rightarrow> 6 | MODBUS_PROTOCOL_RTU \<Rightarrow> 2)"

text \<open>
  \<open>mem\<close> is the thread's static 16-byte buffer and \<open>send\<close> the outcome of sending a frame. The
  result is the return value, the response size, the stack and the calls made; \<open>None\<close> is a
  failed assertion.
\<close>

definition modbus_stack_read ::
    "(bytes \<Rightarrow> int) \<Rightarrow> bytes \<Rightarrow> modbus_stack \<Rightarrow> u8 \<Rightarrow> modbus_area \<Rightarrow> u16 \<Rightarrow> u16 \<Rightarrow> bool \<Rightarrow>
     (int \<times> u16 \<times> modbus_stack \<times> modbus_event list) option" where
  "modbus_stack_read send mem stack slave_id area start_address n_reg is_test =
     (let pbuf = neu_protocol_pack_buf_init mem 16; protocol = st_protocol stack in
      case start_request protocol pbuf of None \<Rightarrow> None | Some pbuf \<Rightarrow>
      (case modbus_address_wrap pbuf start_address n_reg MODBUS_ACTION_DEFAULT of None \<Rightarrow> None | Some pbuf \<Rightarrow>
      (case modbus_code_wrap pbuf slave_id (read_function area) of None \<Rightarrow> None | Some pbuf \<Rightarrow>
      (case finish_request protocol (st_read_seq stack) pbuf of None \<Rightarrow> None | Some (pbuf, seq) \<Rightarrow>
         let response_size = read_data_size area n_reg + 2 + 1 + trailer_size protocol;
             frame = sent_bytes pbuf; ret = send frame
         in Some (ret, response_size, stack\<lparr>st_read_seq := seq\<rparr>,
                  Ev_send frame #
                  (if ret \<le> 0 \<and> \<not> is_test then [Ev_value 0 [] NEU_ERR_PLUGIN_DISCONNECTED] else []))))))"

section \<open>Write requests\<close>

text \<open>
  The switch of \<^verbatim>\<open>modbus_stack_write\<close> over the area. A coil write of more than one byte is a
  write of \<open>n_byte\<close> coils. An area that cannot be written is reported and the request goes
  out without a body.
\<close>

definition write_body ::
    "u8 \<Rightarrow> modbus_area \<Rightarrow> u16 \<Rightarrow> u16 \<Rightarrow> bytes \<Rightarrow> u8 \<Rightarrow> protocol_buf \<Rightarrow>
     (protocol_buf \<times> modbus_event list) option" where
  "write_body slave_id area start_address n_reg bs n_byte pbuf =
     (if area = MODBUS_AREA_COIL
      then if n_byte > 1
           then (case modbus_data_wrap pbuf (of_nat ((unat n_byte + 7) div 8)) bs MODBUS_ACTION_DEFAULT of
                   None \<Rightarrow> None | Some pbuf \<Rightarrow>
                (case modbus_address_wrap pbuf start_address (ucast n_byte) MODBUS_ACTION_DEFAULT of
                   None \<Rightarrow> None | Some pbuf \<Rightarrow>
                 map_option (\<lambda>b. (b, [])) (modbus_code_wrap pbuf slave_id MODBUS_WRITE_M_COIL)))
           else (case modbus_address_wrap pbuf start_address (if bs ! 0 > 0 then 0xff00 else 0)
                        MODBUS_ACTION_DEFAULT of
                   None \<Rightarrow> None | Some pbuf \<Rightarrow>
                 map_option (\<lambda>b. (b, [])) (modbus_code_wrap pbuf slave_id MODBUS_WRITE_S_COIL))
      else if area = MODBUS_AREA_HOLD_REGISTER
      then (case modbus_data_wrap pbuf n_byte bs MODBUS_ACTION_HOLD_REG_WRITE of
              None \<Rightarrow> None | Some pbuf \<Rightarrow>
           (case modbus_address_wrap pbuf start_address n_reg MODBUS_ACTION_HOLD_REG_WRITE of
              None \<Rightarrow> None | Some pbuf \<Rightarrow>
            map_option (\<lambda>b. (b, []))
              (modbus_code_wrap pbuf slave_id
                 (if n_reg > 1 then MODBUS_WRITE_M_HOLD_REG else MODBUS_WRITE_S_HOLD_REG))))
      else Some (pbuf, [Ev_write_resp NEU_ERR_PLUGIN_TAG_NOT_ALLOW_WRITE]))"

definition modbus_stack_write ::
    "(bytes \<Rightarrow> int) \<Rightarrow> modbus_stack \<Rightarrow> u8 \<Rightarrow> modbus_area \<Rightarrow> u16 \<Rightarrow> u16 \<Rightarrow> bytes \<Rightarrow> u8 \<Rightarrow> u16 \<Rightarrow> bool \<Rightarrow>
     (int \<times> u16 \<times> modbus_stack \<times> modbus_event list) option" where
  "modbus_stack_write send stack slave_id area start_address n_reg bs n_byte response_size response =
     (let mem = replicate (unat (st_buf_size stack)) 0;
          pbuf = neu_protocol_pack_buf_init mem (st_buf_size stack); protocol = st_protocol stack in
      case start_request protocol pbuf of None \<Rightarrow> None | Some pbuf \<Rightarrow>
      (case write_body slave_id area start_address n_reg bs n_byte pbuf of None \<Rightarrow> None | Some (pbuf, evs) \<Rightarrow>
      (case finish_request protocol (st_write_seq stack) pbuf of None \<Rightarrow> None | Some (pbuf, seq) \<Rightarrow>
         let frame = sent_bytes pbuf; ret = send frame
         in Some (ret, response_size + 2 + 4 + trailer_size protocol,
                  stack\<lparr>st_write_seq := seq, st_buf := base pbuf\<rparr>,
                  evs @ Ev_send frame #
                  (if response
                   then [Ev_write_resp (if ret > 0 then NEU_ERR_SUCCESS else NEU_ERR_PLUGIN_DISCONNECTED)]
                   else [])))))"

section \<open>Requests on the wire\<close>

text \<open>
  The frames of the Modbus specification: on TCP the header and the protocol data unit, on
  RTU the data unit and its checksum, low byte first.
\<close>

lemma sent_pending: "buf_ok b \<Longrightarrow> sent_bytes b = pending b"
  using unat_used_size [of b]
  by (simp add: sent_bytes_def neu_protocol_pack_buf_get_def pending_def)

lemma pack_init:
  assumes "length mem = unat sz"
  shows "buf_ok (neu_protocol_pack_buf_init mem sz)" "pending (neu_protocol_pack_buf_init mem sz) = []"
    "boffset (neu_protocol_pack_buf_init mem sz) = sz"
  using assms by (simp_all add: buf_ok_def pending_def neu_protocol_pack_buf_init_def)

definition modbus_adu :: "modbus_protocol_e \<Rightarrow> u16 \<Rightarrow> bytes \<Rightarrow> bytes" where
  "modbus_adu protocol seq pdu =
     (case protocol of
        MODBUS_PROTOCOL_TCP \<Rightarrow> header_bytes seq pdu @ pdu
      | MODBUS_PROTOCOL_RTU \<Rightarrow> pdu @ le_bytes 2 (crc_bitwise pdu))"

definition next_seq :: "modbus_protocol_e \<Rightarrow> u16 \<Rightarrow> u16" where
  "next_seq protocol seq = (case protocol of MODBUS_PROTOCOL_TCP \<Rightarrow> seq + 1 | MODBUS_PROTOCOL_RTU \<Rightarrow> seq)"

definition trailer :: "modbus_protocol_e \<Rightarrow> bytes" where
  "trailer protocol = (case protocol of MODBUS_PROTOCOL_TCP \<Rightarrow> [] | MODBUS_PROTOCOL_RTU \<Rightarrow> [0, 0])"

lemma start_request_spec:
  assumes "buf_ok b" and "pending b = []" and "2 \<le> unat (boffset b)"
  obtains b' where "start_request protocol b = Some b'" "buf_ok b'" "pending b' = trailer protocol"
    "unat (boffset b') + length (trailer protocol) = unat (boffset b)"
proof (cases protocol)
  case MODBUS_PROTOCOL_TCP
  then show thesis using that [of b] assms by (simp add: start_request_def trailer_def)
next
  case MODBUS_PROTOCOL_RTU
  from wrapsE [OF crc_wrap_enc [OF assms(1,3)] assms(1)] obtain b' where
    "modbus_crc_wrap b = Some b'" "buf_ok b'" "pending b' = [0, 0] @ pending b"
    "unat (boffset b) = unat (boffset b') + length [0::u8, 0]" .
  then show thesis
    using MODBUS_PROTOCOL_RTU assms(2) that [of b'] by (simp add: start_request_def trailer_def)
qed

lemma finish_request_spec:
  assumes "buf_ok b" and "pending b = pdu @ trailer protocol" and "6 \<le> unat (boffset b)"
  obtains b' where "finish_request protocol seq b = Some (b', next_seq protocol seq)"
    "sent_bytes b' = modbus_adu protocol seq pdu" "buf_ok b'"
proof (cases protocol)
  case MODBUS_PROTOCOL_TCP
  from wrapsE [OF header_wrap_enc [OF assms(1,3)] assms(1)] obtain b' where
    "modbus_header_wrap b seq = Some b'" "buf_ok b'" "pending b' = header_bytes seq (pending b) @ pending b"
    by metis
  then show thesis
    using MODBUS_PROTOCOL_TCP assms(2) that [of b']
    by (simp add: finish_request_def next_seq_def trailer_def modbus_adu_def sent_pending)
next
  case MODBUS_PROTOCOL_RTU
  with assms(2) have "pending b = pdu @ [0, 0]" by (simp add: trailer_def)
  from crc_set_spec [OF assms(1) this] obtain b' where
    "modbus_crc_set b = Some b'" "buf_ok b'" "pending b' = pdu @ le_bytes 2 (calcrc pdu)" by auto
  then show thesis
    using MODBUS_PROTOCOL_RTU that [of b']
    by (simp add: finish_request_def next_seq_def modbus_adu_def sent_pending calcrc_bitwise)
qed

definition word_hi :: "u16 \<Rightarrow> u8" where
  "word_hi w = ucast (drop_bit 8 w)"

definition word_lo :: "u16 \<Rightarrow> u8" where
  "word_lo w = ucast w"

lemma word_bytes: "le_bytes 2 w = [word_lo w, word_hi w]"
  by (simp add: word_lo_def word_hi_def numeral_2_eq_2)

lemma word_six: "word_hi 6 = 0" "word_lo 6 = 6"
  by (simp_all add: word_hi_def word_lo_def)

definition read_pdu :: "u8 \<Rightarrow> modbus_area \<Rightarrow> u16 \<Rightarrow> u16 \<Rightarrow> bytes" where
  "read_pdu slave_id area start n = [slave_id, read_function area] @ address_bytes start n"

lemma modbus_stack_read_adu:
  assumes "length mem = 16"
  shows "modbus_stack_read send mem stack slave_id area start n is_test =
    (let adu = modbus_adu (st_protocol stack) (st_read_seq stack) (read_pdu slave_id area start n)
     in Some (send adu,
          read_data_size area n + 2 + 1 + trailer_size (st_protocol stack),
          stack\<lparr>st_read_seq := next_seq (st_protocol stack) (st_read_seq stack)\<rparr>,
          Ev_send adu #
            (if send adu \<le> 0 \<and> \<not> is_test then [Ev_value 0 [] NEU_ERR_PLUGIN_DISCONNECTED] else [])))"
proof -
  let ?p = "st_protocol stack"
  let ?b = "neu_protocol_pack_buf_init mem 16"
  have init: "buf_ok ?b" "pending ?b = []" "boffset ?b = 16" using assms pack_init [of mem 16] by simp_all
  obtain b1 where b1: "start_request ?p ?b = Some b1" "buf_ok b1" "pending b1 = trailer ?p"
    "unat (boffset b1) + length (trailer ?p) = 16"
    using start_request_spec [OF init(1,2), of ?p] init(3) by auto
  have tr: "length (trailer ?p) \<le> 2" by (simp add: trailer_def split: modbus_protocol_e.split)
  have "wraps b1 (modbus_address_wrap b1 start n MODBUS_ACTION_DEFAULT) (address_bytes start n)"
    using b1(4) tr by (intro address_wrap_enc [OF b1(2)]) simp_all
  from wrapsE [OF this b1(2)] obtain b2 where b2: "modbus_address_wrap b1 start n MODBUS_ACTION_DEFAULT = Some b2"
    "buf_ok b2" "pending b2 = address_bytes start n @ pending b1"
    "unat (boffset b1) = unat (boffset b2) + length (address_bytes start n)" .
  have "wraps b2 (modbus_code_wrap b2 slave_id (read_function area)) [slave_id, read_function area]"
    using b1(4) b2(4) tr by (intro code_wrap_enc [OF b2(2)]) simp
  from wrapsE [OF this b2(2)] obtain b3 where b3: "modbus_code_wrap b2 slave_id (read_function area) = Some b3"
    "buf_ok b3" "pending b3 = [slave_id, read_function area] @ pending b2"
    "unat (boffset b2) = unat (boffset b3) + length [slave_id, read_function area]" .
  have "pending b3 = read_pdu slave_id area start n @ trailer ?p" "6 \<le> unat (boffset b3)"
    using b1(3,4) b2(3,4) b3(3,4) tr by (simp_all add: read_pdu_def)
  from finish_request_spec [OF b3(2) this, of "st_read_seq stack"] obtain b4 where
    "finish_request ?p (st_read_seq stack) b3 = Some (b4, next_seq ?p (st_read_seq stack))"
    "sent_bytes b4 = modbus_adu ?p (st_read_seq stack) (read_pdu slave_id area start n)" by blast
  then show ?thesis
    using b1(1) b2(1) b3(1) by (simp add: modbus_stack_read_def Let_def)
qed

text \<open>
  C11: A read request never aborts and puts exactly the frame of the Modbus specification on
  the wire for every slave, area, address and count: on TCP the sequence number, a zero
  protocol, the length 6, and the request, with 16-bit numbers high byte first; on RTU the
  request and its checksum low byte first.
\<close>

theorem modbus_stack_read_wire:
  assumes "length mem = 16"
  shows "\<exists>sz stack' evs frame. modbus_stack_read send mem stack slave_id area start n is_test =
      Some (send frame, sz, stack', Ev_send frame # evs) \<and>
    (let pdu = [slave_id, read_function area, word_hi start, word_lo start, word_hi n, word_lo n]
     in frame = (case st_protocol stack of
          MODBUS_PROTOCOL_TCP \<Rightarrow>
            [word_hi (st_read_seq stack), word_lo (st_read_seq stack), 0, 0, 0, 6] @ pdu
        | MODBUS_PROTOCOL_RTU \<Rightarrow> pdu @ [word_lo (crc_bitwise pdu), word_hi (crc_bitwise pdu)]))"
  unfolding modbus_stack_read_adu [OF assms] Let_def
  by (simp add: modbus_adu_def read_pdu_def header_bytes_def address_bytes_def word_bytes word_six
      split: modbus_protocol_e.split)

section \<open>Responses\<close>

definition read_response :: "u8 \<Rightarrow> u8 \<Rightarrow> bytes \<Rightarrow> bytes" where
  "read_response slave_id func data = [slave_id, func, of_nat (length data)] @ data"

definition recv_frame :: "modbus_protocol_e \<Rightarrow> u16 \<Rightarrow> bytes \<Rightarrow> bytes \<Rightarrow> bytes" where
  "recv_frame protocol seq pdu crc =
     (case protocol of MODBUS_PROTOCOL_TCP \<Rightarrow> header_bytes seq pdu @ pdu | MODBUS_PROTOCOL_RTU \<Rightarrow> pdu @ crc)"

lemma recv_read_enc:
  assumes ok: "buf_ok u" and pen: "pending u = of_nat (length data) # data @ p" and len: "length data < 255"
  shows "\<exists>u'. recv_read protocol header code u =
      Some ([Ev_value (mc_slave_id code) data NEU_ERR_SUCCESS], u') \<and> buf_ok u' \<and> pending u' = p \<and>
      bsize u' = bsize u"
proof -
  let ?n = "of_nat (length data) :: u8"
  have n: "unat ?n = length data" "?n \<noteq> 0xff"
    using len by (simp_all add: unat_of_nat word_unat_eq_iff)
  from data_unwrap_enc [OF ok pen, of 0] n(1) obtain u1 where
    u1: "modbus_data_unwrap u 0 = (1, ?n, u1)" "buf_ok u1" "pending u1 = data @ p" "bsize u1 = bsize u" by auto
  have "unat (ucast ?n :: u16) = length data" by (simp add: unat_ucast_u8 n(1))
  with unpack_front [OF u1(2,3), of "ucast ?n"] obtain i u2 where
    u2: "neu_protocol_unpack_buf u1 (ucast ?n) = (Some i, u2)" "buf_ok u2" "pending u2 = p"
      "load_bytes i (unat (ucast ?n :: u16)) (base u2) = data" "bsize u2 = bsize u1"
    by metis
  show ?thesis
    using u1(1,4) u2 n(2) by (simp add: recv_read_def)
qed

lemma used_size_all: "buf_ok u \<Longrightarrow> pending u = [] \<Longrightarrow> neu_protocol_unpack_buf_used_size u = bsize u"
  using length_pending [of u]
  by (simp add: neu_protocol_unpack_buf_used_size_def buf_ok_def word_le_nat_alt word_unat_eq_iff)

lemma recv_crc_enc:
  assumes ok: "buf_ok u" and pen: "pending u = crc" and len: "length crc = length (trailer protocol)"
  shows "recv_crc protocol evs u = (uint (bsize u), evs)"
proof (cases protocol)
  case MODBUS_PROTOCOL_TCP
  then show ?thesis using assms used_size_all [OF ok] by (simp add: recv_crc_def trailer_def)
next
  case MODBUS_PROTOCOL_RTU
  then have "length crc = 2" using len by (simp add: trailer_def)
  then have "le_bytes 2 (le_word crc :: u16) = crc" by (simp add: byte_simps)
  then obtain u' where "modbus_crc_unwrap u 0 = (2, le_word crc, u')" "buf_ok u'" "pending u' = []" "bsize u' = bsize u"
    using crc_unwrap_enc [OF ok, of "le_word crc" "[]" 0] pen by auto
  then show ?thesis
    using MODBUS_PROTOCOL_RTU used_size_all [of u'] by (simp add: recv_crc_def)
qed

lemma recv_body_enc:
  assumes ok: "buf_ok u" and pen: "pending u = read_response slave_id func data @ crc"
    and func: "func \<in> set MODBUS_READS" and len: "length data < 255" "length crc = length (trailer protocol)"
  shows "recv_body protocol slave_id header u = (uint (bsize u), [Ev_value slave_id data NEU_ERR_SUCCESS])"
proof -
  let ?c = "\<lparr>mc_slave_id = slave_id, mc_function = func\<rparr>"
  obtain u1 where u1: "modbus_code_unwrap u \<lparr>mc_slave_id = 0, mc_function = 0\<rparr> = (2, ?c, u1)"
    "buf_ok u1" "pending u1 = of_nat (length data) # data @ crc" "bsize u1 = bsize u"
    using code_codec.unwrap_enc [OF ok, of "(slave_id, func)" "of_nat (length data) # data @ crc"] pen
    by (auto simp: read_response_def)
  from recv_read_enc [OF u1(2,3) len(1), of protocol header ?c] obtain u2 where
    u2: "recv_read protocol header ?c u1 = Some ([Ev_value slave_id data NEU_ERR_SUCCESS], u2)"
      "buf_ok u2" "pending u2 = crc" "bsize u2 = bsize u1" by auto
  show ?thesis
    using u1(1,4) u2 func recv_crc_enc [OF u2(2,3) len(2)] by (simp add: recv_body_def)
qed

lemma recv_response:
  assumes ok: "buf_ok u" and pen: "pending u = recv_frame (st_protocol stack) seq (read_response slave_id func data) crc"
    and func: "func \<in> set MODBUS_READS" and len: "length data < 255" "length crc = 2"
    and seq: "st_protocol stack = MODBUS_PROTOCOL_TCP \<Longrightarrow> check_header \<Longrightarrow>
      uint seq + 1 = uint (st_read_seq stack) \<or> uint seq + 1 = uint (st_write_seq stack)"
  shows "modbus_stack_recv check_header stack slave_id u =
    (uint (bsize u), [Ev_value slave_id data NEU_ERR_SUCCESS])"
proof (cases "st_protocol stack")
  case MODBUS_PROTOCOL_TCP
  let ?pdu = "read_response slave_id func data"
  from header_unwrap_enc [OF ok, of seq ?pdu zero_header] pen MODBUS_PROTOCOL_TCP obtain u1 where
    u1: "modbus_header_unwrap u zero_header = (6, \<lparr>mh_seq = seq, mh_protocol = 0, mh_len = of_nat (length ?pdu)\<rparr>, u1)"
      "buf_ok u1" "pending u1 = ?pdu" "bsize u1 = bsize u" by (auto simp: recv_frame_def)
  have "recv_body MODBUS_PROTOCOL_TCP slave_id h u1 = (uint (bsize u1), [Ev_value slave_id data NEU_ERR_SUCCESS])" for h
    using u1(2,3) func len(1) by (intro recv_body_enc [where crc = "[]"]) (simp_all add: trailer_def)
  then show ?thesis
    using u1(1,4) MODBUS_PROTOCOL_TCP seq by (auto simp: modbus_stack_recv_def)
next
  case MODBUS_PROTOCOL_RTU
  then have "recv_body MODBUS_PROTOCOL_RTU slave_id zero_header u = (uint (bsize u), [Ev_value slave_id data NEU_ERR_SUCCESS])"
    using ok pen func len by (intro recv_body_enc [where crc = crc]) (simp_all add: trailer_def recv_frame_def)
  then show ?thesis using MODBUS_PROTOCOL_RTU by (simp add: modbus_stack_recv_def)
qed

lemma length_modbus_adu: "length (modbus_adu protocol seq pdu) = length pdu + unat (trailer_size protocol)"
  by (simp add: modbus_adu_def trailer_size_def split: modbus_protocol_e.split)

lemma length_read_response [simp]: "length (read_response s f data) = length data + 3"
  by (simp add: read_response_def)

lemma read_function_reads: "read_function area \<in> set MODBUS_READS"
  by (simp add: read_function_def MODBUS_READS_def split: modbus_area.split)

lemma recv_crc_events: "recv_crc protocol evs buf = (r, evs') \<Longrightarrow> evs' = evs"
  by (auto simp: recv_crc_def Let_def split: if_splits prod.splits)

lemma recv_read_events:
  assumes "recv_read protocol header code buf = Some (evs, buf')"
  shows "\<exists>data. evs = [Ev_value (mc_slave_id code) data NEU_ERR_SUCCESS]"
  using assms by (auto simp: recv_read_def Let_def split: if_splits prod.splits option.splits)

lemma recv_body_events:
  assumes "recv_body protocol slave_id header buf = (r, evs)" and "evs \<noteq> []"
  shows "\<exists>data. evs = [Ev_value slave_id data NEU_ERR_SUCCESS]"
  using assms
  by (auto simp: recv_body_def Let_def split: if_splits prod.splits option.splits
      dest!: recv_crc_events recv_read_events)

lemma response_size_spec:
  assumes "length data = unat (read_data_size area n)" and "length data < 255"
  shows "unat (read_data_size area n + 2 + 1 + trailer_size p) =
    length (modbus_adu p seq (read_response slave_id func data))"
proof -
  have tr: "unat (trailer_size p) \<le> 6" by (simp add: trailer_size_def split: modbus_protocol_e.split)
  have "unat (read_data_size area n + 2) = unat (read_data_size area n) + unat (2::u16)"
    using assms by (intro unat_u16_add_small) simp
  moreover from this have "unat (read_data_size area n + 2 + 1) = unat (read_data_size area n + 2) + unat (1::u16)"
    using assms by (intro unat_u16_add_small) simp
  ultimately show ?thesis
    using assms tr by (subst unat_u16_add_small) (simp_all add: length_modbus_adu)
qed

text \<open>
  The answer of a device to a read request, sent back as a well-formed frame with the
  amount of data the request asked for, is accepted by the stack that sent the request: the
  announced response size is returned, and the data is handed on for that slave.
\<close>

lemma modbus_read_exchange:
  assumes mem: "length mem = 16"
    and req: "modbus_stack_read send mem stack slave_id area start n is_test = Some (r, response_size, stack', evs)"
    and data: "length data = unat (read_data_size area n)" "length data < 255"
    and u: "buf_ok u" "boffset u = 0"
      "base u = modbus_adu (st_protocol stack) (st_read_seq stack) (read_response slave_id (read_function area) data)"
    and seq: "check_header \<Longrightarrow> st_read_seq stack \<noteq> 0xffff"
  shows "modbus_stack_recv check_header stack' slave_id u =
    (uint response_size, [Ev_value slave_id data NEU_ERR_SUCCESS])"
proof -
  let ?p = "st_protocol stack"
  let ?resp = "read_response slave_id (read_function area) data"
  have st: "stack' = stack\<lparr>st_read_seq := next_seq ?p (st_read_seq stack)\<rparr>"
    and sz: "response_size = read_data_size area n + 2 + 1 + trailer_size ?p"
    using req by (simp_all add: modbus_stack_read_adu [OF mem] Let_def)
  have "unat (bsize u) = unat response_size"
    using u(1,3) response_size_spec [OF data, of ?p "st_read_seq stack" slave_id "read_function area"]
    by (simp add: buf_ok_def sz)
  then have eq: "bsize u = response_size" by (simp add: word_unat_eq_iff)
  have "modbus_stack_recv check_header stack' slave_id u =
      (uint (bsize u), [Ev_value slave_id data NEU_ERR_SUCCESS])"
  proof (rule recv_response [OF u(1) _ read_function_reads data(2)])
    show "pending u = recv_frame (st_protocol stack') (st_read_seq stack) ?resp (le_bytes 2 (crc_bitwise ?resp))"
      using u(2,3) by (simp add: pending_def st recv_frame_def modbus_adu_def split: modbus_protocol_e.split)
  qed (use seq in \<open>simp_all add: st next_seq_def uint_seq_Suc\<close>)
  then show ?thesis by (simp only: eq)
qed

text \<open>
  Unpacking takes bytes from the front of the received data; what is handed on is a
  contiguous part of it.
\<close>

definition consumes :: "protocol_buf \<Rightarrow> protocol_buf \<Rightarrow> bool" where
  "consumes b b' \<longleftrightarrow> buf_ok b' \<and> (\<exists>x. pending b = x @ pending b')"

lemma consumes_refl: "buf_ok b \<Longrightarrow> consumes b b"
  by (auto simp: consumes_def)

lemma consumes_trans: "consumes a b \<Longrightarrow> consumes b c \<Longrightarrow> consumes a c"
  by (auto simp: consumes_def)

lemma unpack_consumes:
  assumes "buf_ok b" and "neu_protocol_unpack_buf b sz = (r, b')"
  shows "consumes b b'"
proof (cases "unat sz \<le> length (pending b)")
  case True
  with unpack_Some [OF assms(1) True] assms(2) have "buf_ok b'" "pending b' = drop (unat sz) (pending b)" by auto
  then show ?thesis unfolding consumes_def by (metis append_take_drop_id)
next
  case False
  with unpack_None [OF assms(1)] assms show ?thesis by (simp add: consumes_refl)
qed

lemma unwrap_consumes:
  assumes "buf_ok b"
  shows "modbus_header_unwrap b h = (r, h', b') \<Longrightarrow> consumes b b'"
    "modbus_code_unwrap b c = (r, c', b') \<Longrightarrow> consumes b b'"
    "modbus_data_unwrap b n = (r, n', b') \<Longrightarrow> consumes b b'"
  using unpack_consumes [OF assms]
  by (auto simp: modbus_header_unwrap_def modbus_code_unwrap_def modbus_data_unwrap_def Let_def
      split: option.splits prod.splits if_splits)

lemma unpack_data:
  assumes "buf_ok b" and "neu_protocol_unpack_buf b sz = (Some p, b')"
  shows "\<exists>y. pending b = load_bytes p (unat sz) (base b') @ y"
proof -
  have le: "unat sz \<le> length (pending b)"
    using assms unpack_None [OF assms(1), of sz] by (cases "unat sz \<le> length (pending b)") auto
  from unpack_Some [OF assms(1) le] assms(2) have "load_bytes p (unat sz) (base b') = take (unat sz) (pending b)" by auto
  then show ?thesis by (metis append_take_drop_id)
qed

lemma recv_read_data:
  assumes "buf_ok buf" and "recv_read protocol header code buf = Some (evs, buf')"
  shows "\<exists>data x y. evs = [Ev_value (mc_slave_id code) data NEU_ERR_SUCCESS] \<and> pending buf = x @ data @ y"
proof -
  obtain r nb b1 where d: "modbus_data_unwrap buf 0 = (r, nb, b1)" by (cases "modbus_data_unwrap buf 0") auto
  then have c: "consumes buf b1" using unwrap_consumes(3) [OF assms(1)] by blast
  then obtain x where x: "buf_ok b1" "pending buf = x @ pending b1" by (auto simp: consumes_def)
  define n where "n = (if protocol = MODBUS_PROTOCOL_TCP \<and> nb = 0xff then mh_len header - 2 - 1 else ucast nb :: u16)"
  obtain q b2 where u: "neu_protocol_unpack_buf b1 n = (q, b2)" by (cases "neu_protocol_unpack_buf b1 n")
  have "recv_read protocol header code buf = (if r \<le> 0 then None else (case q of None \<Rightarrow> None | Some p \<Rightarrow>
      Some ([Ev_value (mc_slave_id code) (load_bytes p (unat n) (base b2)) NEU_ERR_SUCCESS], b2)))"
    unfolding recv_read_def d Let_def prod.case n_def [symmetric] u by (cases q) simp_all
  with assms(2) obtain p where "q = Some p"
    "evs = [Ev_value (mc_slave_id code) (load_bytes p (unat n) (base b2)) NEU_ERR_SUCCESS]"
    by (cases q; cases "r \<le> 0") simp_all
  moreover from this u obtain y where "pending b1 = load_bytes p (unat n) (base b2) @ y"
    using unpack_data [OF x(1)] by blast
  ultimately show ?thesis
    using x(2) by (intro exI [of _ "load_bytes p (unat n) (base b2)"] exI [of _ x] exI [of _ y]) simp
qed

lemma recv_body_data:
  assumes "buf_ok buf" and "recv_body protocol slave_id header buf = (r, evs)" and "evs \<noteq> []"
  shows "\<exists>data x y. evs = [Ev_value slave_id data NEU_ERR_SUCCESS] \<and> pending buf = x @ data @ y"
proof -
  obtain r1 code b1 where d: "modbus_code_unwrap buf \<lparr>mc_slave_id = 0, mc_function = 0\<rparr> = (r1, code, b1)"
    by (cases "modbus_code_unwrap buf \<lparr>mc_slave_id = 0, mc_function = 0\<rparr>") auto
  then obtain x where x: "buf_ok b1" "pending buf = x @ pending b1"
    using unwrap_consumes(2) [OF assms(1) d] by (auto simp: consumes_def)
  from d assms(2,3) obtain b2 where "mc_slave_id code = slave_id" "recv_read protocol header code b1 = Some (evs, b2)"
    by (auto simp: recv_body_def Let_def split: if_splits option.splits prod.splits dest!: recv_crc_events)
  with recv_read_data [OF x(1)] obtain data x' y where
    "evs = [Ev_value slave_id data NEU_ERR_SUCCESS]" "pending b1 = x' @ data @ y" by metis
  then show ?thesis using x(2) by (intro exI [of _ data] exI [of _ "x @ x'"] exI [of _ y]) simp
qed

text \<open>
  C10: Whatever bytes arrive, a response is handed on at most once, only as data of the slave
  that was addressed and never as an error, and the data handed on is a contiguous part of
  the bytes received: no byte from outside the receive buffer is reported.
\<close>

theorem modbus_stack_recv_only_addressed:
  assumes "buf_ok buf" and "modbus_stack_recv check_header stack slave_id buf = (r, evs)" and "evs \<noteq> []"
  shows "\<exists>data x y. evs = [Ev_value slave_id data NEU_ERR_SUCCESS] \<and> pending buf = x @ data @ y"
proof (cases "st_protocol stack")
  case MODBUS_PROTOCOL_RTU
  then show ?thesis using recv_body_data [OF assms(1)] assms(2,3) by (auto simp: modbus_stack_recv_def)
next
  case MODBUS_PROTOCOL_TCP
  obtain r1 h b1 where d: "modbus_header_unwrap buf zero_header = (r1, h, b1)"
    by (cases "modbus_header_unwrap buf zero_header") auto
  then obtain x where x: "buf_ok b1" "pending buf = x @ pending b1"
    using unwrap_consumes(1) [OF assms(1) d] by (auto simp: consumes_def)
  have "recv_body MODBUS_PROTOCOL_TCP slave_id h b1 = (r, evs)"
    using MODBUS_PROTOCOL_TCP d assms(2,3) by (auto simp: modbus_stack_recv_def Let_def split: if_splits)
  with recv_body_data [OF x(1)] assms(3) obtain data x' y where
    "evs = [Ev_value slave_id data NEU_ERR_SUCCESS]" "pending b1 = x' @ data @ y" by metis
  then show ?thesis using x(2) by (intro exI [of _ data] exI [of _ "x @ x'"] exI [of _ y]) simp
qed

text \<open>
  C30: With header checking on, the response to request number 65535 is always rejected: the
  comparison of the sequence numbers does not wrap around with the counter.
\<close>

theorem modbus_stack_recv_seq_wrap:
  assumes "buf_ok u" and "pending u = header_bytes 0xffff p @ p" and "st_protocol stack = MODBUS_PROTOCOL_TCP"
  shows "modbus_stack_recv True stack slave_id u = (-1, [])"
proof -
  have "uint (st_read_seq stack) < 65536" "uint (st_write_seq stack) < 65536"
    using uint_lt2p [of "st_read_seq stack"] uint_lt2p [of "st_write_seq stack"] by simp_all
  then show ?thesis
    using header_unwrap_enc [OF assms(1,2), of zero_header] assms(3) by (auto simp: modbus_stack_recv_def)
qed

section \<open>Write requests on the wire\<close>

definition write_data :: "modbus_area \<Rightarrow> bytes \<Rightarrow> u8 \<Rightarrow> bytes" where
  "write_data area bs n_byte =
     (if area = MODBUS_AREA_COIL
      then if n_byte > 1
           then of_nat ((unat n_byte + 7) div 8) # take ((unat n_byte + 7) div 8) bs else []
      else (if n_byte > 2 then [n_byte] else []) @ take (unat n_byte) bs)"

definition write_address :: "modbus_area \<Rightarrow> u16 \<Rightarrow> u16 \<Rightarrow> bytes \<Rightarrow> u8 \<Rightarrow> bytes" where
  "write_address area start n_reg bs n_byte =
     (if area = MODBUS_AREA_COIL
      then address_bytes start (if n_byte > 1 then ucast n_byte else if bs ! 0 > 0 then 0xff00 else 0)
      else if n_reg = 1 then rev (le_bytes 2 start) else address_bytes start n_reg)"

definition write_function :: "modbus_area \<Rightarrow> u16 \<Rightarrow> u8 \<Rightarrow> u8" where
  "write_function area n_reg n_byte =
     (if area = MODBUS_AREA_COIL
      then if n_byte > 1 then MODBUS_WRITE_M_COIL else MODBUS_WRITE_S_COIL
      else if n_reg > 1 then MODBUS_WRITE_M_HOLD_REG else MODBUS_WRITE_S_HOLD_REG)"

definition write_pdu :: "u8 \<Rightarrow> modbus_area \<Rightarrow> u16 \<Rightarrow> u16 \<Rightarrow> bytes \<Rightarrow> u8 \<Rightarrow> bytes" where
  "write_pdu slave_id area start n_reg bs n_byte =
     [slave_id, write_function area n_reg n_byte] @ write_address area start n_reg bs n_byte @
     write_data area bs n_byte"

lemma unat_coil_bytes: "unat (of_nat ((unat n + 7) div 8) :: u8) = (unat (n::u8) + 7) div 8"
proof -
  have "unat n < 2 ^ LENGTH(8)" by (rule unsigned_less)
  then have "(unat n + 7) div 8 < 256" by simp
  then show ?thesis by (simp add: unat_of_nat)
qed

lemma address_wrap_any:
  assumes "buf_ok b" and "4 \<le> unat (boffset b)"
  shows "wraps b (modbus_address_wrap b start n action)
    (if action = MODBUS_ACTION_HOLD_REG_WRITE \<and> n = 1 then rev (le_bytes 2 start) else address_bytes start n)"
  using address_wrap_enc [OF assms, of action n start] address_wrap_single [OF assms(1), of start] assms(2)
  by auto

lemma code_address_wraps:
  assumes "buf_ok b" and "6 \<le> unat (boffset b)"
  shows "wraps b (case modbus_address_wrap b start n action of None \<Rightarrow> None
      | Some b' \<Rightarrow> modbus_code_wrap b' slave_id f)
    ([slave_id, f] @ (if action = MODBUS_ACTION_HOLD_REG_WRITE \<and> n = 1
       then rev (le_bytes 2 start) else address_bytes start n))"
proof (rule wraps_bind)
  show w: "wraps b (modbus_address_wrap b start n action)
      (if action = MODBUS_ACTION_HOLD_REG_WRITE \<and> n = 1 then rev (le_bytes 2 start) else address_bytes start n)"
    using assms by (intro address_wrap_any) simp_all
  fix b' assume "modbus_address_wrap b start n action = Some b'" "buf_ok b'"
  then show "wraps b' (modbus_code_wrap b' slave_id f) [slave_id, f]"
    using wraps_offset [OF assms(1), of b'] w assms(2)
    by (intro code_wrap_enc) (auto split: if_splits)
qed

lemma data_code_address_wraps:
  assumes "buf_ok b" and "unat nb + 7 \<le> unat (boffset b)" and "unat nb \<le> length bs"
  shows "wraps b (case modbus_data_wrap b nb bs action of None \<Rightarrow> None
      | Some b' \<Rightarrow> (case modbus_address_wrap b' start n action of None \<Rightarrow> None
          | Some b' \<Rightarrow> modbus_code_wrap b' slave_id f))
    (([slave_id, f] @ (if action = MODBUS_ACTION_HOLD_REG_WRITE \<and> n = 1
       then rev (le_bytes 2 start) else address_bytes start n)) @
     (if action = MODBUS_ACTION_DEFAULT \<or> nb > 2 then [nb] else []) @ take (unat nb) bs)"
proof (rule wraps_bind)
  show w: "wraps b (modbus_data_wrap b nb bs action)
      ((if action = MODBUS_ACTION_DEFAULT \<or> nb > 2 then [nb] else []) @ take (unat nb) bs)"
    using assms by (intro data_wrap_enc) simp_all
  fix b' assume "modbus_data_wrap b nb bs action = Some b'" "buf_ok b'"
  then show "wraps b' (case modbus_address_wrap b' start n action of None \<Rightarrow> None
      | Some b' \<Rightarrow> modbus_code_wrap b' slave_id f)
    ([slave_id, f] @ (if action = MODBUS_ACTION_HOLD_REG_WRITE \<and> n = 1
       then rev (le_bytes 2 start) else address_bytes start n))"
    using wraps_offset [OF assms(1), of b'] w assms(2,3)
    by (intro code_address_wraps) (auto split: if_splits)
qed

lemma write_body_spec:
  assumes ok: "buf_ok b" and area: "area \<in> {MODBUS_AREA_COIL, MODBUS_AREA_HOLD_REGISTER}"
    and room: "unat n_byte + 7 \<le> unat (boffset b)" and len: "unat n_byte \<le> length bs"
  shows "\<exists>r. write_body slave_id area start n_reg bs n_byte b = map_option (\<lambda>b. (b, [])) r \<and>
    wraps b r (write_pdu slave_id area start n_reg bs n_byte)"
proof -
  consider (hold) "area = MODBUS_AREA_HOLD_REGISTER" | (coils) "area = MODBUS_AREA_COIL" "n_byte > 1"
    | (coil) "area = MODBUS_AREA_COIL" "\<not> n_byte > 1" using area by blast
  then show ?thesis
  proof cases
    case hold
    let ?r = "case modbus_data_wrap b n_byte bs MODBUS_ACTION_HOLD_REG_WRITE of None \<Rightarrow> None
      | Some b' \<Rightarrow> (case modbus_address_wrap b' start n_reg MODBUS_ACTION_HOLD_REG_WRITE of None \<Rightarrow> None
          | Some b' \<Rightarrow> modbus_code_wrap b' slave_id (write_function area n_reg n_byte))"
    have "wraps b ?r (write_pdu slave_id area start n_reg bs n_byte)"
      using data_code_address_wraps [OF ok room len, where action = MODBUS_ACTION_HOLD_REG_WRITE
          and start = start and n = n_reg and slave_id = slave_id and f = "write_function area n_reg n_byte"] hold
      by (simp add: write_pdu_def write_address_def write_data_def)
    moreover have "write_body slave_id area start n_reg bs n_byte b = map_option (\<lambda>b. (b, [])) ?r"
      using hold by (simp add: write_body_def write_function_def split: option.split)
    ultimately show ?thesis by blast
  next
    case coils
    let ?n = "of_nat ((unat n_byte + 7) div 8) :: u8"
    let ?r = "case modbus_data_wrap b ?n bs MODBUS_ACTION_DEFAULT of None \<Rightarrow> None
      | Some b' \<Rightarrow> (case modbus_address_wrap b' start (ucast n_byte) MODBUS_ACTION_DEFAULT of None \<Rightarrow> None
          | Some b' \<Rightarrow> modbus_code_wrap b' slave_id MODBUS_WRITE_M_COIL)"
    have "1 \<le> unat n_byte" using coils(2) by (simp add: word_less_nat_alt)
    then have n: "unat ?n \<le> unat n_byte" unfolding unat_coil_bytes by linarith
    have "wraps b ?r (write_pdu slave_id area start n_reg bs n_byte)"
      using data_code_address_wraps [OF ok, where nb = ?n and bs = bs and action = MODBUS_ACTION_DEFAULT
          and start = start and n = "ucast n_byte" and slave_id = slave_id and f = MODBUS_WRITE_M_COIL] n room len coils
      by (simp add: write_pdu_def write_address_def write_data_def write_function_def unat_coil_bytes)
    moreover have "write_body slave_id area start n_reg bs n_byte b = map_option (\<lambda>b. (b, [])) ?r"
      using coils by (simp add: write_body_def split: option.split)
    ultimately show ?thesis by blast
  next
    case coil
    let ?v = "if bs ! 0 > 0 then 0xff00 else 0 :: u16"
    let ?r = "case modbus_address_wrap b start ?v MODBUS_ACTION_DEFAULT of None \<Rightarrow> None
          | Some b' \<Rightarrow> modbus_code_wrap b' slave_id MODBUS_WRITE_S_COIL"
    have "wraps b ?r (write_pdu slave_id area start n_reg bs n_byte)"
      using code_address_wraps [OF ok, where start = start and n = ?v and action = MODBUS_ACTION_DEFAULT
          and slave_id = slave_id and f = MODBUS_WRITE_S_COIL] room coil
      by (simp add: write_pdu_def write_address_def write_data_def write_function_def)
    moreover have "write_body slave_id area start n_reg bs n_byte b = map_option (\<lambda>b. (b, [])) ?r"
      using coil by (simp add: write_body_def split: option.split)
    ultimately show ?thesis by blast
  qed
qed

lemma length_write_pdu: "unat n_byte \<le> length bs \<Longrightarrow>
    length (write_pdu slave_id area start n_reg bs n_byte) \<le> unat n_byte + 7"
proof -
  have "n_byte > 1 \<Longrightarrow> (unat n_byte + 7) div 8 \<le> unat n_byte"
    by (simp add: word_less_nat_alt)
  then show "unat n_byte \<le> length bs \<Longrightarrow> ?thesis"
    by (auto simp: write_pdu_def write_address_def write_data_def)
qed

lemma length_write_pdu_hold:
  assumes "n_reg > 1" and "n_byte > 2" and "unat n_byte \<le> length bs"
  shows "length (write_pdu slave_id MODBUS_AREA_HOLD_REGISTER start n_reg bs n_byte) = unat n_byte + 7"
  using assms by (auto simp: write_pdu_def write_address_def write_data_def)

text \<open>
  C12: A write request for coils or holding registers of at most 241 bytes puts exactly the
  frame of the chosen write function on the wire, and when a response is wanted it reports
  success or disconnection by the result of sending.
\<close>

theorem modbus_stack_write_adu:
  assumes "st_buf_size stack = 256" and "unat n_byte \<le> 241" and "unat n_byte \<le> length bs"
    and "area \<in> {MODBUS_AREA_COIL, MODBUS_AREA_HOLD_REGISTER}"
  shows "\<exists>stack'. modbus_stack_write send stack slave_id area start n_reg bs n_byte response_size response =
    (let adu = modbus_adu (st_protocol stack) (st_write_seq stack) (write_pdu slave_id area start n_reg bs n_byte)
     in Some (send adu, response_size + 2 + 4 + trailer_size (st_protocol stack), stack',
          Ev_send adu # (if response
            then [Ev_write_resp (if send adu > 0 then NEU_ERR_SUCCESS else NEU_ERR_PLUGIN_DISCONNECTED)] else []))) \<and>
    st_write_seq stack' = next_seq (st_protocol stack) (st_write_seq stack) \<and>
    st_read_seq stack' = st_read_seq stack \<and> st_protocol stack' = st_protocol stack"
proof -
  let ?p = "st_protocol stack"
  let ?pdu = "write_pdu slave_id area start n_reg bs n_byte"
  let ?b = "neu_protocol_pack_buf_init (replicate 256 0) 256"
  have init: "buf_ok ?b" "pending ?b = []" "boffset ?b = 256" using pack_init [of "replicate 256 0" 256] by simp_all
  obtain b1 where b1: "start_request ?p ?b = Some b1" "buf_ok b1" "pending b1 = trailer ?p"
    "unat (boffset b1) + length (trailer ?p) = 256"
    using start_request_spec [OF init(1,2), of ?p] init(3) by auto
  have tr: "length (trailer ?p) \<le> 2" by (simp add: trailer_def split: modbus_protocol_e.split)
  have "unat n_byte + 7 \<le> unat (boffset b1)" using assms(2) b1(4) tr by linarith
  from write_body_spec [OF b1(2) assms(4) this assms(3)] obtain r where
    r: "write_body slave_id area start n_reg bs n_byte b1 = map_option (\<lambda>b. (b, [])) r" "wraps b1 r ?pdu" by blast
  from wrapsE [OF r(2) b1(2)] obtain b2 where b2: "r = Some b2" "buf_ok b2" "pending b2 = ?pdu @ pending b1"
    "unat (boffset b1) = unat (boffset b2) + length ?pdu" .
  have "pending b2 = ?pdu @ trailer ?p" "6 \<le> unat (boffset b2)"
    using b2(3,4) b1(3,4) tr length_write_pdu [OF assms(3), of slave_id area start n_reg] assms(2) by simp_all
  from finish_request_spec [OF b2(2) this, of "st_write_seq stack"] obtain b3 where
    "finish_request ?p (st_write_seq stack) b2 = Some (b3, next_seq ?p (st_write_seq stack))"
    "sent_bytes b3 = modbus_adu ?p (st_write_seq stack) ?pdu" by blast
  then show ?thesis
    using b1(1) r(1) b2(1) assms(1) by (simp add: modbus_stack_write_def Let_def)
qed

text \<open>
  C31: A write of 244 to 249 bytes to more than one register on TCP aborts in an assertion:
  the frame does not fit the 256-byte buffer of the stack, although the grouping of write
  commands allows up to 248 bytes.
\<close>

theorem modbus_stack_write_overflow:
  assumes "st_buf_size stack = 256" and "st_protocol stack = MODBUS_PROTOCOL_TCP"
    and "244 \<le> n_byte" and "n_byte \<le> 249" and "unat n_byte \<le> length bs" and "n_reg > 1"
  shows "modbus_stack_write send stack slave_id MODBUS_AREA_HOLD_REGISTER start n_reg bs n_byte
    response_size response = None"
proof -
  let ?pdu = "write_pdu slave_id MODBUS_AREA_HOLD_REGISTER start n_reg bs n_byte"
  let ?b = "neu_protocol_pack_buf_init (replicate 256 0) 256"
  have init: "buf_ok ?b" "boffset ?b = 256" using pack_init [of "replicate 256 0" 256] by simp_all
  have n: "244 \<le> unat n_byte" "unat n_byte \<le> 249" using assms(3,4) by (simp_all add: word_le_nat_alt)
  then obtain r where r: "write_body slave_id MODBUS_AREA_HOLD_REGISTER start n_reg bs n_byte ?b =
      map_option (\<lambda>b. (b, [])) r" "wraps ?b r ?pdu"
    using write_body_spec [OF init(1) _ _ assms(5), of MODBUS_AREA_HOLD_REGISTER slave_id start n_reg] init(2) by auto
  from wrapsE [OF r(2) init(1)] obtain b2 where b2: "r = Some b2" "unat (boffset ?b) = unat (boffset b2) + length ?pdu" .
  have "n_byte > 2" using n(1) by (simp add: word_less_nat_alt)
  with length_write_pdu_hold [OF assms(6) _ assms(5)] have "unat (boffset b2) < 6"
    using b2(2) init(2) n(1) by simp
  then have "modbus_header_wrap b2 (st_write_seq stack) = None" by (rule header_codec.wrap_abort)
  then show ?thesis
    using assms(1,2) r(1) b2(1) by (simp add: modbus_stack_write_def start_request_def finish_request_def Let_def)
qed

section \<open>Instances\<close>

theorem modbus_stack_read_wire_witness:
  "\<exists>sz stack' evs. modbus_stack_read (\<lambda>f. int (length f)) (replicate 16 0) (modbus_stack_create MODBUS_PROTOCOL_TCP)
      1 MODBUS_AREA_HOLD_REGISTER 0x102 3 False =
    Some (12, sz, stack', Ev_send [0, 0, 0, 0, 0, 6, 1, 3, 1, 2, 0, 3] # evs)"
  using modbus_stack_read_wire [where mem = "replicate 16 0" and send = "\<lambda>f. int (length f)"
      and stack = "modbus_stack_create MODBUS_PROTOCOL_TCP" and slave_id = 1 and area = MODBUS_AREA_HOLD_REGISTER
      and start = "0x102" and n = 3 and is_test = False]
  by (auto simp: modbus_stack_create_def read_function_def MODBUS_READ_HOLD_REG_def word_hi_def word_lo_def Let_def)

theorem modbus_stack_recv_only_addressed_witness:
  "let buf = neu_protocol_unpack_buf_init (recv_frame MODBUS_PROTOCOL_TCP 0 (read_response 1 3 [0x12, 0x34]) [0, 0]) 11;
       (r, evs) = modbus_stack_recv False (modbus_stack_create MODBUS_PROTOCOL_TCP) 1 buf
   in \<exists>data x y. evs = [Ev_value 1 data NEU_ERR_SUCCESS] \<and> pending buf = x @ data @ y"
proof -
  let ?buf = "neu_protocol_unpack_buf_init (recv_frame MODBUS_PROTOCOL_TCP 0 (read_response 1 3 [0x12, 0x34]) [0, 0]) 11"
  let ?stack = "modbus_stack_create MODBUS_PROTOCOL_TCP"
  have ok: "buf_ok ?buf" by (simp add: buf_ok_def neu_protocol_unpack_buf_init_def recv_frame_def)
  have recv: "modbus_stack_recv False ?stack 1 ?buf = (uint (bsize ?buf), [Ev_value 1 [0x12, 0x34] NEU_ERR_SUCCESS])"
    by (rule recv_response [OF ok, where crc = "[0, 0]" and seq = 0 and func = 3])
      (simp_all add: modbus_stack_create_def pending_def neu_protocol_unpack_buf_init_def MODBUS_READS_def
        MODBUS_READ_HOLD_REG_def)
  show ?thesis
    using modbus_stack_recv_only_addressed [OF ok recv] unfolding Let_def recv by simp
qed

theorem modbus_stack_recv_seq_wrap_witness:
  "modbus_stack_recv True (modbus_stack_create MODBUS_PROTOCOL_TCP) 1
     (neu_protocol_unpack_buf_init (header_bytes 0xffff [1, 3, 0] @ [1, 3, 0]) 9) = (-1, [])"
  using modbus_stack_recv_seq_wrap [of "neu_protocol_unpack_buf_init (header_bytes 0xffff [1, 3, 0] @ [1, 3, 0]) 9"
      "[1, 3, 0]" "modbus_stack_create MODBUS_PROTOCOL_TCP" 1]
  by (simp add: buf_ok_def pending_def neu_protocol_unpack_buf_init_def modbus_stack_create_def)

theorem modbus_stack_write_adu_witness:
  "\<exists>stack'. modbus_stack_write (\<lambda>f. int (length f)) (modbus_stack_create MODBUS_PROTOCOL_TCP) 1
      MODBUS_AREA_HOLD_REGISTER 7 1 [0x12, 0x34] 2 0 True =
    Some (12, 12, stack', [Ev_send [0, 0, 0, 0, 0, 6, 1, 6, 0, 7, 0x12, 0x34], Ev_write_resp NEU_ERR_SUCCESS])"
  using modbus_stack_write_adu [of "modbus_stack_create MODBUS_PROTOCOL_TCP" 2 "[0x12, 0x34]" MODBUS_AREA_HOLD_REGISTER
      "\<lambda>f. int (length f)" 1 7 1 0 True]
  by (auto simp: modbus_stack_create_def modbus_adu_def write_pdu_def write_function_def write_data_def write_address_def
      address_bytes_def word_bytes word_hi_def word_lo_def header_bytes_def trailer_size_def Let_def
      MODBUS_WRITE_S_HOLD_REG_def)

theorem modbus_stack_write_overflow_witness:
  "modbus_stack_write (\<lambda>f. 1) (modbus_stack_create MODBUS_PROTOCOL_TCP) 1 MODBUS_AREA_HOLD_REGISTER 0 124
     (replicate 264 0) 248 0 True = None"
  using modbus_stack_write_overflow [of "modbus_stack_create MODBUS_PROTOCOL_TCP" 248 "replicate 264 0" 124
      "\<lambda>f. 1" 1 0 0 True]
  by (simp add: modbus_stack_create_def)

end
