(* ===== verification/Modbus_Value.thy ===== *)
theory Modbus_Value
  imports Modbus_Stack
begin

unbundle bit_operations_syntax

text \<open>
  The values of \<^verbatim>\<open>plugins/modbus/modbus_req.c\<close>: from the data of a read response to the values of
  the tags of the command, and from a tag value to the bytes of a write request.
\<close>

section \<open>From a response to tag values\<close>

text \<open>
  The raw bytes of one point, copied into a zeroed value: registers from their offset, a
  coil from its bit. Data that is too short leaves the value zero. A copy from in front of
  the data or past the value would be undefined: \<open>None\<close>.
\<close>

definition raw_registers :: "u16 \<Rightarrow> bytes \<Rightarrow> modbus_point \<Rightarrow> neu_value_u option" where
  "raw_registers start_address bs p =
     (let off = (uint (mp_start_address p) - uint start_address) * 2; n = unat (mp_n_register p) * 2 in
      if int (length bs) \<ge> off + int n
      then if off < 0 \<or> n > NEU_VALUE_SIZE then None
           else Some (store_bytes NEU_VALUE_SIZE [of_nat n]
                       (store_bytes 0 (load_bytes (nat off) n bs) zero_value))
      else Some zero_value)"

definition raw_bit :: "u16 \<Rightarrow> bytes \<Rightarrow> modbus_point \<Rightarrow> neu_value_u option" where
  "raw_bit start_address bs p =
     (let offset = mp_start_address p - start_address in
      if length bs > unat (offset div 8)
      then map_option (\<lambda>b. set_value_u8 b zero_value)
             (neu_value8_get_bit (bs ! unat (offset div 8)) (ucast (offset mod 8)))
      else Some zero_value)"

definition raw_value :: "u16 \<Rightarrow> bytes \<Rightarrow> modbus_point \<Rightarrow> neu_value_u option" where
  "raw_value start_address bs p =
     (case mp_area p of
        MODBUS_AREA_HOLD_REGISTER \<Rightarrow> raw_registers start_address bs p
      | MODBUS_AREA_INPUT_REGISTER \<Rightarrow> raw_registers start_address bs p
      | MODBUS_AREA_COIL \<Rightarrow> raw_bit start_address bs p
      | MODBUS_AREA_INPUT \<Rightarrow> raw_bit start_address bs p)"

definition c_strlen :: "bytes \<Rightarrow> nat" where
  "c_strlen bs = length (takeWhile (\<lambda>b. b \<noteq> 0) bs)"

definition string_from_wire :: "addr_option \<Rightarrow> neu_value_u \<Rightarrow> neu_value_u option" where
  "string_from_wire opt v =
     (case (if opt_string_type opt = string_type_code NEU_DATATAG_STRING_TYPE_L
            then neu_datatag_string_ltoh v (int (c_strlen v)) else Some v) of
        None \<Rightarrow> None
      | Some v \<Rightarrow>
          (case neu_datatag_string_is_utf8 v (int (c_strlen v)) of
             None \<Rightarrow> None
           | Some True \<Rightarrow> Some v
           | Some False \<Rightarrow> Some (store_bytes 0 [0x3f, 0] v)))"

definition bit_from_wire :: "modbus_point \<Rightarrow> neu_value_u \<Rightarrow> neu_value_u option" where
  "bit_from_wire p v =
     (if mp_area p \<in> {MODBUS_AREA_HOLD_REGISTER, MODBUS_AREA_INPUT_REGISTER}
      then map_option (\<lambda>b. set_value_u8 b zero_value)
             (neu_value16_get_bit (htons (le_word (load_bytes 0 2 v))) (opt_bit (mp_option p)))
      else Some v)"

definition from_wire ::
    "modbus_endianess \<Rightarrow> modbus_endianess_64 \<Rightarrow> modbus_point \<Rightarrow> neu_value_u \<Rightarrow> neu_value_u option" where
  "from_wire endianess endianess_64 p v =
     (let t = mp_type p in
      if t \<in> {NEU_TYPE_UINT16, NEU_TYPE_INT16} then Some (set_value_u16 (ntohs (value_u16 v)) v)
      else if t \<in> {NEU_TYPE_FLOAT, NEU_TYPE_INT32, NEU_TYPE_UINT32}
      then let v = (if opt_value_is_default (mp_option p) then modbus_convert_endianess v endianess else v)
           in Some (set_value_u32 (ntohl (value_u32 v)) v)
      else if t \<in> {NEU_TYPE_DOUBLE, NEU_TYPE_INT64, NEU_TYPE_UINT64}
      then let v = (if opt_value_is_default (mp_option p)
                    then modbus_convert_endianess_64 v endianess_64 else v)
           in Some (set_value_u64 (neu_ntohll (value_u64 v)) v)
      else if t = NEU_TYPE_BIT then bit_from_wire p v
      else if t = NEU_TYPE_STRING then string_from_wire (mp_option p) v
      else Some v)"

definition point_value ::
    "modbus_endianess \<Rightarrow> modbus_endianess_64 \<Rightarrow> modbus_read_cmd \<Rightarrow> u8 \<Rightarrow> bytes \<Rightarrow> modbus_point \<Rightarrow>
     neu_dvalue option" where
  "point_value endianess endianess_64 cmd slave_id bs p =
     (if uint (mp_start_address p) + uint (mp_n_register p) >
           uint (rc_start_address cmd) + uint (rc_n_register cmd) \<or> slave_id \<noteq> mp_slave_id p
      then Some (error_dvalue NEU_ERR_PLUGIN_READ_FAILURE)
      else (case raw_value (rc_start_address cmd) bs p of
              None \<Rightarrow> None
            | Some v \<Rightarrow> map_option (typed_value (mp_type p))
                         (from_wire endianess endianess_64 p v)))"

text \<open>
  \<^verbatim>\<open>modbus_value_handle\<close> gives the calls of the adapter's update function in order: the tag, or
  none for the whole group, and the value.
\<close>

type_synonym tag_update = "string option \<times> neu_dvalue"

definition modbus_value_handle ::
    "modbus_endianess \<Rightarrow> modbus_endianess_64 \<Rightarrow> modbus_read_cmd \<Rightarrow> u8 \<Rightarrow> bytes \<Rightarrow> neu_err \<Rightarrow>
     tag_update list option" where
  "modbus_value_handle endianess endianess_64 cmd slave_id bs err =
     (if err = NEU_ERR_PLUGIN_DISCONNECTED then Some [(None, error_dvalue err)]
      else if err \<noteq> NEU_ERR_SUCCESS
      then Some (map (\<lambda>p. (Some (mp_name p), error_dvalue err)) (rc_tags cmd))
      else map_option (zip (map (\<lambda>p. Some (mp_name p)) (rc_tags cmd)))
             (those (map (point_value endianess endianess_64 cmd slave_id bs) (rc_tags cmd))))"

section \<open>From a tag value to a write request\<close>

text \<open>
  \<^verbatim>\<open>convert_value\<close> looks at the options of the parsed point, but for 64-bit values at those
  stored in the tag.
\<close>

definition convert_value ::
    "modbus_endianess \<Rightarrow> modbus_endianess_64 \<Rightarrow> neu_value_u \<Rightarrow> neu_datatag \<Rightarrow> modbus_point \<Rightarrow>
     (u8 \<times> neu_value_u) option" where
  "convert_value endianess endianess_64 v tag p =
     (let t = dt_type tag in
      if t \<in> {NEU_TYPE_UINT16, NEU_TYPE_INT16} then Some (2, set_value_u16 (htons (value_u16 v)) v)
      else if t \<in> {NEU_TYPE_FLOAT, NEU_TYPE_UINT32, NEU_TYPE_INT32}
      then let v = (if opt_value_is_default (mp_option p) then modbus_convert_endianess v endianess else v)
           in Some (4, set_value_u32 (htonl (value_u32 v)) v)
      else if t \<in> {NEU_TYPE_DOUBLE, NEU_TYPE_INT64, NEU_TYPE_UINT64}
      then let v = (if opt_value_is_default (dt_option tag)
                    then modbus_convert_endianess_64 v endianess_64 else v)
           in Some (8, set_value_u64 (neu_htonll (value_u64 v)) v)
      else if t = NEU_TYPE_BIT then Some (1, v)
      else if t = NEU_TYPE_STRING
      then map_option (\<lambda>v. (ucast (opt_string_length (mp_option p)), v))
             (if opt_string_type (mp_option p) = string_type_code NEU_DATATAG_STRING_TYPE_L
              then neu_datatag_string_ltoh v (uint (opt_string_length (mp_option p))) else Some v)
      else if t = NEU_TYPE_BYTES then Some (opt_bytes_length (mp_option p), v)
      else None)"

section \<open>Values survive a write and a read\<close>

text \<open>
  \<open>order32\<close> and \<open>order64\<close> are the byte orders a value can be configured to have;
  \<open>on_wire n w\<close> is the value a read finds after a device stored the first \<open>n\<close> bytes of \<open>w\<close>.
\<close>

lemma neu_ntohs_p_pair [simp]: "neu_ntohs_p [a, b] = [b, a]"
proof -
  have "le_bytes 2 (ntohs (le_word [a, b])) = [b, a]" by (simp add: byte_simps del: le_word.simps)
  then show ?thesis by (simp add: neu_ntohs_p_def neu_get_u16_def neu_set_u16_def Let_def)
qed

definition order32 :: "modbus_endianess \<Rightarrow> u8 \<Rightarrow> u8 \<Rightarrow> u8 \<Rightarrow> u8 \<Rightarrow> bytes" where
  "order32 e a b c d = (case e of MODBUS_ABCD \<Rightarrow> [a, b, c, d] | MODBUS_CDAB \<Rightarrow> [c, d, a, b]
     | MODBUS_BADC \<Rightarrow> [b, a, d, c] | MODBUS_DCBA \<Rightarrow> [d, c, b, a])"

lemma value_u32_Cons: "value_u32 (a # b # c # d # r) = le_word [a, b, c, d]"
  by (simp add: value_u32_def load_bytes_def)

lemma set_value_u32_rev:
  "set_value_u32 (htonl (le_word [a, b, c, d])) (w # x # y # z # r) = d # c # b # a # r"
  "set_value_u32 (ntohl (le_word [a, b, c, d])) (w # x # y # z # r) = d # c # b # a # r"
  by (simp_all add: set_value_u32_def store_bytes_def byte_simps del: le_word.simps)

lemma swap16_Cons:
  "swap16_at 0 (a # b # r) = b # a # r"
  "swap16_at 2 (x # y # a # b # r) = x # y # b # a # r"
  by (simp_all add: swap16_at_def store_bytes_def load_bytes_def)

lemma convert_endianess_Cons:
  "modbus_convert_endianess (a # b # c # d # r) e = order32 e a b c d @ r"
  by (cases e) (simp_all add: modbus_convert_endianess_def order32_def value_u32_Cons set_value_u32_rev
      swap16_Cons del: le_word.simps)

definition order64 :: "modbus_endianess_64 \<Rightarrow> u64 \<Rightarrow> u64" where
  "order64 e u = (case e of MODBUS_LL \<Rightarrow> u | MODBUS_BB \<Rightarrow> neu_htonll u | MODBUS_LB \<Rightarrow> neu_htonlb u
     | MODBUS_BL \<Rightarrow> neu_htonbl u | MODBUS_WS \<Rightarrow> neu_htonws u | MODBUS_WR \<Rightarrow> neu_htonwr u)"

lemma order64_involution [simp]: "neu_htonll (order64 e (neu_htonll (order64 e u))) = u"
  by (cases e) (simp_all add: order64_def neu_hton_commutes [symmetric])

lemma convert_endianess_64_u64:
  assumes "length v = sizeof_value"
  shows "value_u64 (modbus_convert_endianess_64 v e) = order64 e (value_u64 v)"
    "length (modbus_convert_endianess_64 v e) = sizeof_value"
  using assms by (cases e; simp add: modbus_convert_endianess_64_def order64_def byte_simps)+

definition on_wire :: "nat \<Rightarrow> neu_value_u \<Rightarrow> neu_value_u" where
  "on_wire n w = store_bytes NEU_VALUE_SIZE [of_nat n] (store_bytes 0 (take n w) zero_value)"

lemma length_on_wire: "n \<le> length w \<Longrightarrow> n \<le> 256 \<Longrightarrow> length (on_wire n w) = sizeof_value"
  by (simp add: on_wire_def NEU_VALUE_SIZE_def sizeof_value_def)

lemma load_on_wire: "n \<le> length w \<Longrightarrow> n \<le> 256 \<Longrightarrow> load_bytes 0 n (on_wire n w) = take n w"
  by (simp add: on_wire_def byte_simps NEU_VALUE_SIZE_def sizeof_value_def)

lemma roundtrip16:
  assumes "length v = sizeof_value" and "w = set_value_u16 (htons (value_u16 v)) v"
  shows "load_bytes 0 2 (set_value_u16 (ntohs (value_u16 (on_wire 2 w))) (on_wire 2 w)) = load_bytes 0 2 v"
proof -
  have l: "length w = sizeof_value" "length (on_wire 2 w) = sizeof_value"
    using assms by (simp_all add: length_on_wire sizeof_value_def set_value_u16_def)
  have "value_u16 (on_wire 2 w) = value_u16 w"
    using l load_on_wire [of 2 w] by (simp add: value_u16_def sizeof_value_def load_bytes_def)
  also have "\<dots> = htons (value_u16 v)" using assms by (simp add: byte_simps)
  finally show ?thesis
    using l assms(1) by (simp add: set_value_u16_def byte_simps value_u16_def sizeof_value_def)
qed

lemma value_ConsE:
  assumes "length v = sizeof_value"
  obtains a b c d r where "v = a # b # c # d # r"
proof -
  have "4 \<le> length v" using assms by (simp add: sizeof_value_def)
  then obtain a b c d r where "v = a # b # c # d # r"
    by (cases v; cases "tl v"; cases "tl (tl v)"; cases "tl (tl (tl v))") auto
  then show thesis by (rule that)
qed

lemma on_wire_4: "length r = sizeof_value - 4 \<Longrightarrow> \<exists>q. on_wire 4 (a # b # c # d # r) = a # b # c # d # q"
  by (simp add: on_wire_def store_bytes_def NEU_VALUE_SIZE_def sizeof_value_def)

lemma roundtrip32:
  fixes e dflt
  defines "cv \<equiv> \<lambda>x. if dflt then modbus_convert_endianess x e else x"
  assumes "length v = sizeof_value" and "w = set_value_u32 (htonl (value_u32 (cv v))) (cv v)"
  shows "load_bytes 0 4 (set_value_u32 (ntohl (value_u32 (cv (on_wire 4 w)))) (cv (on_wire 4 w))) = load_bytes 0 4 v"
proof -
  obtain a b c d r where v: "v = a # b # c # d # r" using assms(2) by (rule value_ConsE)
  have r: "length r = sizeof_value - 4" using assms(2) by (simp add: v sizeof_value_def)
  show ?thesis
  proof (cases dflt)
    case False
    then have w: "w = d # c # b # a # r"
      by (simp add: assms(3) cv_def v value_u32_Cons set_value_u32_rev del: le_word.simps)
    obtain q where "on_wire 4 w = d # c # b # a # q" using on_wire_4 [OF r] w by blast
    then show ?thesis
      using False by (simp add: cv_def v value_u32_Cons set_value_u32_rev load_bytes_def del: le_word.simps)
  next
    case True
    obtain a' b' c' d' where o: "order32 e a b c d = [a', b', c', d']" "order32 e d' c' b' a' = [d, c, b, a]"
      by (cases e) (simp_all add: order32_def)
    then have w: "w = d' # c' # b' # a' # r"
      using True by (simp add: assms(3) cv_def v convert_endianess_Cons value_u32_Cons set_value_u32_rev del: le_word.simps)
    obtain q where "on_wire 4 w = d' # c' # b' # a' # q" using on_wire_4 [OF r] w by blast
    then show ?thesis
      using True o(2)
      by (simp add: cv_def v convert_endianess_Cons value_u32_Cons set_value_u32_rev load_bytes_def del: le_word.simps)
  qed
qed

lemma roundtrip64:
  fixes e dflt
  defines "cv \<equiv> \<lambda>x. if dflt then modbus_convert_endianess_64 x e else x"
  assumes "length v = sizeof_value" and "w = set_value_u64 (neu_htonll (value_u64 (cv v))) (cv v)"
  shows "load_bytes 0 8 (set_value_u64 (neu_ntohll (value_u64 (cv (on_wire 8 w)))) (cv (on_wire 8 w))) = load_bytes 0 8 v"
proof -
  have cv: "length (cv x) = sizeof_value" "value_u64 (cv x) = (if dflt then order64 e (value_u64 x) else value_u64 x)"
    if "length x = sizeof_value" for x
    using that by (simp_all add: cv_def convert_endianess_64_u64)
  have l: "length w = sizeof_value" "length (on_wire 8 w) = sizeof_value"
    using assms(2,3) cv(1) [of v] by (simp_all add: length_on_wire sizeof_value_def set_value_u64_def)
  have "value_u64 (on_wire 8 w) = value_u64 w"
    using l load_on_wire [of 8 w] by (simp add: value_u64_def sizeof_value_def load_bytes_def)
  also have "\<dots> = neu_htonll (value_u64 (cv v))" using assms cv(1) [of v] by (simp add: byte_simps)
  finally have "neu_ntohll (value_u64 (cv (on_wire 8 w))) = value_u64 v"
    using cv(2) [OF l(2)] cv(2) [OF assms(2)] by (simp add: neu_ntohll_def)
  then show ?thesis
    using cv(1) [OF l(2)] assms(2) by (simp add: set_value_u64_def byte_simps value_u64_def sizeof_value_def)
qed


text \<open>
  C9: A 16, 32 or 64-bit value that is written with \<^verbatim>\<open>convert_value\<close> and read back from the
  registers it was written to is the value that was written, for every configured byte
  order and whether or not the address overrides it.
\<close>

theorem modbus_value_roundtrip:
  assumes "value_registers (dt_type tag) > 0" and "mp_type p = dt_type tag" and "length v = sizeof_value"
    and "opt_value_is_default (dt_option tag) = opt_value_is_default (mp_option p)"
  shows "\<exists>n w v'. convert_value e e64 v tag p = Some (n, w) \<and> unat n = 2 * value_registers (dt_type tag) \<and>
    from_wire e e64 p (on_wire (unat n) w) = Some v' \<and>
    load_bytes 0 (unat n) v' = load_bytes 0 (unat n) v"
proof -
  consider "dt_type tag \<in> {NEU_TYPE_UINT16, NEU_TYPE_INT16}"
    | "dt_type tag \<in> {NEU_TYPE_FLOAT, NEU_TYPE_INT32, NEU_TYPE_UINT32}"
    | "dt_type tag \<in> {NEU_TYPE_DOUBLE, NEU_TYPE_INT64, NEU_TYPE_UINT64}"
    using assms(1) by (cases "dt_type tag") simp_all
  then show ?thesis
  proof cases
    case 1
    then show ?thesis
      using roundtrip16 [OF assms(3) refl] assms(2) by (auto simp: convert_value_def from_wire_def)
  next
    case 2
    then show ?thesis
      using roundtrip32 [OF assms(3) refl, of "opt_value_is_default (mp_option p)" e] assms(2)
      by (auto simp: convert_value_def from_wire_def Let_def)
  next
    case 3
    then show ?thesis
      using roundtrip64 [OF assms(3) refl, of "opt_value_is_default (mp_option p)" e64] assms(2,4)
      by (auto simp: convert_value_def from_wire_def Let_def)
  qed
qed

section \<open>Batched reads report what the device holds\<close>

text \<open>
  A device with registers \<open>reg\<close> and coils \<open>coil\<close>, the data it sends for a range, and the value of
  a point taken from its own registers alone.
\<close>

definition register_bytes :: "(nat \<Rightarrow> u16) \<Rightarrow> nat \<Rightarrow> nat \<Rightarrow> bytes" where
  "register_bytes reg s n = concat (map (\<lambda>i. rev (le_bytes 2 (reg i))) [s..<s + n])"

definition coil_byte :: "(nat \<Rightarrow> bool) \<Rightarrow> nat \<Rightarrow> u8" where
  "coil_byte coil s = horner_sum of_bool 2 (map coil [s..<s + 8])"

definition coil_bytes :: "(nat \<Rightarrow> bool) \<Rightarrow> nat \<Rightarrow> nat \<Rightarrow> bytes" where
  "coil_bytes coil s n = map (\<lambda>j. coil_byte coil (s + 8 * j)) [0..<(n + 7) div 8]"

definition device_data :: "(nat \<Rightarrow> u16) \<Rightarrow> (nat \<Rightarrow> bool) \<Rightarrow> modbus_area \<Rightarrow> u16 \<Rightarrow> u16 \<Rightarrow> bytes" where
  "device_data reg coil area start n =
     (if bits_area area then coil_bytes coil (unat start) (unat n) else register_bytes reg (unat start) (unat n))"

definition device_value ::
    "modbus_endianess \<Rightarrow> modbus_endianess_64 \<Rightarrow> (nat \<Rightarrow> u16) \<Rightarrow> (nat \<Rightarrow> bool) \<Rightarrow> modbus_point \<Rightarrow> neu_dvalue option" where
  "device_value e e64 reg coil p =
     map_option (typed_value (mp_type p))
       (from_wire e e64 p
          (if bits_area (mp_area p)
           then set_value_u8 (if coil (unat (mp_start_address p)) then 1 else 0) zero_value
           else let n = 2 * unat (mp_n_register p)
                in on_wire n (register_bytes reg (unat (mp_start_address p)) (unat (mp_n_register p)))))"

lemma register_bytes_add: "register_bytes reg s (n + m) = register_bytes reg s n @ register_bytes reg (s + n) m"
proof -
  have "[s..<s + (n + m)] = [s..<s + n] @ [s + n..<s + n + m]"
    using upt_add_eq_append [of s "s + n" m] by (simp add: add.assoc)
  then show ?thesis by (simp add: register_bytes_def)
qed

lemma length_register_bytes [simp]: "length (register_bytes reg s n) = 2 * n"
  by (induction n) (simp_all add: register_bytes_def)

lemma load_register_bytes:
  assumes "k + m \<le> n"
  shows "load_bytes (2 * k) (2 * m) (register_bytes reg s n) = register_bytes reg (s + k) m"
proof -
  obtain l where n: "n = k + (m + l)" using assms by (metis add.assoc le_iff_add)
  show ?thesis by (simp add: n register_bytes_add load_bytes_def add.assoc)
qed

lemma bit_coil_byte: "k < 8 \<Longrightarrow> bit (coil_byte coil s) k = coil (s + k)"
  by (simp add: coil_byte_def bit_horner_sum_bit_word_iff)

lemma point_in_cmd:
  assumes "cmd_covers m c" and "p \<in> set (rc_tags c)"
  shows "unat (mp_start_address p) = unat (rc_start_address c) + unat (mp_start_address p - rc_start_address c)"
    "unat (mp_start_address p - rc_start_address c) + unat (mp_n_register p) \<le> unat (rc_n_register c)"
    "mp_slave_id p = rc_slave_id c" "mp_area p = rc_area c"
  using assms unat_sub [of "rc_start_address c" "mp_start_address p"]
  by (auto simp: cmd_covers_def word_le_nat_alt)

lemma raw_registers_device:
  assumes c: "cmd_covers m c" and p: "p \<in> set (rc_tags c)" and n: "mp_n_register p \<le> 127"
  shows "raw_registers (rc_start_address c) (register_bytes reg (unat (rc_start_address c)) (unat (rc_n_register c))) p =
    Some (on_wire (2 * unat (mp_n_register p)) (register_bytes reg (unat (mp_start_address p)) (unat (mp_n_register p))))"
proof -
  define d k where "d = unat (mp_start_address p - rc_start_address c)" and "k = unat (mp_n_register p)"
  note pc = point_in_cmd [OF c p, folded d_def k_def]
  have off: "(uint (mp_start_address p) - uint (rc_start_address c)) * 2 = int (2 * d)"
    unfolding uint_nat pc(1) by simp
  have "k \<le> 127" using n by (simp add: word_le_nat_alt k_def)
  moreover have "load_bytes (2 * d) (2 * k) (register_bytes reg (unat (rc_start_address c)) (unat (rc_n_register c))) =
      register_bytes reg (unat (mp_start_address p)) k"
    using load_register_bytes [OF pc(2)] pc(1) by simp
  moreover have "int d * 2 + int k * 2 \<le> 2 * uint (rc_n_register c)"
    unfolding uint_nat using pc(2) by linarith
  ultimately show ?thesis
    unfolding raw_registers_def Let_def off k_def [symmetric]
    by (simp add: on_wire_def NEU_VALUE_SIZE_def mult.commute nat_mult_distrib)
qed

lemma raw_bit_device:
  assumes c: "cmd_covers m c" and p: "p \<in> set (rc_tags c)" and n: "mp_n_register p = 1"
  shows "raw_bit (rc_start_address c) (coil_bytes coil (unat (rc_start_address c)) (unat (rc_n_register c))) p =
    Some (set_value_u8 (if coil (unat (mp_start_address p)) then 1 else 0) zero_value)"
proof -
  let ?o = "mp_start_address p - rc_start_address c"
  note pc = point_in_cmd [OF c p]
  have lt: "unat ?o < unat (rc_n_register c)" using pc(2) n by simp
  have o: "unat (?o div 8) = unat ?o div 8" "unat (?o mod 8) = unat ?o mod 8"
    by (simp_all add: unat_div unat_mod)
  then have o8: "unat (ucast (?o mod 8) :: u8) = unat ?o mod 8"
    by (simp add: unsigned_ucast_eq take_bit_nat_eq_self)
  have idx: "unat ?o div 8 < (unat (rc_n_register c) + 7) div 8" using lt by linarith
  have "unat (rc_start_address c) + 8 * (unat ?o div 8) + unat ?o mod 8 = unat (mp_start_address p)"
    using pc(1) by presburger
  then have bit: "bit (coil_bytes coil (unat (rc_start_address c)) (unat (rc_n_register c)) ! (unat ?o div 8))
      (unat ?o mod 8) = coil (unat (mp_start_address p))"
    using idx by (simp add: coil_bytes_def bit_coil_byte)
  have "(ucast (?o mod 8) :: u8) \<le> 7" by (simp add: word_le_nat_alt o8)
  then show ?thesis
    using idx bit by (simp add: raw_bit_def Let_def o o8 neu_value8_get_bit_def coil_bytes_def)
qed

lemma point_value_device:
  assumes c: "cmd_covers m c" and p: "p \<in> set (rc_tags c)" and g: "groupable m p"
  shows "point_value e e64 c (rc_slave_id c)
      (device_data reg coil (rc_area c) (rc_start_address c) (rc_n_register c)) p =
    device_value e e64 reg coil p"
proof -
  note pc = point_in_cmd [OF c p]
  have in': "\<not> uint (mp_start_address p) + uint (mp_n_register p) > uint (rc_start_address c) + uint (rc_n_register c)"
    unfolding uint_nat using pc(1,2) by linarith
  show ?thesis
  proof (cases "bits_area (rc_area c)")
    case True
    then have "raw_value (rc_start_address c) (device_data reg coil (rc_area c) (rc_start_address c) (rc_n_register c)) p =
        Some (set_value_u8 (if coil (unat (mp_start_address p)) then 1 else 0) zero_value)"
      using raw_bit_device [OF c p, of coil] g pc(4)
      by (auto simp: raw_value_def device_data_def groupable_def bits_area_def)
    then show ?thesis
      using True pc(3,4) in' by (simp add: point_value_def device_value_def)
  next
    case False
    then have "raw_value (rc_start_address c) (device_data reg coil (rc_area c) (rc_start_address c) (rc_n_register c)) p =
        Some (on_wire (2 * unat (mp_n_register p)) (register_bytes reg (unat (mp_start_address p)) (unat (mp_n_register p))))"
      using raw_registers_device [OF c p, of reg] g pc(4)
      by (cases "rc_area c") (auto simp: raw_value_def device_data_def groupable_def bits_area_def)
    then show ?thesis
      using False pc(3,4) in' by (simp add: point_value_def device_value_def Let_def)
  qed
qed

lemma map_point_value_device:
  assumes "cmd_covers m c" and "\<forall>p \<in> set (rc_tags c). groupable m p"
  shows "map (point_value e e64 c (rc_slave_id c)
      (device_data reg coil (rc_area c) (rc_start_address c) (rc_n_register c))) (rc_tags c) =
    map (device_value e e64 reg coil) (rc_tags c)"
  using point_value_device [OF assms(1)] assms(2) by (intro map_cong) simp_all

text \<open>
  C18: Reading a whole command and dealing the response out to its points reports, for each
  point in order, exactly the value that the point's own registers or coil hold on the
  device; grouping points into commands does not change any value.
\<close>

theorem modbus_batch_read_values:
  assumes "cmd_covers m c" and "\<forall>p \<in> set (rc_tags c). groupable m p"
  shows "modbus_value_handle e e64 c (rc_slave_id c)
      (device_data reg coil (rc_area c) (rc_start_address c) (rc_n_register c)) NEU_ERR_SUCCESS =
    map_option (zip (map (\<lambda>p. Some (mp_name p)) (rc_tags c))) (those (map (device_value e e64 reg coil) (rc_tags c)))"
  using map_point_value_device [OF assms, of e e64 reg coil]
  by (simp add: modbus_value_handle_def del: map_eq_conv)

section \<open>Instances\<close>

theorem modbus_value_roundtrip_witness:
  "\<exists>n w v'. convert_value MODBUS_CDAB MODBUS_LL (replicate 264 7) (zero_tag\<lparr>dt_type := NEU_TYPE_FLOAT\<rparr>)
       (zero_point\<lparr>mp_type := NEU_TYPE_FLOAT\<rparr>) = Some (n, w) \<and>
     from_wire MODBUS_CDAB MODBUS_LL (zero_point\<lparr>mp_type := NEU_TYPE_FLOAT\<rparr>) (on_wire (unat n) w) = Some v' \<and>
     unat n = 4 \<and> load_bytes 0 4 v' = load_bytes 0 4 (replicate 264 7)"
  using modbus_value_roundtrip [of "zero_tag\<lparr>dt_type := NEU_TYPE_FLOAT\<rparr>" "zero_point\<lparr>mp_type := NEU_TYPE_FLOAT\<rparr>"
      "replicate 264 7" MODBUS_CDAB MODBUS_LL]
  by (auto simp: zero_tag_def zero_point_def sizeof_value_def)

definition sample_cmd :: modbus_read_cmd where
  "sample_cmd = \<lparr>rc_slave_id = 1, rc_area = MODBUS_AREA_HOLD_REGISTER, rc_start_address = 4, rc_n_register = 2,
     rc_tags = [sample_point 4, sample_point 5]\<rparr>"

lemma sample_cmd_covers: "cmd_covers 250 sample_cmd"
  by (simp add: cmd_covers_def sample_cmd_def sample_point_def span_limit_def bits_area_def)

theorem modbus_batch_read_values_witness:
  "modbus_value_handle MODBUS_ABCD MODBUS_LL sample_cmd 1
     (device_data (\<lambda>i. of_nat i) (\<lambda>i. False) MODBUS_AREA_HOLD_REGISTER 4 2) NEU_ERR_SUCCESS =
   map_option (zip [Some ''t'', Some ''t''])
     (those (map (device_value MODBUS_ABCD MODBUS_LL (\<lambda>i. of_nat i) (\<lambda>i. False)) [sample_point 4, sample_point 5]))"
  using modbus_batch_read_values [of 250 sample_cmd MODBUS_ABCD MODBUS_LL "\<lambda>i. of_nat i" "\<lambda>i. False", OF sample_cmd_covers]
  by (simp add: sample_cmd_def sample_point_def [of 4] sample_point_def [of 5] groupable_def bits_area_def)

end
