(* ===== verification/Modbus_Req.thy ===== *)
theory Modbus_Req
  imports Modbus_Value
begin

unbundle bit_operations_syntax

text \<open>
  \<^verbatim>\<open>plugins/modbus/modbus_req.c\<close>: sending with a switch to the backup address, receiving a
  response on TCP and RTU, a read with retries, the cyclic read of a group with degradation
  of slaves that do not answer, and the two ways to write tags. The connection library is an
  argument: a record of its operations on a connection state. Time, tracing and metrics are
  left out, and memory for receive buffers is taken to be available.
\<close>

section \<open>Plugin state\<close>

text \<open>
  The operations of \<^verbatim>\<open>neu_connection.h\<close> the driver calls. Receiving gives the return value, the
  bytes stored and the new state; \<open>cn_reconfig\<close> is given whether the backup address is used.
  The last two say whether \<^verbatim>\<open>malloc\<close> and \<^verbatim>\<open>pthread_create\<close> succeed for a timer thread.
\<close>

record 'w conn_ops =
  cn_clear_recv_buffer :: "'w \<Rightarrow> 'w"
  cn_send :: "'w \<Rightarrow> bytes \<Rightarrow> int \<times> 'w"
  cn_recv :: "'w \<Rightarrow> nat \<Rightarrow> int \<times> bytes \<times> 'w"
  cn_tcp_server_send :: "'w \<Rightarrow> bytes \<Rightarrow> int \<times> 'w"
  cn_tcp_server_recv :: "'w \<Rightarrow> nat \<Rightarrow> int \<times> bytes \<times> 'w"
  cn_is_connected :: "'w \<Rightarrow> bool"
  cn_reconfig :: "'w \<Rightarrow> bool \<Rightarrow> 'w"
  cn_disconnect :: "'w \<Rightarrow> 'w"
  cn_timer_memory :: "'w \<Rightarrow> bool"
  cn_timer_thread :: "'w \<Rightarrow> bool"

text \<open>
  \<^verbatim>\<open>struct neu_plugin\<close> with the two arrays \<^verbatim>\<open>failed_cycles\<close> and \<^verbatim>\<open>skip\<close>, indexed by slave. The last
  four fields record calls made: frames sent, value updates, write responses and degradation
  timers started.
\<close>

record 'w modbus_plugin =
  pl_conn :: 'w
  pl_stack :: modbus_stack
  pl_is_server :: bool
  pl_endianess :: modbus_endianess
  pl_endianess_64 :: modbus_endianess_64
  pl_address_base :: modbus_address_base
  pl_max_retries :: u16
  pl_check_header :: u16
  pl_degradation :: bool
  pl_degrade_cycle :: u16
  pl_degrade_time :: u16
  pl_backup :: bool
  pl_current_backup :: bool
  pl_first_attempt_done :: bool
  pl_failed_cycles :: "u8 list"
  pl_skip :: "bool list"
  pl_sent :: "bytes list"
  pl_updates :: "tag_update list"
  pl_responses :: "neu_err list"
  pl_timers :: "(u8 \<times> u16) list"

section \<open>Sending and receiving\<close>

definition modbus_send_msg ::
    "'w conn_ops \<Rightarrow> 'w modbus_plugin \<Rightarrow> bytes \<Rightarrow> int \<times> 'w modbus_plugin" where
  "modbus_send_msg ops plugin bs =
     (let plugin = plugin\<lparr>pl_conn := cn_clear_recv_buffer ops (pl_conn plugin)\<rparr> in
      if pl_is_server plugin
      then let (ret, w) = cn_tcp_server_send ops (pl_conn plugin) bs in (ret, plugin\<lparr>pl_conn := w\<rparr>)
      else
        let plugin =
          (if pl_backup plugin \<and> \<not> cn_is_connected ops (pl_conn plugin)
           then if \<not> pl_current_backup plugin \<and> pl_first_attempt_done plugin
                then plugin\<lparr>pl_current_backup := True, pl_conn := cn_reconfig ops (pl_conn plugin) True\<rparr>
                else plugin\<lparr>pl_current_backup := False, pl_conn := cn_reconfig ops (pl_conn plugin) False,
                            pl_first_attempt_done := True\<rparr>
           else plugin);
          (ret, w) = cn_send ops (pl_conn plugin) bs
        in (ret, plugin\<lparr>pl_conn := w\<rparr>))"

text \<open>The callbacks that the stack makes, in order; values go to the points of \<open>cmd\<close>.\<close>

fun run_events :: "'w conn_ops \<Rightarrow> modbus_read_cmd \<Rightarrow> modbus_event list \<Rightarrow> 'w modbus_plugin \<Rightarrow>
    'w modbus_plugin option" where
  "run_events ops cmd [] plugin = Some plugin"
| "run_events ops cmd (Ev_send bs # evs) plugin =
     (let plugin = snd (modbus_send_msg ops plugin bs)
      in run_events ops cmd evs (plugin\<lparr>pl_sent := pl_sent plugin @ [bs]\<rparr>))"
| "run_events ops cmd (Ev_value slave_id bs err # evs) plugin =
     (case modbus_value_handle (pl_endianess plugin) (pl_endianess_64 plugin) cmd slave_id bs err of
        None \<Rightarrow> None
      | Some ups \<Rightarrow> run_events ops cmd evs (plugin\<lparr>pl_updates := pl_updates plugin @ ups\<rparr>))"
| "run_events ops cmd (Ev_write_resp err # evs) plugin =
     run_events ops cmd evs (plugin\<lparr>pl_responses := pl_responses plugin @ [err]\<rparr>)"

definition recv_data :: "'w conn_ops \<Rightarrow> 'w modbus_plugin \<Rightarrow> nat \<Rightarrow> int \<times> bytes \<times> 'w modbus_plugin" where
  "recv_data ops plugin sz =
     (let (ret, bs, w) = (if pl_is_server plugin then cn_tcp_server_recv ops (pl_conn plugin) sz
                          else cn_recv ops (pl_conn plugin) sz)
      in (ret, bs, plugin\<lparr>pl_conn := w\<rparr>))"

definition process_received_data ::
    "'w conn_ops \<Rightarrow> modbus_read_cmd \<Rightarrow> 'w modbus_plugin \<Rightarrow> bytes \<Rightarrow> int \<Rightarrow> u16 \<Rightarrow> u8 \<Rightarrow>
     (int \<times> 'w modbus_plugin) option" where
  "process_received_data ops cmd plugin recv_buf recv_size expected_size slave_id =
     (let pbuf = neu_protocol_unpack_buf_init recv_buf (word_of_int recv_size);
          (ret, evs) = modbus_stack_recv (pl_check_header plugin \<noteq> 0) (pl_stack plugin) slave_id pbuf in
      case run_events ops cmd evs plugin of
        None \<Rightarrow> None
      | Some plugin \<Rightarrow>
          Some (if ret = MODBUS_DEVICE_ERR then -2
                else if recv_size = uint expected_size then ret else -1, plugin))"

text \<open>The header is received first and says how much more there is.\<close>

definition valid_modbus_tcp_response ::
    "'w conn_ops \<Rightarrow> 'w modbus_plugin \<Rightarrow> bytes \<Rightarrow> u16 \<Rightarrow> int \<times> bytes \<times> 'w modbus_plugin" where
  "valid_modbus_tcp_response ops plugin recv_buf response_size =
     (let (ret, bs, plugin) = recv_data ops plugin 6; recv_buf = store_bytes 0 bs recv_buf in
      if ret \<le> 0 then (0, recv_buf, plugin)
      else if ret \<noteq> 6 then (-1, recv_buf, plugin)
      else
        let len = htons (mh_len (header_of_bytes (load_bytes 0 6 recv_buf))) in
        if uint len > (uint response_size - 6) mod 2 ^ 64 then (-1, recv_buf, plugin)
        else let (ret, bs, plugin) = recv_data ops plugin (unat len);
                 recv_buf = store_bytes 6 bs recv_buf
             in (if ret = uint len then ret + 6 else -1, recv_buf, plugin))"

definition process_modbus_tcp ::
    "'w conn_ops \<Rightarrow> modbus_read_cmd \<Rightarrow> 'w modbus_plugin \<Rightarrow> bytes \<Rightarrow> u16 \<Rightarrow> u8 \<Rightarrow>
     (int \<times> 'w modbus_plugin) option" where
  "process_modbus_tcp ops cmd plugin recv_buf response_size slave_id =
     (let (total_recv, recv_buf, plugin) = valid_modbus_tcp_response ops plugin recv_buf response_size in
      if total_recv > 0
      then process_received_data ops cmd plugin recv_buf total_recv response_size slave_id
      else Some (total_recv, plugin))"

definition process_modbus_rtu ::
    "'w conn_ops \<Rightarrow> modbus_read_cmd \<Rightarrow> 'w modbus_plugin \<Rightarrow> bytes \<Rightarrow> u16 \<Rightarrow> u8 \<Rightarrow>
     (int \<times> 'w modbus_plugin) option" where
  "process_modbus_rtu ops cmd plugin recv_buf response_size slave_id =
     (let (ret, bs, plugin) = recv_data ops plugin (unat response_size);
          recv_buf = store_bytes 0 bs recv_buf in
      if ret = 0 \<or> ret = -1 then Some (0, plugin)
      else process_received_data ops cmd plugin recv_buf ret response_size slave_id)"

definition process_protocol_buf ::
    "'w conn_ops \<Rightarrow> modbus_read_cmd \<Rightarrow> 'w modbus_plugin \<Rightarrow> u8 \<Rightarrow> u16 \<Rightarrow> (int \<times> 'w modbus_plugin) option" where
  "process_protocol_buf ops cmd plugin slave_id response_size =
     (let recv_buf = replicate (unat response_size) 0 in
      case st_protocol (pl_stack plugin) of
        MODBUS_PROTOCOL_TCP \<Rightarrow> process_modbus_tcp ops cmd plugin recv_buf response_size slave_id
      | MODBUS_PROTOCOL_RTU \<Rightarrow> process_modbus_rtu ops cmd plugin recv_buf response_size slave_id)"

section \<open>Reading a command\<close>

text \<open>
  \<^verbatim>\<open>modbus_stack_read\<close> called on the plugin: the callbacks run with the plugin as context. The
  static buffer of the stack is filled with zeros at the start; what it holds from earlier
  calls is overwritten before it is sent.
\<close>

definition plugin_stack_read ::
    "'w conn_ops \<Rightarrow> modbus_read_cmd \<Rightarrow> 'w modbus_plugin \<Rightarrow> (int \<times> u16 \<times> 'w modbus_plugin) option" where
  "plugin_stack_read ops cmd plugin =
     (case modbus_stack_read (\<lambda>bs. fst (modbus_send_msg ops plugin bs)) (replicate 16 0) (pl_stack plugin)
             (rc_slave_id cmd) (rc_area cmd) (rc_start_address cmd) (rc_n_register cmd) False of
        None \<Rightarrow> None
      | Some (ret, response_size, stack, evs) \<Rightarrow>
          map_option (\<lambda>plugin. (ret, response_size, plugin))
            (run_events ops cmd evs (plugin\<lparr>pl_stack := stack\<rparr>)))"

text \<open>One attempt: the request and, when it was sent, the response.\<close>

definition read_attempt ::
    "'w conn_ops \<Rightarrow> modbus_read_cmd \<Rightarrow> int \<Rightarrow> 'w modbus_plugin \<Rightarrow> (int \<times> int \<times> 'w modbus_plugin) option" where
  "read_attempt ops cmd ret_buf plugin =
     (case plugin_stack_read ops cmd plugin of
        None \<Rightarrow> None
      | Some (ret_r, response_size, plugin) \<Rightarrow>
          if ret_r > 0
          then map_option (\<lambda>(ret_buf, plugin). (ret_r, ret_buf, plugin))
                 (process_protocol_buf ops cmd plugin (rc_slave_id cmd) response_size)
          else Some (ret_r, ret_buf, plugin))"

fun retry_loop ::
    "'w conn_ops \<Rightarrow> modbus_read_cmd \<Rightarrow> nat \<Rightarrow> int \<Rightarrow> int \<Rightarrow> 'w modbus_plugin \<Rightarrow>
     (int \<times> int \<times> 'w modbus_plugin) option" where
  "retry_loop ops cmd 0 ret_r ret_buf plugin = Some (ret_r, ret_buf, plugin)"
| "retry_loop ops cmd (Suc k) ret_r ret_buf plugin =
     (case read_attempt ops cmd ret_buf plugin of
        None \<Rightarrow> None
      | Some (ret_r, ret_buf, plugin) \<Rightarrow>
          if ret_r > 0 \<and> ret_buf = 0 then retry_loop ops cmd k ret_r ret_buf plugin
          else Some (ret_r, ret_buf, plugin))"

definition handle_modbus_error ::
    "'w conn_ops \<Rightarrow> modbus_read_cmd \<Rightarrow> neu_err \<Rightarrow> 'w modbus_plugin \<Rightarrow> 'w modbus_plugin option" where
  "handle_modbus_error ops cmd err plugin =
     run_events ops cmd [Ev_value (rc_slave_id cmd) [] err] plugin"

definition plugin_disconnect :: "'w conn_ops \<Rightarrow> 'w modbus_plugin \<Rightarrow> 'w modbus_plugin" where
  "plugin_disconnect ops plugin = plugin\<lparr>pl_conn := cn_disconnect ops (pl_conn plugin)\<rparr>"

text \<open>The Boolean is the entry of \<^verbatim>\<open>slave_err\<close> for the slave of the command.\<close>

definition finalize_modbus_read_result ::
    "'w conn_ops \<Rightarrow> modbus_read_cmd \<Rightarrow> int \<Rightarrow> int \<Rightarrow> 'w modbus_plugin \<Rightarrow> ('w modbus_plugin \<times> bool) option" where
  "finalize_modbus_read_result ops cmd ret_r ret_buf plugin =
     (if ret_r \<le> 0
      then map_option (\<lambda>p. (plugin_disconnect ops p, False))
             (handle_modbus_error ops cmd NEU_ERR_PLUGIN_DISCONNECTED plugin)
      else if ret_buf \<le> 0
      then if ret_buf = 0
           then map_option (\<lambda>p. (p, True)) (handle_modbus_error ops cmd NEU_ERR_PLUGIN_DEVICE_NOT_RESPONSE plugin)
           else if ret_buf = -1
           then map_option (\<lambda>p. (plugin_disconnect ops p, False))
                  (handle_modbus_error ops cmd NEU_ERR_PLUGIN_PROTOCOL_DECODE_FAILURE plugin)
           else if ret_buf = -2
           then map_option (\<lambda>p. (p, False)) (handle_modbus_error ops cmd NEU_ERR_PLUGIN_READ_FAILURE plugin)
           else Some (plugin, False)
      else Some (plugin\<lparr>pl_failed_cycles := (pl_failed_cycles plugin)[unat (rc_slave_id cmd) := 0]\<rparr>, False))"

definition check_modbus_read_result ::
    "'w conn_ops \<Rightarrow> modbus_read_cmd \<Rightarrow> 'w modbus_plugin \<Rightarrow> ('w modbus_plugin \<times> bool) option" where
  "check_modbus_read_result ops cmd plugin =
     (case read_attempt ops cmd 0 plugin of
        None \<Rightarrow> None
      | Some (ret_r, ret_buf, plugin) \<Rightarrow>
          (case (if ret_r \<le> 0 \<or> ret_buf = 0
                 then retry_loop ops cmd (unat (pl_max_retries plugin)) ret_r ret_buf plugin
                 else Some (ret_r, ret_buf, plugin)) of
             None \<Rightarrow> None
           | Some (ret_r, ret_buf, plugin) \<Rightarrow> finalize_modbus_read_result ops cmd ret_r ret_buf plugin))"

section \<open>The cyclic read of a group\<close>

definition degrade_timer :: "u8 \<Rightarrow> 'w modbus_plugin \<Rightarrow> 'w modbus_plugin" where
  "degrade_timer slave_id plugin = plugin\<lparr>pl_skip := (pl_skip plugin)[unat slave_id := False]\<rparr>"

definition set_skip_timer :: "'w conn_ops \<Rightarrow> u8 \<Rightarrow> u16 \<Rightarrow> 'w modbus_plugin \<Rightarrow> 'w modbus_plugin" where
  "set_skip_timer ops slave_id degrade_time plugin =
     (if \<not> cn_timer_memory ops (pl_conn plugin) then degrade_timer slave_id plugin
      else
        let plugin = plugin\<lparr>pl_failed_cycles := (pl_failed_cycles plugin)[unat slave_id := 0]\<rparr> in
        if \<not> cn_timer_thread ops (pl_conn plugin) then degrade_timer slave_id plugin
        else plugin\<lparr>pl_timers := pl_timers plugin @ [(slave_id, degrade_time)]\<rparr>)"

text \<open>
  One round of the loop over the commands. \<open>record\<close> is \<^verbatim>\<open>slave_err_record\<close>: a slave that did not
  answer is not asked again in this cycle.
\<close>

definition group_timer_step ::
    "'w conn_ops \<Rightarrow> modbus_read_cmd \<Rightarrow> bool list \<Rightarrow> 'w modbus_plugin \<Rightarrow> (bool list \<times> 'w modbus_plugin) option" where
  "group_timer_step ops cmd record plugin =
     (let s = unat (rc_slave_id cmd) in
      if record ! s then Some (record, plugin)
      else if \<not> pl_degradation plugin \<or> \<not> pl_skip plugin ! s
      then (case check_modbus_read_result ops cmd plugin of
              None \<Rightarrow> None
            | Some (plugin, slave_err) \<Rightarrow>
                if pl_degradation plugin
                then
                  let (record, plugin) =
                        (if slave_err
                         then (record[s := True],
                               plugin\<lparr>pl_failed_cycles := (pl_failed_cycles plugin)[s := pl_failed_cycles plugin ! s + 1]\<rparr>)
                         else (record, plugin))
                  in Some (record,
                       if uint (pl_failed_cycles plugin ! s) \<ge> uint (pl_degrade_cycle plugin)
                       then set_skip_timer ops (rc_slave_id cmd) (pl_degrade_time plugin)
                              (plugin\<lparr>pl_skip := (pl_skip plugin)[s := True]\<rparr>)
                       else plugin)
                else Some (record, plugin))
      else Some (record, plugin))"

fun group_timer_loop ::
    "'w conn_ops \<Rightarrow> modbus_read_cmd list \<Rightarrow> bool list \<Rightarrow> 'w modbus_plugin \<Rightarrow> 'w modbus_plugin option" where
  "group_timer_loop ops [] record plugin = Some plugin"
| "group_timer_loop ops (cmd # cmds) record plugin =
     (case group_timer_step ops cmd record plugin of
        None \<Rightarrow> None
      | Some (record, plugin) \<Rightarrow> group_timer_loop ops cmds record plugin)"

text \<open>
  The group data is built at the first call and again when the address base was
  reconfigured. A tag that does not parse is reported, and its point is used as it is.
\<close>

record modbus_group_data =
  gd_tags :: "modbus_point list"
  gd_group :: string
  gd_cmd_sort :: modbus_read_cmd_sort
  gd_address_base :: modbus_address_base

definition modbus_group_data_new ::
    "string \<Rightarrow> neu_datatag list \<Rightarrow> modbus_address_base \<Rightarrow> u16 \<Rightarrow> modbus_group_data option" where
  "modbus_group_data_new grp tags address_base max_byte =
     (let points = map (\<lambda>tag. snd (modbus_tag_to_point tag zero_point address_base)) tags in
      map_option (\<lambda>s. \<lparr>gd_tags = points, gd_group = grp, gd_cmd_sort = s, gd_address_base = address_base\<rparr>)
        (modbus_tag_sort points max_byte))"

definition modbus_group_timer ::
    "'w conn_ops \<Rightarrow> string \<Rightarrow> neu_datatag list \<Rightarrow> modbus_group_data option \<Rightarrow> u16 \<Rightarrow> 'w modbus_plugin \<Rightarrow>
     (modbus_group_data \<times> 'w modbus_plugin) option" where
  "modbus_group_timer ops grp tags user_data max_byte plugin =
     (case (case user_data of
              Some gd \<Rightarrow> if gd_address_base gd \<noteq> pl_address_base plugin
                         then modbus_group_data_new grp tags (pl_address_base plugin) max_byte else Some gd
            | None \<Rightarrow> modbus_group_data_new grp tags (pl_address_base plugin) max_byte) of
        None \<Rightarrow> None
      | Some gd \<Rightarrow>
          map_option (\<lambda>plugin. (gd, plugin))
            (group_timer_loop ops (rs_cmd (gd_cmd_sort gd)) (replicate 256 False) plugin))"

section \<open>Writing\<close>

definition plugin_stack_write ::
    "'w conn_ops \<Rightarrow> modbus_read_cmd \<Rightarrow> 'w modbus_plugin \<Rightarrow> u8 \<Rightarrow> modbus_area \<Rightarrow> u16 \<Rightarrow> u16 \<Rightarrow> bytes \<Rightarrow> u8 \<Rightarrow> bool \<Rightarrow>
     (int \<times> u16 \<times> 'w modbus_plugin) option" where
  "plugin_stack_write ops cmd plugin slave_id area start_address n_reg bs n_byte response =
     (case modbus_stack_write (\<lambda>f. fst (modbus_send_msg ops plugin f)) (pl_stack plugin)
             slave_id area start_address n_reg bs n_byte 0 response of
        None \<Rightarrow> None
      | Some (ret, response_size, stack, evs) \<Rightarrow>
          map_option (\<lambda>plugin. (ret, response_size, plugin))
            (run_events ops cmd evs (plugin\<lparr>pl_stack := stack\<rparr>)))"

text \<open>
  After a write the response is read with the command that the last read cycle left in the
  plugin; a value in it would be reported for that command's tags.
\<close>

definition write_modbus_point ::
    "'w conn_ops \<Rightarrow> modbus_read_cmd \<Rightarrow> 'w modbus_plugin \<Rightarrow> modbus_point \<Rightarrow> neu_value_u \<Rightarrow> u8 \<Rightarrow>
     (int \<times> 'w modbus_plugin) option" where
  "write_modbus_point ops cmd plugin point v n_byte =
     (case plugin_stack_write ops cmd plugin (mp_slave_id point) (mp_area point) (mp_start_address point)
             (mp_n_register point) v n_byte True of
        None \<Rightarrow> None
      | Some (ret, response_size, plugin) \<Rightarrow>
          if ret > 0
          then map_option (\<lambda>(_, plugin). (ret, plugin))
                 (process_protocol_buf ops cmd plugin (mp_slave_id point) response_size)
          else Some (ret, plugin))"

definition modbus_write_tag ::
    "'w conn_ops \<Rightarrow> modbus_read_cmd \<Rightarrow> 'w modbus_plugin \<Rightarrow> neu_datatag \<Rightarrow> neu_value_u \<Rightarrow>
     (int \<times> 'w modbus_plugin) option" where
  "modbus_write_tag ops cmd plugin tag v =
     (let (ret, point) = modbus_tag_to_point tag zero_point (pl_address_base plugin) in
      if ret \<noteq> NEU_ERR_SUCCESS then None
      else (case convert_value (pl_endianess plugin) (pl_endianess_64 plugin) v tag point of
              None \<Rightarrow> None
            | Some (n_byte, v) \<Rightarrow> write_modbus_point ops cmd plugin point v n_byte))"

definition write_modbus_points ::
    "'w conn_ops \<Rightarrow> modbus_read_cmd \<Rightarrow> 'w modbus_plugin \<Rightarrow> modbus_write_cmd \<Rightarrow> (int \<times> 'w modbus_plugin) option" where
  "write_modbus_points ops cmd plugin wc =
     (case plugin_stack_write ops cmd plugin (wc_slave_id wc) (wc_area wc) (wc_start_address wc)
             (wc_n_register wc) (wc_bytes wc) (wc_n_byte wc) False of
        None \<Rightarrow> None
      | Some (ret, response_size, plugin) \<Rightarrow>
          if ret > 0
          then map_option (\<lambda>(_, plugin). (ret, plugin))
                 (process_protocol_buf ops cmd plugin (wc_slave_id wc) response_size)
          else Some (ret, plugin))"

fun write_cmds_loop ::
    "'w conn_ops \<Rightarrow> modbus_read_cmd \<Rightarrow> modbus_write_cmd list \<Rightarrow> int \<Rightarrow> int \<Rightarrow> 'w modbus_plugin \<Rightarrow>
     (int \<times> int \<times> 'w modbus_plugin) option" where
  "write_cmds_loop ops cmd [] ret rv plugin = Some (ret, rv, plugin)"
| "write_cmds_loop ops cmd (wc # wcs) ret rv plugin =
     (case write_modbus_points ops cmd plugin wc of
        None \<Rightarrow> None
      | Some (ret, plugin) \<Rightarrow> write_cmds_loop ops cmd wcs ret (if ret \<le> 0 then 1 else rv) plugin)"

definition modbus_write_resp :: "neu_err \<Rightarrow> 'w modbus_plugin \<Rightarrow> 'w modbus_plugin" where
  "modbus_write_resp err plugin = plugin\<lparr>pl_responses := pl_responses plugin @ [err]\<rparr>"

definition write_points :: "(neu_datatag \<times> neu_value_u) list \<Rightarrow> modbus_address_base \<Rightarrow> modbus_point_write list option" where
  "write_points tags address_base =
     those (map (\<lambda>(tag, v).
       let (ret, p) = modbus_write_tag_to_point tag v \<lparr>pw_point = zero_point, pw_value = zero_value\<rparr> address_base
       in if ret \<noteq> NEU_ERR_SUCCESS then None else Some p) tags)"

definition modbus_write_tags ::
    "'w conn_ops \<Rightarrow> modbus_read_cmd \<Rightarrow> u16 \<Rightarrow> 'w modbus_plugin \<Rightarrow> (neu_datatag \<times> neu_value_u) list \<Rightarrow>
     (int \<times> 'w modbus_plugin) option" where
  "modbus_write_tags ops cmd max_byte plugin tags =
     (case write_points tags (pl_address_base plugin) of None \<Rightarrow> None | Some points \<Rightarrow>
     (case modbus_write_tags_sort points max_byte (pl_endianess plugin) (pl_endianess_64 plugin) of
        None \<Rightarrow> None
      | Some srt \<Rightarrow>
          (case write_cmds_loop ops cmd (ws_cmd srt) 0 0 plugin of
             None \<Rightarrow> None
           | Some (ret, rv, plugin) \<Rightarrow>
               Some (ret, modbus_write_resp
                            (if rv = 0 then NEU_ERR_SUCCESS else NEU_ERR_PLUGIN_DISCONNECTED) plugin))))"

section \<open>How many requests a read makes\<close>

lemma send_msg_keeps [simp]:
  "pl_sent (snd (modbus_send_msg ops p bs)) = pl_sent p"
  "pl_updates (snd (modbus_send_msg ops p bs)) = pl_updates p"
  "pl_stack (snd (modbus_send_msg ops p bs)) = pl_stack p"
  "pl_max_retries (snd (modbus_send_msg ops p bs)) = pl_max_retries p"
  "pl_endianess (snd (modbus_send_msg ops p bs)) = pl_endianess p"
  "pl_endianess_64 (snd (modbus_send_msg ops p bs)) = pl_endianess_64 p"
  "pl_is_server (snd (modbus_send_msg ops p bs)) = pl_is_server p"
  "pl_check_header (snd (modbus_send_msg ops p bs)) = pl_check_header p"
  "pl_degradation (snd (modbus_send_msg ops p bs)) = pl_degradation p"
  by (simp_all add: modbus_send_msg_def Let_def split: prod.split)

fun is_send :: "modbus_event \<Rightarrow> bool" where
  "is_send (Ev_send bs) = True"
| "is_send _ = False"

lemma run_events_sent:
  "run_events ops cmd evs p = Some p' \<Longrightarrow>
     length (pl_sent p') = length (pl_sent p) + length (filter is_send evs) \<and> pl_max_retries p' = pl_max_retries p"
  by (induction ops cmd evs p rule: run_events.induct) (auto simp: Let_def split: option.splits)

lemma stack_read_sends:
  assumes "modbus_stack_read send (replicate 16 0) stack s a st n t = Some (r, sz, stack', evs)"
  shows "length (filter is_send evs) = 1"
  using assms by (auto simp: modbus_stack_read_adu Let_def)

lemma recv_no_send:
  assumes "modbus_stack_recv c stack s buf = (r, evs)"
  shows "filter is_send evs = []"
proof (cases "evs = []")
  case False
  then obtain protocol header b where "recv_body protocol s header b = (r, evs)"
    using assms by (auto simp: modbus_stack_recv_def Let_def split: modbus_protocol_e.splits if_splits prod.splits)
  from recv_body_events [OF this False] show ?thesis by auto
qed simp

lemma recv_data_keeps:
  assumes "recv_data ops p n = (r, bs, p')"
  shows "pl_sent p' = pl_sent p \<and> pl_max_retries p' = pl_max_retries p"
  using assms by (auto simp: recv_data_def Let_def split: prod.splits)

lemma process_received_data_sent:
  assumes "process_received_data ops cmd p b n e s = Some (r, p')"
  shows "length (pl_sent p') = length (pl_sent p) \<and> pl_max_retries p' = pl_max_retries p"
proof -
  obtain ret evs where e: "modbus_stack_recv (pl_check_header p \<noteq> 0) (pl_stack p) s
      (neu_protocol_unpack_buf_init b (word_of_int n)) = (ret, evs)" by fastforce
  with assms have "run_events ops cmd evs p = Some p'"
    by (auto simp: process_received_data_def Let_def split: option.splits)
  from run_events_sent [OF this] recv_no_send [OF e] show ?thesis by simp
qed

lemma process_protocol_buf_sent:
  assumes "process_protocol_buf ops cmd p s sz = Some (r, p')"
  shows "length (pl_sent p') = length (pl_sent p) \<and> pl_max_retries p' = pl_max_retries p"
  using assms
  by (auto simp: process_protocol_buf_def process_modbus_tcp_def process_modbus_rtu_def
      valid_modbus_tcp_response_def Let_def split: modbus_protocol_e.splits prod.splits if_splits
      dest!: process_received_data_sent recv_data_keeps)

lemma plugin_stack_read_sent:
  assumes "plugin_stack_read ops cmd p = Some (r, sz, p')"
  shows "length (pl_sent p') = length (pl_sent p) + 1 \<and> pl_max_retries p' = pl_max_retries p"
  using assms
  by (auto simp: plugin_stack_read_def split: option.splits dest!: run_events_sent stack_read_sends)

lemma read_attempt_sent:
  assumes "read_attempt ops cmd rb p = Some (r, rb', p')"
  shows "length (pl_sent p') = length (pl_sent p) + 1 \<and> pl_max_retries p' = pl_max_retries p"
  using assms
  by (auto simp: read_attempt_def split: option.splits if_splits
      dest!: plugin_stack_read_sent process_protocol_buf_sent)

lemma retry_loop_sent:
  "retry_loop ops cmd k r rb p = Some (r', rb', p') \<Longrightarrow>
     length (pl_sent p) \<le> length (pl_sent p') \<and> length (pl_sent p') \<le> length (pl_sent p) + k"
proof (induction ops cmd k r rb p rule: retry_loop.induct)
  case (2 ops cmd k r rb p)
  then obtain r1 rb1 p1 where a: "read_attempt ops cmd rb p = Some (r1, rb1, p1)"
    by (auto split: option.splits)
  from read_attempt_sent [OF this] 2 a show ?case by (fastforce split: if_splits)
qed simp

lemma finalize_sent:
  assumes "finalize_modbus_read_result ops cmd r rb p = Some (p', e)"
  shows "length (pl_sent p') = length (pl_sent p)"
  using assms
  by (auto simp: finalize_modbus_read_result_def handle_modbus_error_def plugin_disconnect_def
      split: if_splits dest!: run_events_sent simp del: run_events.simps)

text \<open>
  C22: Reading a command sends at least one request and at most one more than the configured
  number of retries, whatever the connection returns, so that a slave that never answers
  cannot hold the driver in the retry loop.
\<close>

theorem modbus_read_requests_bounded:
  assumes "check_modbus_read_result ops cmd p = Some (p', e)"
  shows "length (pl_sent p) + 1 \<le> length (pl_sent p') \<and>
    length (pl_sent p') \<le> length (pl_sent p) + 1 + unat (pl_max_retries p)"
proof -
  from assms obtain r rb p1 where a: "read_attempt ops cmd 0 p = Some (r, rb, p1)"
    by (auto simp: check_modbus_read_result_def split: option.splits)
  with assms obtain r2 rb2 p2 where
    b: "(if r \<le> 0 \<or> rb = 0 then retry_loop ops cmd (unat (pl_max_retries p1)) r rb p1 else Some (r, rb, p1)) =
      Some (r2, rb2, p2)" and f: "finalize_modbus_read_result ops cmd r2 rb2 p2 = Some (p', e)"
    by (auto simp: check_modbus_read_result_def split: option.splits if_splits)
  have "length (pl_sent p1) \<le> length (pl_sent p2) \<and>
      length (pl_sent p2) \<le> length (pl_sent p1) + unat (pl_max_retries p1)"
    using b retry_loop_sent [of ops cmd _ r rb p1] by (auto split: if_splits)
  then show ?thesis using finalize_sent [OF f] read_attempt_sent [OF a] by simp
qed

end
