(* ===== verification/Modbus_Device.thy ===== *)
theory Modbus_Device
  imports Modbus_Req
begin

unbundle bit_operations_syntax

text \<open>
  The driver of \<^verbatim>\<open>plugins/modbus/modbus_req.c\<close> composed with a device. The connection operations
  are instantiated with a device that holds registers and coils and answers read requests as
  the Modbus specification asks, and with one that never answers. The theorems follow a read
  through all layers: parsing of addresses, grouping, the request on the wire, the frame of
  the response, and the values dealt out to the tags.
\<close>

section \<open>A device that answers\<close>

text \<open>
  A device: its registers and coils by area and address, the protocol it speaks and the
  bytes it has sent that are not yet received. It answers every read request with the data
  asked for.
\<close>

record device =
  dv_registers :: "modbus_area \<Rightarrow> nat \<Rightarrow> u16"
  dv_coils :: "modbus_area \<Rightarrow> nat \<Rightarrow> bool"
  dv_protocol :: modbus_protocol_e
  dv_out :: bytes

definition area_of_function :: "u8 \<Rightarrow> modbus_area" where
  "area_of_function f =
     (if f = MODBUS_READ_COIL then MODBUS_AREA_COIL else if f = MODBUS_READ_INPUT then MODBUS_AREA_INPUT
      else if f = MODBUS_READ_INPUT_REG then MODBUS_AREA_INPUT_REGISTER else MODBUS_AREA_HOLD_REGISTER)"

definition device_read :: "device \<Rightarrow> modbus_area \<Rightarrow> u16 \<Rightarrow> u16 \<Rightarrow> bytes" where
  "device_read d area start n = device_data (dv_registers d area) (dv_coils d area) area start n"

definition device_answer :: "device \<Rightarrow> bytes \<Rightarrow> bytes" where
  "device_answer d frame =
     (let pdu = (case dv_protocol d of MODBUS_PROTOCOL_TCP \<Rightarrow> drop 6 frame | MODBUS_PROTOCOL_RTU \<Rightarrow> frame);
          seq = le_word (rev (take 2 frame)); start = le_word [pdu ! 3, pdu ! 2]; n = le_word [pdu ! 5, pdu ! 4]
      in modbus_adu (dv_protocol d) seq
           (read_response (pdu ! 0) (pdu ! 1) (device_read d (area_of_function (pdu ! 1)) start n)))"

definition device_ops :: "device conn_ops" where
  "device_ops =
     \<lparr>cn_clear_recv_buffer = (\<lambda>d. d\<lparr>dv_out := []\<rparr>),
      cn_send = (\<lambda>d bs. (int (length bs), d\<lparr>dv_out := device_answer d bs\<rparr>)),
      cn_recv = (\<lambda>d n. (int (length (take n (dv_out d))), take n (dv_out d), d\<lparr>dv_out := drop n (dv_out d)\<rparr>)),
      cn_tcp_server_send = (\<lambda>d bs. (int (length bs), d\<lparr>dv_out := device_answer d bs\<rparr>)),
      cn_tcp_server_recv = (\<lambda>d n. (int (length (take n (dv_out d))), take n (dv_out d), d\<lparr>dv_out := drop n (dv_out d)\<rparr>)),
      cn_is_connected = (\<lambda>d. True), cn_reconfig = (\<lambda>d b. d), cn_disconnect = (\<lambda>d. d),
      cn_timer_memory = (\<lambda>d. True), cn_timer_thread = (\<lambda>d. True)\<rparr>"

lemma area_of_read_function [simp]: "area_of_function (read_function area) = area"
  by (cases area) (simp_all add: area_of_function_def read_function_def MODBUS_READ_COIL_def MODBUS_READ_INPUT_def
      MODBUS_READ_INPUT_REG_def MODBUS_READ_HOLD_REG_def)

lemma le_word_word_bytes: "le_word [word_lo w, word_hi w] = (w::u16)"
  using le_word_le_bytes [of 2 w] by (simp add: word_bytes del: le_word.simps)

lemma device_answer_read:
  "device_answer d (modbus_adu (dv_protocol d) seq (read_pdu s area start n)) =
     modbus_adu (dv_protocol d) seq (read_response s (read_function area) (device_read d area start n))"
  by (cases "dv_protocol d")
    (simp_all add: device_answer_def modbus_adu_def read_pdu_def header_bytes_def address_bytes_def word_bytes
      le_word_word_bytes Let_def del: le_word.simps)

lemma device_answer_out [simp]: "device_answer (d\<lparr>dv_out := x\<rparr>) bs = device_answer d bs"
  by (simp add: device_answer_def device_read_def)

lemma device_send [simp]:
  "modbus_send_msg device_ops p bs =
     (int (length bs), p\<lparr>pl_conn := (pl_conn p)\<lparr>dv_out := device_answer (pl_conn p) bs\<rparr>\<rparr>)"
  by (simp add: modbus_send_msg_def device_ops_def Let_def)

lemma device_recv [simp]:
  "recv_data device_ops p n = (int (length (take n (dv_out (pl_conn p)))), take n (dv_out (pl_conn p)),
     p\<lparr>pl_conn := (pl_conn p)\<lparr>dv_out := drop n (dv_out (pl_conn p))\<rparr>\<rparr>)"
  by (simp add: recv_data_def device_ops_def)

lemma u16_bits_bytes: "unat ((n::u16) div 8 + (if n mod 8 > 0 then 1 else 0)) = (unat n + 7) div 8"
proof -
  have d: "unat (n div 8) = unat n div 8" "unat (n mod 8) = unat n mod 8" by (simp_all add: unat_div unat_mod)
  have "unat n < 65536" by (rule unat_u16_less)
  then have le: "unat (n div 8) < 8192" unfolding d by simp
  show ?thesis
  proof (cases "n mod 8 > 0")
    case True
    then have "unat n mod 8 > 0" using d(2) by (simp add: word_less_nat_alt)
    moreover have "unat (n div 8 + 1) = unat (n div 8) + unat (1::u16)" using le by (intro unat_u16_add_small) simp
    moreover have "Suc (m div 8) = (m + 7) div 8" if "0 < m mod 8" for m :: nat using that by presburger
    ultimately show ?thesis using True d(1) by simp
  next
    case False
    then have "unat n mod 8 = 0" using d(2) by (simp add: word_less_nat_alt)
    then show ?thesis using False d(1) by auto
  qed
qed

lemma length_device_data:
  assumes "length (device_data reg coil area start n) < 255"
  shows "length (device_data reg coil area start n) = unat (read_data_size area n)"
proof (cases "bits_area area")
  case True
  then show ?thesis using u16_bits_bytes [of n]
    by (auto simp: device_data_def read_data_size_def bits_area_def coil_bytes_def)
next
  case False
  then have "unat n < 128" using assms by (simp add: device_data_def)
  then have "unat (n * 2) = unat n * 2" by (subst unat_mult_lem [THEN iffD1]) simp_all
  with False show ?thesis by (auto simp: device_data_def read_data_size_def bits_area_def)
qed

section \<open>A command read from the device\<close>

lemma header_of_header_bytes:
  "header_of_bytes (header_bytes seq p) =
     \<lparr>mh_seq = htons seq, mh_protocol = 0, mh_len = htons (of_nat (length p))\<rparr>"
  by (simp add: header_of_bytes_def header_bytes_def load_bytes_def htons_def)

text \<open>The bytes of a whole response are received, in two parts on TCP.\<close>

lemma process_protocol_buf_device:
  assumes out: "dv_out (pl_conn p) = modbus_adu (st_protocol (pl_stack p)) seq pdu"
    and sz: "unat sz = length (modbus_adu (st_protocol (pl_stack p)) seq pdu)" and pdu: "pdu \<noteq> []"
  shows "process_protocol_buf device_ops cmd p s sz =
    process_received_data device_ops cmd (p\<lparr>pl_conn := (pl_conn p)\<lparr>dv_out := []\<rparr>\<rparr>)
      (modbus_adu (st_protocol (pl_stack p)) seq pdu) (uint sz) sz s"
proof (cases "st_protocol (pl_stack p)")
  case MODBUS_PROTOCOL_RTU
  have "unat sz > 0" using sz pdu by (simp add: length_modbus_adu)
  then have "uint sz > 0" by (simp only: uint_nat of_nat_0_less_iff)
  moreover have "int (length (modbus_adu MODBUS_PROTOCOL_RTU seq pdu)) = uint sz"
    using sz MODBUS_PROTOCOL_RTU by (simp only: uint_nat)
  ultimately show ?thesis
    using MODBUS_PROTOCOL_RTU out sz
    by (simp add: process_protocol_buf_def process_modbus_rtu_def store_bytes_def)
next
  case MODBUS_PROTOCOL_TCP
  have adu: "dv_out (pl_conn p) = header_bytes seq pdu @ pdu" using out MODBUS_PROTOCOL_TCP by (simp add: modbus_adu_def)
  have len: "unat sz = 6 + length pdu" using sz MODBUS_PROTOCOL_TCP by (simp add: modbus_adu_def)
  then have l: "unat (of_nat (length pdu) :: u16) = length pdu"
    using unat_u16_less [of sz] by (simp add: unat_of_nat take_bit_nat_eq_self)
  then have l': "uint (of_nat (length pdu) :: u16) = int (length pdu)" by (simp only: uint_nat)
  have usz: "uint sz = 6 + int (length pdu)" by (simp only: uint_nat len)
  have mod: "int (length pdu) mod 18446744073709551616 = int (length pdu)" using len unat_u16_less [of sz] by simp
  have st: "store_bytes 6 pdu (store_bytes 0 (header_bytes seq pdu) (replicate (unat sz) 0)) = header_bytes seq pdu @ pdu"
    by (simp add: store_bytes_def len)
  have ld: "load_bytes 0 6 (store_bytes 0 (header_bytes seq pdu) (replicate (unat sz) 0)) = header_bytes seq pdu"
    by (simp add: load_bytes_def store_bytes_def)
  have "valid_modbus_tcp_response device_ops p (replicate (unat sz) 0) sz =
      (uint sz, header_bytes seq pdu @ pdu, p\<lparr>pl_conn := (pl_conn p)\<lparr>dv_out := []\<rparr>\<rparr>)"
    by (simp add: valid_modbus_tcp_response_def adu ld header_of_header_bytes l l' mod st usz Let_def)
  then show ?thesis
    using MODBUS_PROTOCOL_TCP pdu
    by (simp add: process_protocol_buf_def process_modbus_tcp_def modbus_adu_def usz)
qed

definition value_on_device :: "device \<Rightarrow> modbus_endianess \<Rightarrow> modbus_endianess_64 \<Rightarrow> modbus_point \<Rightarrow> neu_dvalue option" where
  "value_on_device d e e64 p = device_value e e64 (dv_registers d (mp_area p)) (dv_coils d (mp_area p)) p"

definition request_of :: "modbus_stack \<Rightarrow> modbus_read_cmd \<Rightarrow> bytes" where
  "request_of stack cmd = modbus_adu (st_protocol stack) (st_read_seq stack)
     (read_pdu (rc_slave_id cmd) (rc_area cmd) (rc_start_address cmd) (rc_n_register cmd))"

definition after_request :: "modbus_stack \<Rightarrow> modbus_stack" where
  "after_request stack = stack\<lparr>st_read_seq := next_seq (st_protocol stack) (st_read_seq stack)\<rparr>"

lemma request_of_nonempty [simp]: "request_of stack cmd \<noteq> []"
proof -
  have "length (request_of stack cmd) \<noteq> 0" by (simp add: request_of_def length_modbus_adu read_pdu_def)
  then show ?thesis by simp
qed

lemma plugin_stack_read_device:
  "plugin_stack_read device_ops cmd p =
     Some (int (length (request_of (pl_stack p) cmd)),
       read_data_size (rc_area cmd) (rc_n_register cmd) + 2 + 1 + trailer_size (st_protocol (pl_stack p)),
       p\<lparr>pl_stack := after_request (pl_stack p),
         pl_conn := (pl_conn p)\<lparr>dv_out := device_answer (pl_conn p) (request_of (pl_stack p) cmd)\<rparr>,
         pl_sent := pl_sent p @ [request_of (pl_stack p) cmd]\<rparr>)"
  by (simp add: plugin_stack_read_def modbus_stack_read_adu Let_def after_request_def
      request_of_def [symmetric])

lemma cmd_data_small:
  assumes c: "cmd_covers m cmd" and m: "m \<le> 250"
  shows "length (device_data reg coil (rc_area cmd) start (rc_n_register cmd)) < 255"
proof -
  have "unat m \<le> 250" using m by (simp add: word_le_nat_alt)
  moreover have "unat (rc_n_register cmd) \<le> span_limit m (rc_area cmd)" using c by (simp add: cmd_covers_def)
  ultimately show ?thesis
    by (auto simp: device_data_def coil_bytes_def span_limit_def split: if_splits)
qed

lemma values_on_device:
  assumes c: "cmd_covers m cmd" and g: "\<forall>p \<in> set (rc_tags cmd). groupable m p"
  shows "modbus_value_handle e e64 cmd (rc_slave_id cmd)
      (device_read d (rc_area cmd) (rc_start_address cmd) (rc_n_register cmd)) NEU_ERR_SUCCESS =
    map_option (zip (map (\<lambda>p. Some (mp_name p)) (rc_tags cmd))) (those (map (value_on_device d e e64) (rc_tags cmd)))"
proof -
  have "map (device_value e e64 (dv_registers d (rc_area cmd)) (dv_coils d (rc_area cmd))) (rc_tags cmd) =
      map (value_on_device d e e64) (rc_tags cmd)"
    using c by (intro map_cong) (simp_all add: cmd_covers_def value_on_device_def)
  then show ?thesis
    using map_point_value_device [OF c g, of e e64 "dv_registers d (rc_area cmd)" "dv_coils d (rc_area cmd)"]
    by (simp add: modbus_value_handle_def device_read_def del: map_eq_conv)
qed

lemma read_attempt_device:
  assumes c: "cmd_covers m cmd" and m: "m \<le> 250" and g: "\<forall>t \<in> set (rc_tags cmd). groupable m t"
    and proto: "dv_protocol (pl_conn p) = st_protocol (pl_stack p)"
    and seq: "pl_check_header p \<noteq> 0 \<Longrightarrow> st_read_seq (pl_stack p) \<noteq> 0xffff"
    and vals: "those (map (value_on_device (pl_conn p) (pl_endianess p) (pl_endianess_64 p)) (rc_tags cmd)) = Some vals"
  shows "\<exists>r b. read_attempt device_ops cmd rb p = Some (r, b,
      p\<lparr>pl_stack := after_request (pl_stack p), pl_conn := (pl_conn p)\<lparr>dv_out := []\<rparr>,
        pl_sent := pl_sent p @ [request_of (pl_stack p) cmd],
        pl_updates := pl_updates p @ zip (map (\<lambda>t. Some (mp_name t)) (rc_tags cmd)) vals\<rparr>) \<and> 0 < r \<and> 0 < b"
proof -
  let ?st = "pl_stack p" and ?d = "pl_conn p"
  let ?data = "device_read ?d (rc_area cmd) (rc_start_address cmd) (rc_n_register cmd)"
  let ?pdu = "read_response (rc_slave_id cmd) (read_function (rc_area cmd)) ?data"
  let ?resp = "modbus_adu (st_protocol ?st) (st_read_seq ?st) ?pdu"
  define sz where "sz = read_data_size (rc_area cmd) (rc_n_register cmd) + 2 + 1 + trailer_size (st_protocol ?st)"
  define p1 where "p1 = p\<lparr>pl_stack := after_request ?st, pl_conn := ?d\<lparr>dv_out := ?resp\<rparr>,
      pl_sent := pl_sent p @ [request_of ?st cmd]\<rparr>"
  have small: "length ?data < 255" using cmd_data_small [OF c m] by (simp add: device_read_def)
  have len: "length ?data = unat (read_data_size (rc_area cmd) (rc_n_register cmd))"
    using length_device_data small by (simp add: device_read_def)
  have szr: "unat sz = length ?resp" unfolding sz_def by (rule response_size_spec [OF len small])
  have ans: "device_answer ?d (request_of ?st cmd) = ?resp"
    using device_answer_read [of ?d "st_read_seq ?st"] by (simp add: request_of_def proto)
  have read: "plugin_stack_read device_ops cmd p = Some (int (length (request_of ?st cmd)), sz, p1)"
    by (simp add: plugin_stack_read_device ans sz_def p1_def)
  have "modbus_stack_recv (pl_check_header p \<noteq> 0) (after_request ?st) (rc_slave_id cmd)
      (neu_protocol_unpack_buf_init ?resp sz) = (uint sz, [Ev_value (rc_slave_id cmd) ?data NEU_ERR_SUCCESS])"
  proof (rule modbus_read_exchange [of "replicate 16 0"])
    show "modbus_stack_read (\<lambda>f. fst (modbus_send_msg device_ops p f)) (replicate 16 0) ?st (rc_slave_id cmd) (rc_area cmd)
        (rc_start_address cmd) (rc_n_register cmd) False =
      Some (int (length (request_of ?st cmd)), sz, after_request ?st, [Ev_send (request_of ?st cmd)])"
      by (simp add: modbus_stack_read_adu Let_def after_request_def request_of_def [symmetric] sz_def)
  qed (use len small szr seq in \<open>simp_all add: neu_protocol_unpack_buf_init_def buf_ok_def\<close>)
  then have recv: "process_received_data device_ops cmd (p1\<lparr>pl_conn := ?d\<lparr>dv_out := []\<rparr>\<rparr>) ?resp (uint sz) sz (rc_slave_id cmd) =
      Some (uint sz, p1\<lparr>pl_conn := ?d\<lparr>dv_out := []\<rparr>,
        pl_updates := pl_updates p @ zip (map (\<lambda>t. Some (mp_name t)) (rc_tags cmd)) vals\<rparr>)"
    using values_on_device [OF c g, of "pl_endianess p" "pl_endianess_64 p" ?d] vals
    by (simp add: process_received_data_def p1_def MODBUS_DEVICE_ERR_def)
  have "process_protocol_buf device_ops cmd p1 (rc_slave_id cmd) sz =
      process_received_data device_ops cmd (p1\<lparr>pl_conn := (pl_conn p1)\<lparr>dv_out := []\<rparr>\<rparr>) ?resp (uint sz) sz (rc_slave_id cmd)"
    using szr by (subst process_protocol_buf_device [where pdu = ?pdu and seq = "st_read_seq ?st"])
      (auto simp: p1_def after_request_def read_response_def)
  moreover have "unat sz > 0" using szr by (simp add: length_modbus_adu)
  then have "uint sz > 0" by (simp only: uint_nat of_nat_0_less_iff)
  ultimately show ?thesis
    using read recv by (simp add: read_attempt_def p1_def)
qed

section \<open>Parsed points can be grouped\<close>

lemma string_registers: "(n::u16) \<le> 127 \<Longrightarrow> n div 2 + n mod 2 \<le> 127"
proof -
  assume n: "n \<le> 127"
  have "unat (n div 2) = unat n div 2" "unat (n mod 2) = unat n mod 2" by (simp_all add: unat_div unat_mod)
  moreover have "unat n \<le> 127" using n by (simp add: word_le_nat_alt)
  moreover from calculation have "unat (n div 2 + n mod 2) = unat (n div 2) + unat (n mod 2)"
    by (intro unat_u16_add_small) simp
  ultimately show ?thesis unfolding word_le_nat_alt by simp
qed

lemma bytes_registers: "(ucast (n :: u8) :: u16) \<le> 127 \<or> \<not> n \<le> 127"
  by (simp add: word_le_nat_alt unat_ucast_u8)

lemma bytes_half: "(n::u8) div 2 + n mod 2 \<le> 127 \<or> n > 128"
proof (cases "n > 128")
  case False
  have "unat (n div 2) = unat n div 2" "unat (n mod 2) = unat n mod 2" by (simp_all add: unat_div unat_mod)
  moreover have "unat n \<le> 128" using False by (simp add: word_le_nat_alt not_less)
  moreover from calculation have "unat (n div 2 + n mod 2) = unat (n div 2) + unat (n mod 2)"
    by (subst unat_add_lem [THEN iffD1]) simp_all
  ultimately have "unat (n div 2 + n mod 2) \<le> 127" by simp
  then show ?thesis by (simp add: word_le_nat_alt)
qed simp

lemma set_n_register_small:
  assumes "set_n_register p = Inr (NEU_ERR_SUCCESS, p')" and "mp_n_register p \<le> 127"
  shows "mp_n_register p' \<le> 127 \<and> mp_area p' = mp_area p \<and> mp_type p' = mp_type p \<and>
    (bits_area (mp_area p) \<longrightarrow> mp_n_register p' = 1)"
proof -
  let ?s = "opt_string_length (mp_option p)" and ?b = "opt_bytes_length (mp_option p)"
  have s: "?s \<le> 127 \<Longrightarrow> ?s div 2 + ?s mod 2 \<le> 127" by (rule string_registers)
  have b: "?b \<le> 128 \<Longrightarrow> (ucast (?b div 2 + ?b mod 2) :: u16) \<le> 127"
    using bytes_half [of ?b] bytes_registers [of "?b div 2 + ?b mod 2"] by (simp add: not_less [symmetric])
  show ?thesis
    using assms s b unfolding set_n_register_def Let_def bits_area_def
    by (cases "mp_type p") (simp_all only: neu_type_e.distinct, auto split: if_splits simp: not_less)
qed

lemma set_n_register_error: "set_n_register p \<noteq> Inl 0"
  by (simp add: set_n_register_def Let_def)

lemma tag_to_point_groupable:
  assumes "modbus_tag_to_point tag zero_point ab = (NEU_ERR_SUCCESS, p)"
  shows "groupable 250 p \<and> mp_name p = strncpy_to NEU_TAG_NAME_LEN (dt_name tag)"
proof -
  obtain q p' where q: "set_n_register q = Inr (NEU_ERR_SUCCESS, p')" "mp_n_register q = 0"
    "p = p'\<lparr>mp_name := strncpy_to NEU_TAG_NAME_LEN (dt_name tag)\<rparr>"
    using assms
    by (auto simp: modbus_tag_to_point_def zero_point_def Let_def set_n_register_error
        split: prod.splits option.splits if_splits sum.splits)
  from set_n_register_small [OF q(1)] q(2,3) show ?thesis by (auto simp: groupable_def)
qed

section \<open>A whole group\<close>

text \<open>
  No slave is being skipped: degradation is off, or no slave is degraded and a slave is
  degraded only after a failed cycle.
\<close>

definition no_skips :: "'w modbus_plugin \<Rightarrow> bool" where
  "no_skips p \<longleftrightarrow> (pl_degradation p \<longrightarrow>
     0 < pl_degrade_cycle p \<and> length (pl_failed_cycles p) = 256 \<and> (\<forall>s < 256. \<not> pl_skip p ! s))"

definition report :: "device \<Rightarrow> modbus_endianess \<Rightarrow> modbus_endianess_64 \<Rightarrow> modbus_point \<Rightarrow> tag_update" where
  "report d e e64 t = (Some (mp_name t), the (value_on_device d e e64 t))"

lemma report_out [simp]: "report (d\<lparr>dv_out := x\<rparr>) e e64 = report d e e64"
  by (simp add: report_def value_on_device_def fun_eq_iff)

lemma value_on_device_out [simp]: "value_on_device (d\<lparr>dv_out := x\<rparr>) e e64 = value_on_device d e e64"
  by (simp add: value_on_device_def fun_eq_iff)

lemma group_timer_step_device:
  assumes c: "cmd_covers m cmd" and m: "m \<le> 250" and g: "\<forall>t \<in> set (rc_tags cmd). groupable m t"
    and proto: "dv_protocol (pl_conn p) = st_protocol (pl_stack p)"
    and seq: "pl_check_header p \<noteq> 0 \<Longrightarrow> st_read_seq (pl_stack p) \<noteq> 0xffff"
    and vals: "\<forall>t \<in> set (rc_tags cmd). value_on_device (pl_conn p) (pl_endianess p) (pl_endianess_64 p) t \<noteq> None"
    and ns: "no_skips p"
  shows "group_timer_step device_ops cmd (replicate 256 False) p = Some (replicate 256 False,
      p\<lparr>pl_stack := after_request (pl_stack p), pl_conn := (pl_conn p)\<lparr>dv_out := []\<rparr>,
        pl_sent := pl_sent p @ [request_of (pl_stack p) cmd],
        pl_updates := pl_updates p @ map (report (pl_conn p) (pl_endianess p) (pl_endianess_64 p)) (rc_tags cmd),
        pl_failed_cycles := (pl_failed_cycles p)[unat (rc_slave_id cmd) := 0]\<rparr>)"
proof -
  let ?v = "value_on_device (pl_conn p) (pl_endianess p) (pl_endianess_64 p)"
  have th: "those (map ?v (rc_tags cmd)) = Some (map (\<lambda>t. the (?v t)) (rc_tags cmd))"
    using vals by (intro those_map_Some) auto
  have zip: "zip (map (\<lambda>t. Some (mp_name t)) (rc_tags cmd)) (map (\<lambda>t. the (?v t)) (rc_tags cmd)) =
      map (report (pl_conn p) (pl_endianess p) (pl_endianess_64 p)) (rc_tags cmd)"
    by (induction "rc_tags cmd") (simp_all add: zip_map_map zip_same_conv_map report_def)
  obtain r b where a: "read_attempt device_ops cmd 0 p = Some (r, b,
      p\<lparr>pl_stack := after_request (pl_stack p), pl_conn := (pl_conn p)\<lparr>dv_out := []\<rparr>,
        pl_sent := pl_sent p @ [request_of (pl_stack p) cmd],
        pl_updates := pl_updates p @ map (report (pl_conn p) (pl_endianess p) (pl_endianess_64 p)) (rc_tags cmd)\<rparr>)"
    "0 < r" "0 < b"
    using read_attempt_device [OF c m g proto seq th, of 0] unfolding zip by blast
  have "unat (rc_slave_id cmd) < 256" using unsigned_less [of "rc_slave_id cmd"] by simp
  then show ?thesis
    using a ns
    by (auto simp: group_timer_step_def check_modbus_read_result_def finalize_modbus_read_result_def no_skips_def
        Let_def word_less_def)
qed

lemma group_timer_loop_device:
  assumes "\<forall>c \<in> set cmds. cmd_covers m c \<and> (\<forall>t \<in> set (rc_tags c). groupable m t \<and>
        value_on_device (pl_conn p) (pl_endianess p) (pl_endianess_64 p) t \<noteq> None)"
    and m: "m \<le> 250" and "dv_protocol (pl_conn p) = st_protocol (pl_stack p)" and "no_skips p"
    and "pl_check_header p \<noteq> 0 \<longrightarrow> unat (st_read_seq (pl_stack p)) + length cmds \<le> 0xffff"
  shows "\<exists>p'. group_timer_loop device_ops cmds (replicate 256 False) p = Some p' \<and>
    pl_updates p' = pl_updates p @
      map (report (pl_conn p) (pl_endianess p) (pl_endianess_64 p)) (concat (map rc_tags cmds))"
  using assms(1,3,4,5)
proof (induction cmds arbitrary: p)
  case (Cons cmd cmds)
  define p1 where "p1 = p\<lparr>pl_stack := after_request (pl_stack p), pl_conn := (pl_conn p)\<lparr>dv_out := []\<rparr>,
        pl_sent := pl_sent p @ [request_of (pl_stack p) cmd],
        pl_updates := pl_updates p @ map (report (pl_conn p) (pl_endianess p) (pl_endianess_64 p)) (rc_tags cmd),
        pl_failed_cycles := (pl_failed_cycles p)[unat (rc_slave_id cmd) := 0]\<rparr>"
  have "st_read_seq (pl_stack p) \<noteq> 0xffff" if "pl_check_header p \<noteq> 0"
    using that Cons.prems(4) by auto
  then have step: "group_timer_step device_ops cmd (replicate 256 False) p = Some (replicate 256 False, p1)"
    unfolding p1_def using Cons.prems m by (intro group_timer_step_device [of m]) auto
  have p1: "value_on_device (pl_conn p1) = value_on_device (pl_conn p)" "report (pl_conn p1) = report (pl_conn p)"
    by (simp_all add: p1_def fun_eq_iff)
  have "unat (st_read_seq (after_request (pl_stack p))) \<le> unat (st_read_seq (pl_stack p)) + 1"
    by (simp add: after_request_def next_seq_def unat_word_ariths split: modbus_protocol_e.split)
  then have "\<exists>p'. group_timer_loop device_ops cmds (replicate 256 False) p1 = Some p' \<and>
    pl_updates p' = pl_updates p1 @
      map (report (pl_conn p1) (pl_endianess p1) (pl_endianess_64 p1)) (concat (map rc_tags cmds))"
    using Cons.prems by (intro Cons.IH) (auto simp: p1 p1_def after_request_def no_skips_def intro: order_trans)
  then show ?case using step by (auto simp: p1 p1_def)
qed simp

definition point_of :: "modbus_address_base \<Rightarrow> neu_datatag \<Rightarrow> modbus_point" where
  "point_of ab tag = snd (modbus_tag_to_point tag zero_point ab)"

lemma cmds_no_more_than_tags:
  assumes "\<forall>c \<in> set cmds. cmd_covers m c"
  shows "length cmds \<le> length (concat (map rc_tags cmds))"
  using assms
proof (induction cmds)
  case (Cons c cmds)
  then have "rc_tags c \<noteq> []" "length cmds \<le> length (concat (map rc_tags cmds))" by (simp_all add: cmd_covers_def)
  then show ?case by (cases "rc_tags c") simp_all
qed simp

lemma group_timer_device:
  assumes n: "length tags < 65536"
    and ok: "\<forall>t \<in> set tags. fst (modbus_tag_to_point t zero_point (pl_address_base p)) = NEU_ERR_SUCCESS"
    and vals: "\<forall>t \<in> set tags. value_on_device (pl_conn p) (pl_endianess p) (pl_endianess_64 p)
        (point_of (pl_address_base p) t) \<noteq> None"
    and proto: "dv_protocol (pl_conn p) = st_protocol (pl_stack p)" and ns: "no_skips p"
    and seq: "pl_check_header p \<noteq> 0 \<longrightarrow> unat (st_read_seq (pl_stack p)) + length tags \<le> 0xffff"
  shows "\<exists>gd p' ups. modbus_group_timer device_ops grp tags None 250 p = Some (gd, p') \<and> gd_group gd = grp \<and>
    pl_updates p' = pl_updates p @ ups \<and>
    mset ups = mset (map (\<lambda>t. (Some (strncpy_to NEU_TAG_NAME_LEN (dt_name t)),
      the (value_on_device (pl_conn p) (pl_endianess p) (pl_endianess_64 p) (point_of (pl_address_base p) t)))) tags)"
proof -
  let ?ab = "pl_address_base p" and ?r = "report (pl_conn p) (pl_endianess p) (pl_endianess_64 p)"
  let ?ps = "map (point_of ?ab) tags"
  have pt: "groupable 250 (point_of ?ab t) \<and> mp_name (point_of ?ab t) = strncpy_to NEU_TAG_NAME_LEN (dt_name t)"
    if "t \<in> set tags" for t
    using tag_to_point_groupable [of t ?ab "point_of ?ab t"] ok that by (auto simp: point_of_def prod_eq_iff)
  then obtain s where s: "modbus_tag_sort ?ps 250 = Some s" "mset (concat (map rc_tags (rs_cmd s))) = mset ?ps"
    "\<forall>c \<in> set (rs_cmd s). cmd_covers 250 c"
    using modbus_tag_sort_groups [of ?ps 250] n by auto
  have seteq: "set (concat (map rc_tags (rs_cmd s))) = set ?ps" using mset_eq_setD [OF s(2)] .
  have cmds: "\<forall>c \<in> set (rs_cmd s). cmd_covers 250 c \<and> (\<forall>t \<in> set (rc_tags c). groupable 250 t \<and>
      value_on_device (pl_conn p) (pl_endianess p) (pl_endianess_64 p) t \<noteq> None)"
  proof (intro ballI conjI)
    fix c t assume c: "c \<in> set (rs_cmd s)" "t \<in> set (rc_tags c)"
    then have "t \<in> set ?ps" using seteq by auto
    then obtain t' where t': "t = point_of ?ab t'" "t' \<in> set tags" by auto
    show "groupable 250 t" using pt [OF t'(2)] t'(1) by simp
    show "value_on_device (pl_conn p) (pl_endianess p) (pl_endianess_64 p) t \<noteq> None" using vals t' by simp
  qed (use s(3) in simp)
  have "length (rs_cmd s) \<le> length tags"
    using cmds_no_more_than_tags [OF s(3)] mset_eq_length [OF s(2)] by simp
  then have "pl_check_header p \<noteq> 0 \<longrightarrow> unat (st_read_seq (pl_stack p)) + length (rs_cmd s) \<le> 0xffff"
    using seq by auto
  from group_timer_loop_device [OF cmds _ proto ns this] obtain p' where
    p': "group_timer_loop device_ops (rs_cmd s) (replicate 256 False) p = Some p'"
      "pl_updates p' = pl_updates p @ map ?r (concat (map rc_tags (rs_cmd s)))" by auto
  let ?gd = "\<lparr>gd_tags = ?ps, gd_group = grp, gd_cmd_sort = s, gd_address_base = ?ab\<rparr>"
  have "modbus_group_timer device_ops grp tags None 250 p = Some (?gd, p')"
    using s(1) p'(1)
    by (simp add: modbus_group_timer_def modbus_group_data_new_def point_of_def [abs_def] Let_def)
  moreover have "mset (map ?r (concat (map rc_tags (rs_cmd s)))) = mset (map ?r ?ps)"
    by (simp only: mset_map [of ?r] s(2))
  moreover have "map ?r ?ps = map (\<lambda>t. (Some (strncpy_to NEU_TAG_NAME_LEN (dt_name t)),
      the (value_on_device (pl_conn p) (pl_endianess p) (pl_endianess_64 p) (point_of ?ab t)))) tags"
    using pt by (simp add: report_def)
  ultimately show ?thesis
    using p'(2) by (intro exI [of _ ?gd] exI [of _ p'] exI [of _ "map ?r (concat (map rc_tags (rs_cmd s)))"])
      (simp only: simp_thms modbus_group_data.select_convs)
qed

text \<open>
  C1: One cycle of a group against a device that answers every request reports every tag of
  the group exactly once, under its own name and with the value that its registers or coil
  hold on the device. This holds on TCP and RTU, for every configured byte order and address
  base, whatever the order and the overlap of the tags, and with header checking as long as
  the sequence number does not reach its wrap-around.
\<close>

theorem modbus_group_timer_reports_all:
  assumes n: "length tags < 65536"
    and ok: "\<forall>t \<in> set tags. fst (modbus_tag_to_point t zero_point (pl_address_base p)) = NEU_ERR_SUCCESS"
    and vals: "\<forall>t \<in> set tags. value_on_device (pl_conn p) (pl_endianess p) (pl_endianess_64 p)
        (point_of (pl_address_base p) t) \<noteq> None"
    and proto: "dv_protocol (pl_conn p) = st_protocol (pl_stack p)" and ns: "no_skips p"
    and seq: "pl_check_header p \<noteq> 0 \<longrightarrow> unat (st_read_seq (pl_stack p)) + length tags \<le> 0xffff"
  shows "\<exists>gd p' ups. modbus_group_timer device_ops grp tags None 250 p = Some (gd, p') \<and>
    pl_updates p' = pl_updates p @ ups \<and>
    mset ups = mset (map (\<lambda>t. (Some (strncpy_to NEU_TAG_NAME_LEN (dt_name t)),
      the (value_on_device (pl_conn p) (pl_endianess p) (pl_endianess_64 p) (point_of (pl_address_base p) t)))) tags)"
  using group_timer_device [OF assms, of grp] by blast

section \<open>A device that never answers\<close>

definition silent_ops :: "device conn_ops" where
  "silent_ops = device_ops\<lparr>cn_recv := (\<lambda>d n. (0, [], d)), cn_tcp_server_recv := (\<lambda>d n. (0, [], d))\<rparr>"

lemma silent_send [simp]: "modbus_send_msg silent_ops p bs = modbus_send_msg device_ops p bs"
  by (simp add: modbus_send_msg_def silent_ops_def device_ops_def Let_def)

lemma read_attempt_silent:
  "\<exists>r p'. read_attempt silent_ops cmd rb p = Some (r, 0, p') \<and> 0 < r \<and>
     length (pl_sent p') = length (pl_sent p) + 1 \<and> pl_updates p' = pl_updates p \<and>
     pl_max_retries p' = pl_max_retries p"
proof -
  have "plugin_stack_read silent_ops cmd p =
     Some (int (length (request_of (pl_stack p) cmd)),
       read_data_size (rc_area cmd) (rc_n_register cmd) + 2 + 1 + trailer_size (st_protocol (pl_stack p)),
       p\<lparr>pl_stack := after_request (pl_stack p),
         pl_conn := (pl_conn p)\<lparr>dv_out := device_answer (pl_conn p) (request_of (pl_stack p) cmd)\<rparr>,
         pl_sent := pl_sent p @ [request_of (pl_stack p) cmd]\<rparr>)"
    by (simp add: plugin_stack_read_def modbus_stack_read_adu Let_def after_request_def request_of_def [symmetric])
  moreover have "process_protocol_buf silent_ops cmd q s sz = Some (0, q)" for q s sz
    by (simp add: process_protocol_buf_def process_modbus_tcp_def process_modbus_rtu_def Let_def
        valid_modbus_tcp_response_def recv_data_def silent_ops_def split: modbus_protocol_e.split)
  ultimately show ?thesis by (simp add: read_attempt_def)
qed

lemma retry_loop_silent:
  assumes "0 < r"
  shows "\<exists>r' p'. retry_loop silent_ops cmd k r 0 p = Some (r', 0, p') \<and> 0 < r' \<and>
     length (pl_sent p') = length (pl_sent p) + k \<and> pl_updates p' = pl_updates p"
  using assms
proof (induction k arbitrary: r p)
  case (Suc k)
  obtain r1 p1 where a: "read_attempt silent_ops cmd 0 p = Some (r1, 0, p1)" "0 < r1"
      "length (pl_sent p1) = length (pl_sent p) + 1" "pl_updates p1 = pl_updates p"
    using read_attempt_silent by blast
  with Suc.IH [OF a(2), of p1] show ?case by auto
qed simp

lemma check_read_silent:
  "\<exists>p'. check_modbus_read_result silent_ops cmd p = Some (p', True) \<and>
     length (pl_sent p') = length (pl_sent p) + 1 + unat (pl_max_retries p) \<and>
     pl_updates p' = pl_updates p @
       map (\<lambda>t. (Some (mp_name t), error_dvalue NEU_ERR_PLUGIN_DEVICE_NOT_RESPONSE)) (rc_tags cmd)"
proof -
  obtain r p1 where a: "read_attempt silent_ops cmd 0 p = Some (r, 0, p1)" "0 < r"
      "length (pl_sent p1) = length (pl_sent p) + 1" "pl_updates p1 = pl_updates p" "pl_max_retries p1 = pl_max_retries p"
    using read_attempt_silent by blast
  moreover obtain r2 p2 where "retry_loop silent_ops cmd (unat (pl_max_retries p1)) r 0 p1 = Some (r2, 0, p2)" "0 < r2"
      "length (pl_sent p2) = length (pl_sent p1) + unat (pl_max_retries p1)" "pl_updates p2 = pl_updates p1"
    using retry_loop_silent [OF a(2)] by blast
  ultimately show ?thesis
    by (simp add: check_modbus_read_result_def finalize_modbus_read_result_def handle_modbus_error_def
        modbus_value_handle_def)
qed

text \<open>
  C25: A slave that takes requests and never answers is asked once and then once per retry;
  after that every tag of the command is reported with the error that the device does not
  respond, and the slave is marked as failed for this cycle.
\<close>

theorem modbus_read_silent_slave:
  "\<exists>p'. check_modbus_read_result silent_ops cmd p = Some (p', True) \<and>
     length (pl_sent p') = length (pl_sent p) + 1 + unat (pl_max_retries p) \<and>
     pl_updates p' = pl_updates p @
       map (\<lambda>t. (Some (mp_name t), error_dvalue NEU_ERR_PLUGIN_DEVICE_NOT_RESPONSE)) (rc_tags cmd)"
  by (rule check_read_silent)

section \<open>Instances\<close>

definition sample_device :: device where
  "sample_device = \<lparr>dv_registers = (\<lambda>a i. of_nat i), dv_coils = (\<lambda>a i. False), dv_protocol = MODBUS_PROTOCOL_TCP, dv_out = []\<rparr>"

definition sample_plugin :: "device modbus_plugin" where
  "sample_plugin = \<lparr>pl_conn = sample_device, pl_stack = modbus_stack_create MODBUS_PROTOCOL_TCP, pl_is_server = False,
     pl_endianess = MODBUS_ABCD, pl_endianess_64 = MODBUS_LL, pl_address_base = base_1, pl_max_retries = 2,
     pl_check_header = 1, pl_degradation = True, pl_degrade_cycle = 3, pl_degrade_time = 600, pl_backup = False,
     pl_current_backup = False, pl_first_attempt_done = False, pl_failed_cycles = replicate 256 0,
     pl_skip = replicate 256 False, pl_sent = [], pl_updates = [], pl_responses = [], pl_timers = []\<rparr>"

definition sample_tag :: neu_datatag where
  "sample_tag = zero_tag\<lparr>dt_name := ''t'', dt_address := ''1!400005'', dt_type := NEU_TYPE_UINT16\<rparr>"

lemma sample_tag_scan: "scan_address ''1!400005'' = (Some 1, Some CHR ''4'', Some 5)"
  by (simp add: scan_address_def scan_u_def scan_number_def is_space_def is_digit_def digit_val_def)

lemma sample_tag_point: "modbus_tag_to_point sample_tag zero_point base_1 =
   (NEU_ERR_SUCCESS, sample_point 4\<lparr>mp_option := opt_set_endian NEU_DATATAG_ENDIAN_L16 zero_option\<rparr>)"
  by (simp add: modbus_tag_to_point_def sample_tag_def zero_tag_def neu_datatag_parse_addr_option_def parse_value16_option_def
      find_last_character_def sample_tag_scan zero_point_def point_start_address_def address_base_val_def area_of_char_def
      check_point_def set_n_register_def sample_point_def Let_def strncpy_to_def NEU_TAG_NAME_LEN_def)

theorem modbus_group_timer_reports_all_witness:
  "\<exists>gd p'. modbus_group_timer device_ops ''g'' [sample_tag, sample_tag] None 250 sample_plugin = Some (gd, p') \<and>
     length (pl_updates p') = 2"
proof -
  have v: "\<exists>x. value_on_device sample_device MODBUS_ABCD MODBUS_LL (point_of base_1 sample_tag) = Some x"
    by (simp add: value_on_device_def device_value_def from_wire_def sample_point_def point_of_def sample_tag_point Let_def)
  have "\<exists>gd p' ups. modbus_group_timer device_ops ''g'' [sample_tag, sample_tag] None 250 sample_plugin = Some (gd, p') \<and>
    pl_updates p' = pl_updates sample_plugin @ ups \<and>
    mset ups = mset (map (\<lambda>t. (Some (strncpy_to NEU_TAG_NAME_LEN (dt_name t)),
      the (value_on_device (pl_conn sample_plugin) (pl_endianess sample_plugin) (pl_endianess_64 sample_plugin)
        (point_of (pl_address_base sample_plugin) t)))) [sample_tag, sample_tag])"
    by (rule modbus_group_timer_reports_all)
      (use v in \<open>simp_all add: sample_plugin_def sample_tag_point no_skips_def modbus_stack_create_def sample_device_def\<close>)
  then obtain gd p' ups where r: "modbus_group_timer device_ops ''g'' [sample_tag, sample_tag] None 250 sample_plugin = Some (gd, p')"
    "pl_updates p' = pl_updates sample_plugin @ ups" "mset ups = mset (map (\<lambda>t. (Some (strncpy_to NEU_TAG_NAME_LEN (dt_name t)),
      the (value_on_device (pl_conn sample_plugin) (pl_endianess sample_plugin) (pl_endianess_64 sample_plugin)
        (point_of (pl_address_base sample_plugin) t)))) [sample_tag, sample_tag])" by blast
  have "length ups = 2" using mset_eq_length [OF r(3)] by simp
  then show ?thesis using r(1,2) by (intro exI [of _ gd] exI [of _ p']) (simp add: sample_plugin_def)
qed

theorem modbus_read_requests_bounded_witness:
  "\<exists>p' e. check_modbus_read_result silent_ops sample_cmd sample_plugin = Some (p', e) \<and>
     1 \<le> length (pl_sent p') \<and> length (pl_sent p') \<le> 3"
proof -
  obtain p' where p': "check_modbus_read_result silent_ops sample_cmd sample_plugin = Some (p', True)"
    using check_read_silent by blast
  from modbus_read_requests_bounded [OF p'] p' show ?thesis by (auto simp: sample_plugin_def)
qed

end
