(* ===== verification/Uthash.thy ===== *)
theory Uthash
  imports Neuron_Prelude "HOL-Library.Multiset"
begin

unbundle bit_operations_syntax

text \<open>
  \<^verbatim>\<open>include/neuron/utils/uthash.h\<close>: the hash table that the tag groups, the subscriptions and the node
  registry are built on. A table threads its elements on two kinds of lists: all of them in
  the order of the application, and each bucket on a chain of its own. Both are modelled as
  lists of hash handles. The hash function is an argument; \<open>HASH_JEN\<close> is the one the program
  uses. The counters are natural numbers: they would wrap around only at \<open>2 ^ 32\<close> elements.
  Memory for a table and its buckets is taken to be available, \<^verbatim>\<open>uthash_fatal\<close> exits otherwise.
\<close>

section \<open>Tables\<close>

record ('p, 'k) UT_hash_handle =
  hh_elem :: 'p
  hh_key :: 'k
  hh_hashv :: u32

record ('p, 'k) UT_hash_bucket =
  bk_chain :: "('p, 'k) UT_hash_handle list"
  bk_count :: nat
  bk_expand_mult :: nat

record ('p, 'k) UT_hash_table =
  tb_order :: "('p, 'k) UT_hash_handle list"
  tb_buckets :: "('p, 'k) UT_hash_bucket list"
  tb_num_buckets :: nat
  tb_log2_num_buckets :: nat
  tb_num_items :: nat
  tb_ideal_chain_maxlen :: nat
  tb_nonideal_items :: nat
  tb_ineff_expands :: nat
  tb_noexpand :: bool

text \<open>The head pointer: \<open>None\<close> is an empty table.\<close>

type_synonym ('p, 'k) hash_head = "('p, 'k) UT_hash_table option"

definition HASH_INITIAL_NUM_BUCKETS :: nat where "HASH_INITIAL_NUM_BUCKETS = 32"
definition HASH_INITIAL_NUM_BUCKETS_LOG2 :: nat where "HASH_INITIAL_NUM_BUCKETS_LOG2 = 5"
definition HASH_BKT_CAPACITY_THRESH :: nat where "HASH_BKT_CAPACITY_THRESH = 10"

definition empty_bucket :: "('p, 'k) UT_hash_bucket" where
  "empty_bucket = \<lparr>bk_chain = [], bk_count = 0, bk_expand_mult = 0\<rparr>"

definition HASH_TO_BKT :: "u32 \<Rightarrow> nat \<Rightarrow> nat" where
  "HASH_TO_BKT hashv num_bkts = unat (hashv AND (of_nat num_bkts - 1))"

definition HASH_MAKE_TABLE :: "('p, 'k) UT_hash_handle \<Rightarrow> ('p, 'k) UT_hash_table" where
  "HASH_MAKE_TABLE hh =
     \<lparr>tb_order = [hh], tb_buckets = replicate HASH_INITIAL_NUM_BUCKETS empty_bucket,
      tb_num_buckets = HASH_INITIAL_NUM_BUCKETS, tb_log2_num_buckets = HASH_INITIAL_NUM_BUCKETS_LOG2,
      tb_num_items = 0, tb_ideal_chain_maxlen = 0, tb_nonideal_items = 0, tb_ineff_expands = 0,
      tb_noexpand = False\<rparr>"

section \<open>Looking up\<close>

fun HASH_FIND_IN_BKT :: "('p, 'k) UT_hash_handle list \<Rightarrow> 'k \<Rightarrow> u32 \<Rightarrow> 'p option" where
  "HASH_FIND_IN_BKT [] k hashv = None"
| "HASH_FIND_IN_BKT (h # chain) k hashv =
     (if hh_hashv h = hashv \<and> hh_key h = k then Some (hh_elem h) else HASH_FIND_IN_BKT chain k hashv)"

definition HASH_FIND :: "('k \<Rightarrow> u32) \<Rightarrow> ('p, 'k) hash_head \<Rightarrow> 'k \<Rightarrow> 'p option" where
  "HASH_FIND hash_fn head k =
     (case head of
        None \<Rightarrow> None
      | Some tbl \<Rightarrow>
          let hashv = hash_fn k; bkt = HASH_TO_BKT hashv (tb_num_buckets tbl)
          in HASH_FIND_IN_BKT (bk_chain (tb_buckets tbl ! bkt)) k hashv)"

definition HASH_COUNT :: "('p, 'k) hash_head \<Rightarrow> nat" where
  "HASH_COUNT head = (case head of None \<Rightarrow> 0 | Some tbl \<Rightarrow> tb_num_items tbl)"

section \<open>Adding\<close>

text \<open>
  Expansion moves the handles one by one, each to the front of its new chain, and counts the
  positions that are not ideal.
\<close>

definition expand_move :: "nat \<Rightarrow> nat \<Rightarrow> ('p, 'k) UT_hash_handle \<Rightarrow>
    ('p, 'k) UT_hash_bucket list \<times> nat \<Rightarrow> ('p, 'k) UT_hash_bucket list \<times> nat" where
  "expand_move num ideal h acc =
     (let (buckets, nonideal) = acc; i = HASH_TO_BKT (hh_hashv h) num; b = buckets ! i;
          count = bk_count b + 1; over = count > ideal;
          mult = (if over \<and> count > bk_expand_mult b * ideal then bk_expand_mult b + 1 else bk_expand_mult b)
      in (buckets[i := \<lparr>bk_chain = h # bk_chain b, bk_count = count, bk_expand_mult = mult\<rparr>],
          if over then nonideal + 1 else nonideal))"

definition HASH_EXPAND_BUCKETS :: "('p, 'k) UT_hash_table \<Rightarrow> ('p, 'k) UT_hash_table" where
  "HASH_EXPAND_BUCKETS tbl =
     (let num = tb_num_buckets tbl * 2;
          ideal = tb_num_items tbl div 2 ^ (tb_log2_num_buckets tbl + 1) +
            (if tb_num_items tbl mod num \<noteq> 0 then 1 else 0);
          (buckets, nonideal) = fold (expand_move num ideal) (concat (map bk_chain (tb_buckets tbl)))
            (replicate num empty_bucket, 0);
          ineff = (if nonideal > tb_num_items tbl div 2 then tb_ineff_expands tbl + 1 else 0)
      in tbl\<lparr>tb_ideal_chain_maxlen := ideal, tb_nonideal_items := nonideal, tb_num_buckets := num,
             tb_log2_num_buckets := tb_log2_num_buckets tbl + 1, tb_buckets := buckets,
             tb_ineff_expands := ineff, tb_noexpand := tb_noexpand tbl \<or> ineff > 1\<rparr>)"

definition HASH_ADD_TO_BKT :: "nat \<Rightarrow> ('p, 'k) UT_hash_handle \<Rightarrow> ('p, 'k) UT_hash_table \<Rightarrow> ('p, 'k) UT_hash_table" where
  "HASH_ADD_TO_BKT i h tbl =
     (let b = tb_buckets tbl ! i; count = bk_count b + 1;
          tbl = tbl\<lparr>tb_buckets := (tb_buckets tbl)[i := b\<lparr>bk_count := count, bk_chain := h # bk_chain b\<rparr>]\<rparr>
      in if count \<ge> (bk_expand_mult b + 1) * HASH_BKT_CAPACITY_THRESH \<and> \<not> tb_noexpand tbl
         then HASH_EXPAND_BUCKETS tbl else tbl)"

definition HASH_ADD_TO_TABLE :: "('p, 'k) UT_hash_handle \<Rightarrow> ('p, 'k) UT_hash_table \<Rightarrow> ('p, 'k) UT_hash_table" where
  "HASH_ADD_TO_TABLE h tbl =
     (let tbl = tbl\<lparr>tb_num_items := tb_num_items tbl + 1\<rparr>
      in HASH_ADD_TO_BKT (HASH_TO_BKT (hh_hashv h) (tb_num_buckets tbl)) h tbl)"

definition HASH_ADD_KEYPTR :: "('k \<Rightarrow> u32) \<Rightarrow> 'k \<Rightarrow> 'p \<Rightarrow> ('p, 'k) hash_head \<Rightarrow> ('p, 'k) hash_head" where
  "HASH_ADD_KEYPTR hash_fn k add head =
     (let h = \<lparr>hh_elem = add, hh_key = k, hh_hashv = hash_fn k\<rparr>;
          tbl = (case head of None \<Rightarrow> HASH_MAKE_TABLE h | Some tbl \<Rightarrow> tbl\<lparr>tb_order := tb_order tbl @ [h]\<rparr>)
      in Some (HASH_ADD_TO_TABLE h tbl))"

text \<open>Insertion in order: before the first element that compares greater.\<close>

fun HASH_AKBI_INNER_LOOP :: "('p \<Rightarrow> 'p \<Rightarrow> int) \<Rightarrow> ('p, 'k) UT_hash_handle \<Rightarrow>
    ('p, 'k) UT_hash_handle list \<Rightarrow> ('p, 'k) UT_hash_handle list" where
  "HASH_AKBI_INNER_LOOP cmp h [] = [h]"
| "HASH_AKBI_INNER_LOOP cmp h (x # xs) =
     (if cmp (hh_elem x) (hh_elem h) > 0 then h # x # xs else x # HASH_AKBI_INNER_LOOP cmp h xs)"

definition HASH_ADD_KEYPTR_INORDER :: "('k \<Rightarrow> u32) \<Rightarrow> 'k \<Rightarrow> 'p \<Rightarrow> ('p \<Rightarrow> 'p \<Rightarrow> int) \<Rightarrow>
    ('p, 'k) hash_head \<Rightarrow> ('p, 'k) hash_head" where
  "HASH_ADD_KEYPTR_INORDER hash_fn k add cmp head =
     (let h = \<lparr>hh_elem = add, hh_key = k, hh_hashv = hash_fn k\<rparr>;
          tbl = (case head of None \<Rightarrow> HASH_MAKE_TABLE h
                 | Some tbl \<Rightarrow> tbl\<lparr>tb_order := HASH_AKBI_INNER_LOOP cmp h (tb_order tbl)\<rparr>)
      in Some (HASH_ADD_TO_TABLE h tbl))"

section \<open>Deleting\<close>

definition HASH_DEL_IN_BKT :: "('p, 'k) UT_hash_handle \<Rightarrow> ('p, 'k) UT_hash_bucket \<Rightarrow> ('p, 'k) UT_hash_bucket" where
  "HASH_DEL_IN_BKT h b = b\<lparr>bk_count := bk_count b - 1, bk_chain := remove1 h (bk_chain b)\<rparr>"

definition HASH_DELETE_HH :: "('p, 'k) UT_hash_handle \<Rightarrow> ('p, 'k) UT_hash_table \<Rightarrow> ('p, 'k) hash_head" where
  "HASH_DELETE_HH h tbl =
     (if tb_order tbl = [h] then None
      else let i = HASH_TO_BKT (hh_hashv h) (tb_num_buckets tbl)
           in Some (tbl\<lparr>tb_order := remove1 h (tb_order tbl),
                        tb_buckets := (tb_buckets tbl)[i := HASH_DEL_IN_BKT h (tb_buckets tbl ! i)],
                        tb_num_items := tb_num_items tbl - 1\<rparr>))"

text \<open>
  \<^verbatim>\<open>HASH_DEL(head, delptr)\<close>: the handle is a member of the element. An element that is not in the
  table has no handle of it, which is an error of the caller: \<open>None\<close>.
\<close>

definition HASH_DEL :: "'p \<Rightarrow> ('p, 'k) hash_head \<Rightarrow> ('p, 'k) hash_head option" where
  "HASH_DEL p head =
     (case head of
        None \<Rightarrow> None
      | Some tbl \<Rightarrow>
          (case find (\<lambda>h. hh_elem h = p) (tb_order tbl) of
             None \<Rightarrow> None
           | Some h \<Rightarrow> Some (HASH_DELETE_HH h tbl)))"

section \<open>Jenkins' hash function\<close>

definition HASH_JEN_MIX :: "u32 \<Rightarrow> u32 \<Rightarrow> u32 \<Rightarrow> u32 \<times> u32 \<times> u32" where
  "HASH_JEN_MIX a b c =
     (let a = (a - b - c) XOR drop_bit 13 c; b = (b - c - a) XOR push_bit 8 a; c = (c - a - b) XOR drop_bit 13 b;
          a = (a - b - c) XOR drop_bit 12 c; b = (b - c - a) XOR push_bit 16 a; c = (c - a - b) XOR drop_bit 5 b;
          a = (a - b - c) XOR drop_bit 3 c; b = (b - c - a) XOR push_bit 10 a; c = (c - a - b) XOR drop_bit 15 b
      in (a, b, c))"

definition jen_word :: "bytes \<Rightarrow> u32" where
  "jen_word bs = foldr (\<lambda>b w. ucast b + push_bit 8 w) bs 0"

function jen_loop :: "bytes \<Rightarrow> u32 \<Rightarrow> u32 \<Rightarrow> u32 \<Rightarrow> bytes \<times> u32 \<times> u32 \<times> u32" where
  "jen_loop key i j hashv =
     (if length key < 12 then (key, i, j, hashv)
      else let (i, j, hashv) = HASH_JEN_MIX (i + jen_word (take 4 key)) (j + jen_word (take 4 (drop 4 key)))
                 (hashv + jen_word (take 4 (drop 8 key)))
           in jen_loop (drop 12 key) i j hashv)"
  by pat_completeness auto

termination
  by (relation "measure (\<lambda>(key, i, j, hashv). length key)") auto

declare jen_loop.simps [simp del]

text \<open>
  The rest of fewer than twelve bytes. The lowest byte of the last word is left to the
  length of the key.
\<close>

definition HASH_JEN :: "bytes \<Rightarrow> u32" where
  "HASH_JEN key =
     (let (rest, i, j, hashv) = jen_loop key 0x9e3779b9 0x9e3779b9 0xfeedbeef;
          hashv = hashv + of_nat (length key);
          hashv = hashv + push_bit 8 (jen_word (drop 8 rest));
          j = j + jen_word (take 4 (drop 4 rest)); i = i + jen_word (take 4 rest);
          (i, j, hashv) = HASH_JEN_MIX i j hashv
      in hashv)"

section \<open>The invariant of a table\<close>

text \<open>
  Every handle is on the chain of the bucket of its hash value, the chains together hold
  exactly the elements of the application order, and the counts are right.
\<close>

definition buckets_inv :: "nat \<Rightarrow> ('p, 'k) UT_hash_bucket list \<Rightarrow> bool" where
  "buckets_inv num bs \<longleftrightarrow> length bs = num \<and>
     (\<forall>i < num. bk_count (bs ! i) = length (bk_chain (bs ! i)) \<and>
        (\<forall>h \<in> set (bk_chain (bs ! i)). HASH_TO_BKT (hh_hashv h) num = i))"

definition chained :: "('p, 'k) UT_hash_bucket list \<Rightarrow> ('p, 'k) UT_hash_handle multiset" where
  "chained bs = mset (concat (map bk_chain bs))"

definition table_inv :: "('k \<Rightarrow> u32) \<Rightarrow> ('p, 'k) UT_hash_table \<Rightarrow> bool" where
  "table_inv hash_fn tbl \<longleftrightarrow>
     tb_num_buckets tbl = 2 ^ tb_log2_num_buckets tbl \<and> buckets_inv (tb_num_buckets tbl) (tb_buckets tbl) \<and>
     chained (tb_buckets tbl) = mset (tb_order tbl) \<and> tb_num_items tbl = length (tb_order tbl) \<and>
     tb_order tbl \<noteq> [] \<and> (\<forall>h \<in> set (tb_order tbl). hh_hashv h = hash_fn (hh_key h))"

definition head_inv :: "('k \<Rightarrow> u32) \<Rightarrow> ('p, 'k) hash_head \<Rightarrow> bool" where
  "head_inv hash_fn head \<longleftrightarrow> (case head of None \<Rightarrow> True | Some tbl \<Rightarrow> table_inv hash_fn tbl)"

text \<open>What a table holds, in the order of the application.\<close>

definition entries :: "('p, 'k) hash_head \<Rightarrow> ('k \<times> 'p) list" where
  "entries head = (case head of None \<Rightarrow> [] | Some tbl \<Rightarrow> map (\<lambda>h. (hh_key h, hh_elem h)) (tb_order tbl))"

lemma HASH_TO_BKT_mod: "HASH_TO_BKT v (2 ^ n) = unat v mod 2 ^ n"
proof -
  have "of_nat (2 ^ n) - 1 = (mask n :: u32)" by (simp add: mask_eq_exp_minus_1)
  then have "HASH_TO_BKT v (2 ^ n) = unat (take_bit n v)" by (simp add: HASH_TO_BKT_def take_bit_eq_mask)
  also have "\<dots> = take_bit n (unat v)" by (rule unsigned_take_bit_eq)
  finally show ?thesis by (simp add: take_bit_eq_mod)
qed

lemma HASH_TO_BKT_less: "HASH_TO_BKT v (2 ^ n) < 2 ^ n"
  by (simp add: HASH_TO_BKT_mod)

lemma mset_concat_update:
  "i < length bs \<Longrightarrow> mset (concat (map f (bs[i := b]))) + mset (f (bs ! i)) = mset (concat (map f bs)) + mset (f b)"
proof (induction bs arbitrary: i)
  case (Cons c bs)
  then show ?case by (cases i) (simp_all add: ac_simps)
qed simp

lemma chained_push:
  assumes "i < length bs" and "bk_chain b = h # bk_chain (bs ! i)"
  shows "chained (bs[i := b]) = add_mset h (chained bs)"
  using mset_concat_update [OF assms(1), of bk_chain b] assms(2) by (simp add: chained_def)

lemma buckets_inv_push:
  assumes "buckets_inv num bs" and "i < num" and "HASH_TO_BKT (hh_hashv h) num = i"
    and "bk_chain b = h # bk_chain (bs ! i)" and "bk_count b = bk_count (bs ! i) + 1"
  shows "buckets_inv num (bs[i := b])"
  using assms by (auto simp: buckets_inv_def nth_list_update)

lemma in_chain:
  assumes "buckets_inv (2 ^ n) bs" and "h \<in># chained bs"
  shows "h \<in> set (bk_chain (bs ! HASH_TO_BKT (hh_hashv h) (2 ^ n)))"
proof -
  from assms(2) obtain i where "i < length bs" "h \<in> set (bk_chain (bs ! i))"
    by (auto simp: chained_def in_set_conv_nth [of _ bs])
  with assms(1) show ?thesis by (auto simp: buckets_inv_def)
qed

lemma chain_in:
  assumes "buckets_inv num bs" and "i < num" and "h \<in> set (bk_chain (bs ! i))"
  shows "h \<in># chained bs"
  using assms by (auto simp: chained_def buckets_inv_def)

section \<open>Expansion\<close>

lemma buckets_inv_empty: "buckets_inv num (replicate num empty_bucket)"
  by (simp add: buckets_inv_def empty_bucket_def)

lemma chained_empty [simp]: "chained (replicate num empty_bucket) = {#}"
  by (induction num) (simp_all add: chained_def empty_bucket_def)

lemma expand_moves:
  assumes "buckets_inv (2 ^ n) (fst acc)"
  shows "buckets_inv (2 ^ n) (fst (fold (expand_move (2 ^ n) ideal) hs acc)) \<and>
    chained (fst (fold (expand_move (2 ^ n) ideal) hs acc)) = chained (fst acc) + mset hs"
  using assms
proof (induction hs arbitrary: acc)
  case (Cons h hs)
  obtain bs m where acc: "acc = (bs, m)" by (cases acc)
  let ?i = "HASH_TO_BKT (hh_hashv h) (2 ^ n)"
  obtain b where b: "fst (expand_move (2 ^ n) ideal h acc) = bs[?i := b]" "bk_chain b = h # bk_chain (bs ! ?i)"
      "bk_count b = bk_count (bs ! ?i) + 1"
    by (auto simp: acc expand_move_def Let_def)
  have i: "?i < 2 ^ n" by (rule HASH_TO_BKT_less)
  have bs: "buckets_inv (2 ^ n) bs" using Cons.prems by (simp add: acc)
  then have len: "?i < length bs" using i by (simp add: buckets_inv_def)
  have "buckets_inv (2 ^ n) (fst (expand_move (2 ^ n) ideal h acc))"
    unfolding b(1) by (rule buckets_inv_push [OF bs i refl b(2,3)])
  from Cons.IH [OF this] show ?case
    using chained_push [OF len b(2)] by (simp add: b(1)) (simp add: acc)
qed simp

lemma expand_form:
  "\<exists>ideal non ineff ne. HASH_EXPAND_BUCKETS tbl =
     tbl\<lparr>tb_ideal_chain_maxlen := ideal, tb_nonideal_items := non, tb_num_buckets := tb_num_buckets tbl * 2,
       tb_log2_num_buckets := tb_log2_num_buckets tbl + 1,
       tb_buckets := fst (fold (expand_move (tb_num_buckets tbl * 2) ideal) (concat (map bk_chain (tb_buckets tbl)))
         (replicate (tb_num_buckets tbl * 2) empty_bucket, 0)),
       tb_ineff_expands := ineff, tb_noexpand := ne\<rparr>"
  unfolding HASH_EXPAND_BUCKETS_def Let_def split_beta by blast

lemma expand_inv:
  assumes "table_inv hash_fn tbl"
  shows "table_inv hash_fn (HASH_EXPAND_BUCKETS tbl) \<and> tb_order (HASH_EXPAND_BUCKETS tbl) = tb_order tbl"
proof -
  let ?n = "tb_log2_num_buckets tbl" and ?hs = "concat (map bk_chain (tb_buckets tbl))"
  have num: "tb_num_buckets tbl * 2 = 2 ^ Suc ?n" using assms by (simp add: table_inv_def)
  have "buckets_inv (2 ^ Suc ?n) (fst (replicate (2 ^ Suc ?n) empty_bucket, 0 :: nat))"
    unfolding fst_conv by (rule buckets_inv_empty)
  from expand_moves [OF this, of _ ?hs] expand_form [of tbl] assms show ?thesis
    unfolding num by (auto simp: table_inv_def chained_def [symmetric] simp del: power_Suc)
qed


section \<open>Every operation keeps the invariant\<close>

text \<open>
  Adding to the chains, for a handle that is already in the application order.
\<close>

lemma add_to_table_inv:
  assumes num: "tb_num_buckets tbl = 2 ^ tb_log2_num_buckets tbl" "buckets_inv (tb_num_buckets tbl) (tb_buckets tbl)"
    and ord: "add_mset h (chained (tb_buckets tbl)) = mset (tb_order tbl)" "tb_num_items tbl + 1 = length (tb_order tbl)"
    and hv: "\<forall>h \<in> set (tb_order tbl). hh_hashv h = hash_fn (hh_key h)"
  shows "table_inv hash_fn (HASH_ADD_TO_TABLE h tbl) \<and> tb_order (HASH_ADD_TO_TABLE h tbl) = tb_order tbl"
proof -
  let ?i = "HASH_TO_BKT (hh_hashv h) (tb_num_buckets tbl)"
  let ?b = "tb_buckets tbl ! ?i"
  let ?b' = "?b\<lparr>bk_count := bk_count ?b + 1, bk_chain := h # bk_chain ?b\<rparr>"
  define tbl' where "tbl' = tbl\<lparr>tb_num_items := tb_num_items tbl + 1, tb_buckets := (tb_buckets tbl)[?i := ?b']\<rparr>"
  have i: "?i < tb_num_buckets tbl" unfolding num(1) by (rule HASH_TO_BKT_less)
  then have len: "?i < length (tb_buckets tbl)" using num(2) by (simp add: buckets_inv_def)
  have "buckets_inv (tb_num_buckets tbl) ((tb_buckets tbl)[?i := ?b'])"
    by (rule buckets_inv_push [OF num(2) i refl]) simp_all
  moreover have "chained ((tb_buckets tbl)[?i := ?b']) = mset (tb_order tbl)"
    using chained_push [OF len, of ?b' h] ord(1) by simp
  moreover have "tb_order tbl \<noteq> []" using ord(2) by auto
  ultimately have inv: "table_inv hash_fn tbl'"
    using num(1) ord(2) hv by (simp add: table_inv_def tbl'_def)
  have "HASH_ADD_TO_TABLE h tbl = tbl' \<or> HASH_ADD_TO_TABLE h tbl = HASH_EXPAND_BUCKETS tbl'"
    by (simp add: HASH_ADD_TO_TABLE_def HASH_ADD_TO_BKT_def tbl'_def Let_def)
  with inv expand_inv [OF inv] show ?thesis by (auto simp: tbl'_def)
qed

lemma make_table_inv:
  assumes "hh_hashv h = hash_fn (hh_key h)"
  shows "table_inv hash_fn (HASH_ADD_TO_TABLE h (HASH_MAKE_TABLE h)) \<and>
    tb_order (HASH_ADD_TO_TABLE h (HASH_MAKE_TABLE h)) = [h]"
proof -
  have "table_inv hash_fn (HASH_ADD_TO_TABLE h (HASH_MAKE_TABLE h)) \<and>
      tb_order (HASH_ADD_TO_TABLE h (HASH_MAKE_TABLE h)) = tb_order (HASH_MAKE_TABLE h)"
    by (rule add_to_table_inv) (use assms in \<open>simp_all add: HASH_MAKE_TABLE_def HASH_INITIAL_NUM_BUCKETS_def
        HASH_INITIAL_NUM_BUCKETS_LOG2_def buckets_inv_empty\<close>)
  then show ?thesis by (simp add: HASH_MAKE_TABLE_def)
qed

lemma mset_inner_loop [simp]: "mset (HASH_AKBI_INNER_LOOP cmp h hs) = add_mset h (mset hs)"
  by (induction hs) auto

lemma set_inner_loop [simp]: "set (HASH_AKBI_INNER_LOOP cmp h hs) = insert h (set hs)"
  by (induction hs) auto

lemma length_inner_loop [simp]: "length (HASH_AKBI_INNER_LOOP cmp h hs) = Suc (length hs)"
  by (induction hs) auto

lemma add_table_inv:
  assumes inv: "table_inv hash_fn tbl" and hv: "hh_hashv h = hash_fn (hh_key h)"
    and ord: "mset ord = add_mset h (mset (tb_order tbl))"
  shows "table_inv hash_fn (HASH_ADD_TO_TABLE h (tbl\<lparr>tb_order := ord\<rparr>)) \<and>
    tb_order (HASH_ADD_TO_TABLE h (tbl\<lparr>tb_order := ord\<rparr>)) = ord"
proof -
  have "length ord = Suc (length (tb_order tbl))" using arg_cong [OF ord, of size] by simp
  moreover have "set ord = insert h (set (tb_order tbl))" using arg_cong [OF ord, of set_mset] by simp
  moreover have "table_inv hash_fn (HASH_ADD_TO_TABLE h (tbl\<lparr>tb_order := ord\<rparr>)) \<and>
      tb_order (HASH_ADD_TO_TABLE h (tbl\<lparr>tb_order := ord\<rparr>)) = tb_order (tbl\<lparr>tb_order := ord\<rparr>)"
    by (rule add_to_table_inv) (use inv hv ord calculation in \<open>auto simp: table_inv_def\<close>)
  ultimately show ?thesis by simp
qed

fun insert_before :: "('a \<Rightarrow> 'a \<Rightarrow> int) \<Rightarrow> 'a \<Rightarrow> 'a list \<Rightarrow> 'a list" where
  "insert_before cmp e [] = [e]"
| "insert_before cmp e (x # xs) = (if cmp x e > 0 then e # x # xs else x # insert_before cmp e xs)"

lemma entries_add:
  assumes "head_inv hash_fn head"
  shows "head_inv hash_fn (HASH_ADD_KEYPTR hash_fn k p head)"
    and "entries (HASH_ADD_KEYPTR hash_fn k p head) = entries head @ [(k, p)]"
    and "head_inv hash_fn (HASH_ADD_KEYPTR_INORDER hash_fn k p cmp head)"
    and "entries (HASH_ADD_KEYPTR_INORDER hash_fn k p cmp head) = insert_before (\<lambda>x y. cmp (snd x) (snd y)) (k, p) (entries head)"
proof -
  let ?h = "\<lparr>hh_elem = p, hh_key = k, hh_hashv = hash_fn k\<rparr>"
  have loop: "map (\<lambda>h. (hh_key h, hh_elem h)) (HASH_AKBI_INNER_LOOP cmp ?h hs) =
      insert_before (\<lambda>x y. cmp (snd x) (snd y)) (k, p) (map (\<lambda>h. (hh_key h, hh_elem h)) hs)" for hs
    by (induction hs) simp_all
  show "head_inv hash_fn (HASH_ADD_KEYPTR hash_fn k p head)"
    "entries (HASH_ADD_KEYPTR hash_fn k p head) = entries head @ [(k, p)]"
    "head_inv hash_fn (HASH_ADD_KEYPTR_INORDER hash_fn k p cmp head)"
    "entries (HASH_ADD_KEYPTR_INORDER hash_fn k p cmp head) = insert_before (\<lambda>x y. cmp (snd x) (snd y)) (k, p) (entries head)"
    using assms make_table_inv [of ?h hash_fn] add_table_inv [of hash_fn _ ?h] loop
    by (simp_all add: head_inv_def entries_def HASH_ADD_KEYPTR_def HASH_ADD_KEYPTR_INORDER_def Let_def split: option.splits)
qed

lemma entries_count: "head_inv hash_fn head \<Longrightarrow> HASH_COUNT head = length (entries head)"
  by (simp add: HASH_COUNT_def entries_def head_inv_def table_inv_def split: option.splits)

lemma find_in_bkt:
  "HASH_FIND_IN_BKT chain k v = map_option hh_elem (find (\<lambda>h. hh_hashv h = v \<and> hh_key h = k) chain)"
  by (induction chain) auto

lemma find_head:
  assumes inv: "head_inv hash_fn head"
  shows "HASH_FIND hash_fn head k = None \<longleftrightarrow> k \<notin> fst ` set (entries head)"
    and "HASH_FIND hash_fn head k = Some p \<Longrightarrow> (k, p) \<in> set (entries head)"
proof -
  have "(HASH_FIND hash_fn head k = None \<longleftrightarrow> k \<notin> fst ` set (entries head)) \<and>
      (\<forall>p. HASH_FIND hash_fn head k = Some p \<longrightarrow> (k, p) \<in> set (entries head))"
  proof (cases head)
    case (Some tbl)
    then have t: "table_inv hash_fn tbl" using inv by (simp add: head_inv_def)
    let ?i = "HASH_TO_BKT (hash_fn k) (tb_num_buckets tbl)"
    let ?c = "bk_chain (tb_buckets tbl ! ?i)"
    let ?f = "find (\<lambda>h. hh_hashv h = hash_fn k \<and> hh_key h = k) ?c"
    have num: "tb_num_buckets tbl = 2 ^ tb_log2_num_buckets tbl"
      and bi: "buckets_inv (tb_num_buckets tbl) (tb_buckets tbl)"
      and ch: "chained (tb_buckets tbl) = mset (tb_order tbl)"
      and hv: "\<And>h. h \<in> set (tb_order tbl) \<Longrightarrow> hh_hashv h = hash_fn (hh_key h)"
      using t unfolding table_inv_def by blast+
    have i: "?i < tb_num_buckets tbl" unfolding num by (rule HASH_TO_BKT_less)
    have f: "HASH_FIND hash_fn (Some tbl) k = map_option hh_elem ?f"
      by (simp add: HASH_FIND_def find_in_bkt Let_def)
    have in_order: "h \<in> set (tb_order tbl)" if "h \<in> set ?c" for h
      using chain_in [OF bi i that] ch by simp
    show ?thesis
    proof (cases ?f)
      case None
      have "hh_key h \<noteq> k" if "h \<in> set (tb_order tbl)" for h
        using in_chain [OF bi [unfolded num], of h] that hv [OF that] None ch num
        by (auto simp: find_None_iff)
      then have "k \<notin> fst ` set (entries head)" by (force simp: Some entries_def)
      then show ?thesis using None by (simp add: f Some)
    next
      case (Some h)
      then have "h \<in> set ?c" "hh_key h = k" by (auto simp: find_Some_iff)
      then have "(k, hh_elem h) \<in> set (entries head)" using in_order [of h] by (auto simp: \<open>head = Some tbl\<close> entries_def)
      then show ?thesis using Some by (force simp: f \<open>head = Some tbl\<close>)
    qed
  qed (simp add: HASH_FIND_def entries_def)
  then show "HASH_FIND hash_fn head k = None \<longleftrightarrow> k \<notin> fst ` set (entries head)"
    "HASH_FIND hash_fn head k = Some p \<Longrightarrow> (k, p) \<in> set (entries head)" by simp_all
qed

lemma entries_find:
  assumes "head_inv hash_fn head" and "distinct (map fst (entries head))"
  shows "HASH_FIND hash_fn head k = map_of (entries head) k"
proof (cases "HASH_FIND hash_fn head k")
  case None
  then show ?thesis using find_head(1) [OF assms(1), of k] by (simp add: map_of_eq_None_iff [THEN iffD2])
next
  case (Some p)
  then show ?thesis using find_head(2) [OF assms(1)] assms(2) by simp
qed

lemma remove_chain:
  assumes "buckets_inv num bs" and "i < num" and "h \<in> set (bk_chain (bs ! i))"
  shows "buckets_inv num (bs[i := HASH_DEL_IN_BKT h (bs ! i)])"
    and "chained (bs[i := HASH_DEL_IN_BKT h (bs ! i)]) = chained bs - {#h#}"
proof -
  show "buckets_inv num (bs[i := HASH_DEL_IN_BKT h (bs ! i)])"
    using assms by (auto simp: buckets_inv_def nth_list_update HASH_DEL_IN_BKT_def length_remove1 dest: in_set_remove1 notin_set_remove1)
  have len: "i < length bs" using assms by (simp add: buckets_inv_def)
  have "chained (bs[i := HASH_DEL_IN_BKT h (bs ! i)]) + mset (bk_chain (bs ! i)) =
      chained bs + (mset (bk_chain (bs ! i)) - {#h#})"
    using mset_concat_update [OF len, of bk_chain "HASH_DEL_IN_BKT h (bs ! i)"] by (simp add: chained_def HASH_DEL_IN_BKT_def)
  moreover have "mset (bk_chain (bs ! i)) = add_mset h (mset (bk_chain (bs ! i)) - {#h#})" using assms(3) by simp
  ultimately have "chained (bs[i := HASH_DEL_IN_BKT h (bs ! i)]) + add_mset h (mset (bk_chain (bs ! i)) - {#h#}) =
      chained bs + (mset (bk_chain (bs ! i)) - {#h#})" by (simp only:)
  then have "add_mset h (chained (bs[i := HASH_DEL_IN_BKT h (bs ! i)])) = chained bs" by simp
  then show "chained (bs[i := HASH_DEL_IN_BKT h (bs ! i)]) = chained bs - {#h#}" by (metis add_mset_remove_trivial)
qed

lemma entries_del:
  assumes inv: "head_inv hash_fn head" and d: "distinct (map snd (entries head))" and p: "p \<in> snd ` set (entries head)"
  shows "\<exists>head'. HASH_DEL p head = Some head' \<and> head_inv hash_fn head' \<and>
    entries head' = filter (\<lambda>e. snd e \<noteq> p) (entries head)"
proof -
  from p obtain tbl where tbl: "head = Some tbl" by (cases head) (auto simp: entries_def)
  then have t: "table_inv hash_fn tbl" using inv by (simp add: head_inv_def)
  let ?ord = "tb_order tbl"
  have d': "distinct (map hh_elem ?ord)" using d by (simp add: tbl entries_def comp_def)
  from p obtain h where "find (\<lambda>h. hh_elem h = p) ?ord = Some h"
    by (cases "find (\<lambda>h. hh_elem h = p) ?ord") (auto simp: tbl entries_def find_None_iff)
  moreover from this have h: "h \<in> set ?ord" "hh_elem h = p" by (auto simp: find_Some_iff)
  ultimately have del: "HASH_DEL p head = Some (HASH_DELETE_HH h tbl)" by (simp add: tbl HASH_DEL_def)
  have "distinct ?ord" using d' by (simp add: distinct_map)
  moreover have "x = h \<longleftrightarrow> hh_elem x = p" if "x \<in> set ?ord" for x
    using d' that h by (auto simp: distinct_map dest: inj_onD)
  ultimately have rm: "remove1 h ?ord = filter (\<lambda>x. hh_elem x \<noteq> p) ?ord"
    by (auto simp: distinct_remove1_removeAll removeAll_filter_not_eq intro!: filter_cong)
  show ?thesis
  proof (cases "?ord = [h]")
    case True
    then show ?thesis using del h(2) by (simp add: tbl HASH_DELETE_HH_def head_inv_def entries_def)
  next
    case False
    let ?i = "HASH_TO_BKT (hh_hashv h) (tb_num_buckets tbl)"
    have num: "tb_num_buckets tbl = 2 ^ tb_log2_num_buckets tbl"
      and bi: "buckets_inv (tb_num_buckets tbl) (tb_buckets tbl)" using t unfolding table_inv_def by blast+
    have i: "?i < tb_num_buckets tbl" unfolding num by (rule HASH_TO_BKT_less)
    have hc: "h \<in> set (bk_chain (tb_buckets tbl ! ?i))"
      using in_chain [OF bi [unfolded num], of h] t h(1) unfolding num by (simp add: table_inv_def)
    note rc = remove_chain [OF bi i hc]
    have ne: "remove1 h ?ord \<noteq> []" using False h(1) by (cases ?ord; cases "tl ?ord") auto
    let ?t = "tbl\<lparr>tb_order := remove1 h ?ord, tb_buckets := (tb_buckets tbl)[?i := HASH_DEL_IN_BKT h (tb_buckets tbl ! ?i)],
        tb_num_items := tb_num_items tbl - 1\<rparr>"
    have "table_inv hash_fn ?t"
      using t rc ne h(1) by (auto simp: table_inv_def length_remove1 dest: notin_set_remove1)
    moreover have "HASH_DELETE_HH h tbl = Some ?t" using False by (simp add: HASH_DELETE_HH_def Let_def)
    moreover have "entries (Some ?t) = filter (\<lambda>e. snd e \<noteq> p) (entries head)"
      by (simp add: tbl entries_def rm filter_map comp_def)
    ultimately show ?thesis using del by (simp add: head_inv_def)
  qed
qed

section \<open>The interface of a table\<close>

text \<open>
  What a client of a table relies on. \<open>fits\<close> says which keys an element may be added under; a
  hash table takes any, a list of records that hold their own keys does not.
\<close>

locale keyed_table =
  fixes inv :: "'t \<Rightarrow> bool" and entries :: "'t \<Rightarrow> ('k \<times> 'p) list" and fits :: "'k \<Rightarrow> 'p \<Rightarrow> bool"
    and find :: "'t \<Rightarrow> 'k \<Rightarrow> 'p option" and add :: "'k \<Rightarrow> 'p \<Rightarrow> 't \<Rightarrow> 't" and del :: "'p \<Rightarrow> 't \<Rightarrow> 't option"
  assumes find_entries: "inv t \<Longrightarrow> distinct (map fst (entries t)) \<Longrightarrow> find t k = map_of (entries t) k"
    and inv_add: "inv t \<Longrightarrow> fits k p \<Longrightarrow> inv (add k p t)"
    and entries_add: "inv t \<Longrightarrow> fits k p \<Longrightarrow> entries (add k p t) = entries t @ [(k, p)]"
    and del_entries: "inv t \<Longrightarrow> distinct (map snd (entries t)) \<Longrightarrow> p \<in> snd ` set (entries t) \<Longrightarrow>
      \<exists>t'. del p t = Some t' \<and> inv t' \<and> entries t' = filter (\<lambda>e. snd e \<noteq> p) (entries t)"
begin

definition well_keyed :: "'t \<Rightarrow> bool" where
  "well_keyed t \<longleftrightarrow> inv t \<and> distinct (map fst (entries t)) \<and> distinct (map snd (entries t))"

lemma find_None: "well_keyed t \<Longrightarrow> find t k = None \<longleftrightarrow> k \<notin> fst ` set (entries t)"
  by (simp add: well_keyed_def find_entries map_of_eq_None_iff)

lemma find_Some: "well_keyed t \<Longrightarrow> find t k = Some p \<longleftrightarrow> (k, p) \<in> set (entries t)"
  by (simp add: well_keyed_def find_entries map_of_eq_Some_iff)

lemma well_keyed_add:
  assumes "well_keyed t" and "fits k p" and "find t k = None" and "p \<notin> snd ` set (entries t)"
  shows "well_keyed (add k p t)"
  using assms find_None [OF assms(1), of k] inv_add entries_add by (auto simp: well_keyed_def)

lemma find_add:
  assumes "well_keyed t" and "fits k p" and "find t k = None" and "p \<notin> snd ` set (entries t)"
  shows "find (add k p t) k' = (if k' = k then Some p else find t k')"
proof -
  have "find (add k p t) k' = map_of (entries t @ [(k, p)]) k'"
    using well_keyed_add [OF assms] assms by (simp add: well_keyed_def find_entries entries_add)
  moreover have "find t k' = map_of (entries t) k'" "map_of (entries t) k = None"
    using assms by (simp_all add: well_keyed_def find_entries)
  ultimately show ?thesis by (auto simp: map_add_def split: option.split)
qed

lemma find_del:
  assumes wk: "well_keyed t" and f: "find t k = Some p"
  shows "\<exists>t'. del p t = Some t' \<and> well_keyed t' \<and> entries t' = filter (\<lambda>e. snd e \<noteq> p) (entries t) \<and>
    (\<forall>k'. find t' k' = (if k' = k then None else find t k'))"
proof -
  have kp: "(k, p) \<in> set (entries t)" using find_Some [OF wk] f by simp
  then have "p \<in> snd ` set (entries t)" by force
  with wk del_entries [of t p] obtain t' where t': "del p t = Some t'" "inv t'"
      "entries t' = filter (\<lambda>e. snd e \<noteq> p) (entries t)" by (auto simp: well_keyed_def)
  have wk': "well_keyed t'"
    using wk t'(2,3) by (auto simp: well_keyed_def distinct_map intro: inj_on_subset)
  have inj: "inj_on fst (set (entries t))" "inj_on snd (set (entries t))"
    using wk by (simp_all add: well_keyed_def distinct_map)
  have key: "k' = k \<longleftrightarrow> q = p" if "(k', q) \<in> set (entries t)" for k' q
    using inj_onD [OF inj(1) _ that kp] inj_onD [OF inj(2) _ that kp] by auto
  have "find t' k' = (if k' = k then None else find t k')" for k'
  proof (cases "find t k'")
    case None
    then have "find t' k' = None" using find_None [OF wk'] find_None [OF wk] t'(3) by auto
    then show ?thesis using None by simp
  next
    case (Some q)
    then have q: "(k', q) \<in> set (entries t)" using find_Some [OF wk] by simp
    show ?thesis
    proof (cases "k' = k")
      case True
      then have "k' \<notin> fst ` set (entries t')" using t'(3) by (auto dest: key)
      then show ?thesis using True find_None [OF wk'] by simp
    next
      case False
      then have "(k', q) \<in> set (entries t')" using key [OF q] q t'(3) by simp
      then show ?thesis using False Some find_Some [OF wk'] by simp
    qed
  qed
  then show ?thesis using t' wk' by blast
qed

end

interpretation uthash: keyed_table "head_inv hash_fn" entries "\<lambda>k p. True" "HASH_FIND hash_fn" "HASH_ADD_KEYPTR hash_fn" HASH_DEL
  for hash_fn
  by unfold_locales (simp_all add: entries_find entries_add(1,2) entries_del)

text \<open>
  The view the components of the program take of their tables: a list of records in
  the order of insertion, each with its key in it.
\<close>

definition ulist_find :: "('a \<Rightarrow> 'k) \<Rightarrow> 'a list \<Rightarrow> 'k \<Rightarrow> 'a option" where
  "ulist_find key xs k = find (\<lambda>x. key x = k) xs"

definition ulist_add :: "'a \<Rightarrow> 'a list \<Rightarrow> 'a list" where
  "ulist_add x xs = xs @ [x]"

definition ulist_add_inorder :: "('a \<Rightarrow> 'a \<Rightarrow> int) \<Rightarrow> 'a \<Rightarrow> 'a list \<Rightarrow> 'a list" where
  "ulist_add_inorder cmp x xs = insert_before cmp x xs"

definition ulist_del :: "'a \<Rightarrow> 'a list \<Rightarrow> 'a list option" where
  "ulist_del x xs = (if x \<in> set xs then Some (remove1 x xs) else None)"

lemma ulist_find_map_of: "ulist_find key xs k = map_of (map (\<lambda>x. (key x, x)) xs) k"
  by (induction xs) (simp_all add: ulist_find_def)

interpretation ulist: keyed_table "\<lambda>xs. True" "map (\<lambda>x. (key x, x))" "\<lambda>k x. key x = k" "ulist_find key"
    "\<lambda>k. ulist_add" ulist_del
  for key :: "'a \<Rightarrow> 'k"
proof unfold_locales
  fix x :: 'a and xs
  assume "distinct (map snd (map (\<lambda>x. (key x, x)) xs))" and x: "x \<in> snd ` set (map (\<lambda>x. (key x, x)) xs)"
  then have "remove1 x xs = filter (\<lambda>y. y \<noteq> x) xs"
    by (simp add: distinct_remove1_removeAll removeAll_filter_not_eq comp_def) (metis)
  then show "\<exists>t'. ulist_del x xs = Some t' \<and> True \<and>
      map (\<lambda>x. (key x, x)) t' = filter (\<lambda>e. snd e \<noteq> x) (map (\<lambda>x. (key x, x)) xs)"
    using x by (auto simp: ulist_del_def filter_map comp_def)
qed (simp_all add: ulist_find_map_of ulist_add_def)

lemma ulist_well_keyed [simp]:
  "keyed_table.well_keyed (\<lambda>xs. True) (map (\<lambda>x. (key x, x))) xs \<longleftrightarrow> distinct (map key xs)"
  by (auto simp: ulist.well_keyed_def comp_def distinct_map)

section \<open>A table in use\<close>

text \<open>
  The way every component uses its table: an element is added when its key is not taken, and
  deleted after it was found by its key.
\<close>

datatype ('k, 'p) table_op = Op_add 'k 'p | Op_del 'k

fun table_step :: "('k \<Rightarrow> u32) \<Rightarrow> ('k, 'p) table_op \<Rightarrow> ('p, 'k) hash_head \<Rightarrow> ('p, 'k) hash_head option" where
  "table_step hash_fn (Op_add k p) head =
     Some (case HASH_FIND hash_fn head k of None \<Rightarrow> HASH_ADD_KEYPTR hash_fn k p head | Some _ \<Rightarrow> head)"
| "table_step hash_fn (Op_del k) head =
     (case HASH_FIND hash_fn head k of None \<Rightarrow> Some head | Some p \<Rightarrow> HASH_DEL p head)"

fun table_run :: "('k \<Rightarrow> u32) \<Rightarrow> ('k, 'p) table_op list \<Rightarrow> ('p, 'k) hash_head \<Rightarrow> ('p, 'k) hash_head option" where
  "table_run hash_fn [] head = Some head"
| "table_run hash_fn (op # ops) head =
     (case table_step hash_fn op head of None \<Rightarrow> None | Some head \<Rightarrow> table_run hash_fn ops head)"

fun map_step :: "('k, 'p) table_op \<Rightarrow> ('k \<rightharpoonup> 'p) \<Rightarrow> ('k \<rightharpoonup> 'p)" where
  "map_step (Op_add k p) m = (case m k of None \<Rightarrow> m(k \<mapsto> p) | Some _ \<Rightarrow> m)"
| "map_step (Op_del k) m = m(k := None)"

fun added :: "('k, 'p) table_op list \<Rightarrow> 'p list" where
  "added [] = []"
| "added (Op_add k p # ops) = p # added ops"
| "added (Op_del k # ops) = added ops"

lemma empty_table: "HASH_FIND hash_fn None = Map.empty" "uthash.well_keyed hash_fn None" "entries None = []"
  by (simp_all add: HASH_FIND_def fun_eq_iff uthash.well_keyed_def head_inv_def entries_def)

lemma table_step_refines:
  assumes wk: "uthash.well_keyed hash_fn head" and new: "\<And>k p. op = Op_add k p \<Longrightarrow> p \<notin> snd ` set (entries head)"
  shows "\<exists>head'. table_step hash_fn op head = Some head' \<and> uthash.well_keyed hash_fn head' \<and>
    HASH_FIND hash_fn head' = map_step op (HASH_FIND hash_fn head) \<and>
    snd ` set (entries head') \<subseteq> snd ` set (entries head) \<union> set (added [op])"
proof (cases op)
  case (Op_add k p)
  show ?thesis
  proof (cases "HASH_FIND hash_fn head k")
    case None
    then show ?thesis
      using uthash.well_keyed_add [OF wk _ None, of p] uthash.find_add [OF wk _ None, of p] new [OF Op_add] wk
        entries_add(2) [of hash_fn head k p]
      by (auto simp: Op_add uthash.well_keyed_def)
  qed (use wk Op_add in auto)
next
  case (Op_del k)
  show ?thesis
  proof (cases "HASH_FIND hash_fn head k")
    case (Some p)
    obtain head' where d: "HASH_DEL p head = Some head'" "uthash.well_keyed hash_fn head'"
      "entries head' = filter (\<lambda>e. snd e \<noteq> p) (entries head)"
      "\<forall>k'. HASH_FIND hash_fn head' k' = (if k' = k then None else HASH_FIND hash_fn head k')"
      using uthash.find_del [OF wk Some] by blast
    moreover have "snd ` set (entries head') \<subseteq> snd ` set (entries head)" by (auto simp: d(3) image_iff)
    ultimately show ?thesis using Some by (auto simp: Op_del fun_eq_iff)
  qed (use wk Op_del in \<open>auto simp: fun_upd_idem\<close>)
qed

text \<open>
  C4: For any hash function and any sequence of such operations from an empty table, with
  chains of any length and expansions of the bucket array on the way, every lookup finds
  exactly what the same operations leave in a finite map.
\<close>

theorem uthash_is_map:
  assumes "distinct (added ops)"
  shows "\<exists>head. table_run hash_fn ops None = Some head \<and>
    (\<forall>k. HASH_FIND hash_fn head k = fold map_step ops Map.empty k)"
proof -
  have "\<exists>head'. table_run hash_fn ops head = Some head' \<and> HASH_FIND hash_fn head' = fold map_step ops (HASH_FIND hash_fn head)"
    if "uthash.well_keyed hash_fn head" "distinct (added ops)" "snd ` set (entries head) \<inter> set (added ops) = {}" for head
    using that
  proof (induction ops arbitrary: head)
    case (Cons op ops)
    have "p \<notin> snd ` set (entries head)" if "op = Op_add k p" for k p using Cons.prems(3) that by auto
    with table_step_refines [OF Cons.prems(1)] obtain head' where s: "table_step hash_fn op head = Some head'"
      "uthash.well_keyed hash_fn head'" "HASH_FIND hash_fn head' = map_step op (HASH_FIND hash_fn head)"
      "snd ` set (entries head') \<subseteq> snd ` set (entries head) \<union> set (added [op])" by meson
    have a: "distinct (added ops)" "set (added [op]) \<inter> set (added ops) = {}" "set (added ops) \<subseteq> set (added (op # ops))"
      using Cons.prems(2) by (cases op; auto)+
    with s(4) Cons.prems(3) have "snd ` set (entries head') \<inter> set (added ops) = {}" by blast
    from Cons.IH [OF s(2) a(1) this] s(1,3) show ?case by auto
  qed simp
  from this [of None] show ?thesis using assms by (auto simp: empty_table)
qed

section \<open>Instances\<close>

theorem uthash_is_map_witness:
  "distinct (added [Op_add [1] ''a'', Op_add [2, 3] ''b'', Op_del [1]]) \<and>
   (\<exists>head. table_run HASH_JEN [Op_add [1] ''a'', Op_add [2, 3] ''b'', Op_del [1]] None = Some head \<and>
     (\<forall>k. HASH_FIND HASH_JEN head k =
        fold map_step [Op_add [1] ''a'', Op_add [2, 3] ''b'', Op_del [1]] Map.empty k))"
  using uthash_is_map [where ops = "[Op_add [1] ''a'', Op_add [2, 3] ''b'', Op_del [1]]" and hash_fn = HASH_JEN]
  by simp

end
