(* ===== verification/Subscribe.thy ===== *)
theory Subscribe
  imports Neuron_Types Uthash
begin

text \<open>
  The registry of subscriptions of \<^verbatim>\<open>src/core/subscribe.c\<close>: for every driver and group that was ever
  subscribed, the applications that take its data. The address of an application is opaque.
  \<open>mem i\<close> says whether the string copy number \<open>i\<close> of a call succeeds; a failed \<^verbatim>\<open>calloc\<close> or
  \<^verbatim>\<open>utarray_new\<close> ends the program and is not modelled. A name is the characters before the
  terminating zero; a name that fills its whole array has none, and no statement below is
  about such names.
\<close>

section \<open>The registry\<close>

record sub_elem_key =
  key_driver :: string
  key_group :: string

record 'a neu_app_subscribe =
  as_app_name :: string
  as_params :: "string option"
  as_static_tags :: "string option"
  as_addr :: 'a

record 'a sub_elem =
  se_key :: sub_elem_key
  se_apps :: "'a neu_app_subscribe list"

record 'a neu_subscribe_mgr =
  sm_ss :: "'a sub_elem list"

record neu_resp_subscribe_info =
  si_app :: string
  si_driver :: string
  si_group :: string
  si_params :: "string option"
  si_static_tags :: "string option"

definition neu_subscribe_manager_create :: "'a neu_subscribe_mgr" where
  "neu_subscribe_manager_create = \<lparr>sm_ss = []\<rparr>"

definition sub_key :: "string \<Rightarrow> string \<Rightarrow> sub_elem_key" where
  "sub_key driver grp =
     \<lparr>key_driver = strncpy_to NEU_NODE_NAME_LEN driver, key_group = strncpy_to NEU_GROUP_NAME_LEN grp\<rparr>"

section \<open>Questions\<close>

definition neu_subscribe_manager_find :: "'a neu_subscribe_mgr \<Rightarrow> string \<Rightarrow> string \<Rightarrow> 'a neu_app_subscribe list option" where
  "neu_subscribe_manager_find mgr driver grp =
     (case ulist_find se_key (sm_ss mgr) (sub_key driver grp) of None \<Rightarrow> None | Some el \<Rightarrow> Some (se_apps el))"

definition neu_subscribe_manager_find_by_driver :: "'a neu_subscribe_mgr \<Rightarrow> string \<Rightarrow> 'a neu_app_subscribe list" where
  "neu_subscribe_manager_find_by_driver mgr driver =
     fold (\<lambda>el apps. if driver = key_driver (se_key el) then apps @ se_apps el else apps) (sm_ss mgr) []"

definition neu_subscribe_manager_get :: "'a neu_subscribe_mgr \<Rightarrow> string \<Rightarrow> string option \<Rightarrow> string option \<Rightarrow>
    neu_resp_subscribe_info list" where
  "neu_subscribe_manager_get mgr app driver grp =
     fold (\<lambda>el groups.
       fold (\<lambda>sub_app groups.
         if as_app_name sub_app = app \<and>
            (case driver of None \<Rightarrow> True | Some d \<Rightarrow> strstr (key_driver (se_key el)) d) \<and>
            (case grp of None \<Rightarrow> True | Some g \<Rightarrow> strstr (key_group (se_key el)) g)
         then groups @ [\<lparr>si_app = strncpy_to NEU_NODE_NAME_LEN app,
                         si_driver = strncpy_to NEU_NODE_NAME_LEN (key_driver (se_key el)),
                         si_group = strncpy_to NEU_GROUP_NAME_LEN (key_group (se_key el)),
                         si_params = as_params sub_app, si_static_tags = as_static_tags sub_app\<rparr>]
         else groups) (se_apps el) groups) (sm_ss mgr) []"

definition neu_subscribe_manager_group_count :: "'a neu_subscribe_mgr \<Rightarrow> string \<Rightarrow> nat" where
  "neu_subscribe_manager_group_count mgr app =
     fold (\<lambda>el count.
       fold (\<lambda>sub_app count. if as_app_name sub_app = app then count + 1 else count) (se_apps el) count)
       (sm_ss mgr) 0"

section \<open>Subscribing\<close>

text \<open>
  \<open>update_elem\<close> stores in the element a pointer leads to: the one with the key that was looked up.
\<close>

definition update_elem :: "sub_elem_key \<Rightarrow> ('a sub_elem \<Rightarrow> 'a sub_elem) \<Rightarrow> 'a neu_subscribe_mgr \<Rightarrow> 'a neu_subscribe_mgr" where
  "update_elem k f mgr = mgr\<lparr>sm_ss := map (\<lambda>el. if se_key el = k then f el else el) (sm_ss mgr)\<rparr>"

definition strdup :: "bool \<Rightarrow> string option \<Rightarrow> string option option" where
  "strdup ok s = (case s of None \<Rightarrow> Some None | Some s \<Rightarrow> if ok then Some (Some s) else None)"

definition neu_subscribe_manager_sub :: "(nat \<Rightarrow> bool) \<Rightarrow> 'a neu_subscribe_mgr \<Rightarrow> string \<Rightarrow> string \<Rightarrow> string \<Rightarrow>
    string option \<Rightarrow> string option \<Rightarrow> 'a \<Rightarrow> neu_err \<times> 'a neu_subscribe_mgr" where
  "neu_subscribe_manager_sub mem mgr driver app grp params static_tags addr =
     (let key = sub_key driver grp in
      case strdup (mem 0) params of None \<Rightarrow> (NEU_ERR_EINTERNAL, mgr) | Some p \<Rightarrow>
      case strdup (mem 1) static_tags of None \<Rightarrow> (NEU_ERR_EINTERNAL, mgr) | Some s \<Rightarrow>
      let app_sub = \<lparr>as_app_name = strncpy_to NEU_NODE_NAME_LEN app, as_params = p, as_static_tags = s, as_addr = addr\<rparr>;
          push = update_elem key (\<lambda>el. el\<lparr>se_apps := se_apps el @ [app_sub]\<rparr>)
      in case ulist_find se_key (sm_ss mgr) key of
           Some el \<Rightarrow>
             if list_ex (\<lambda>sub. as_app_name sub = app) (se_apps el)
             then (NEU_ERR_GROUP_ALREADY_SUBSCRIBED, mgr)
             else (NEU_ERR_SUCCESS, push mgr)
         | None \<Rightarrow>
             let mgr = mgr\<lparr>sm_ss := ulist_add \<lparr>se_key = key, se_apps = []\<rparr> (sm_ss mgr)\<rparr>
             in (NEU_ERR_SUCCESS, push mgr))"

text \<open>The first application of the name in an array is changed, or erased.\<close>

fun update_first :: "('b \<Rightarrow> bool) \<Rightarrow> ('b \<Rightarrow> 'b) \<Rightarrow> 'b list \<Rightarrow> 'b list" where
  "update_first p f [] = []"
| "update_first p f (x # xs) = (if p x then f x # xs else x # update_first p f xs)"

fun erase_first :: "('b \<Rightarrow> bool) \<Rightarrow> 'b list \<Rightarrow> 'b list" where
  "erase_first p [] = []"
| "erase_first p (x # xs) = (if p x then xs else x # erase_first p xs)"

definition neu_subscribe_manager_update_params :: "(nat \<Rightarrow> bool) \<Rightarrow> 'a neu_subscribe_mgr \<Rightarrow> string \<Rightarrow> string \<Rightarrow> string \<Rightarrow>
    string option \<Rightarrow> string option \<Rightarrow> neu_err \<times> 'a neu_subscribe_mgr" where
  "neu_subscribe_manager_update_params mem mgr app driver grp params static_tags =
     (let key = sub_key driver grp in
      case ulist_find se_key (sm_ss mgr) key of None \<Rightarrow> (NEU_ERR_GROUP_NOT_SUBSCRIBE, mgr) | Some el \<Rightarrow>
      case find (\<lambda>sub. as_app_name sub = app) (se_apps el) of None \<Rightarrow> (NEU_ERR_GROUP_NOT_SUBSCRIBE, mgr) | Some _ \<Rightarrow>
      case strdup (mem 0) params of None \<Rightarrow> (NEU_ERR_EINTERNAL, mgr) | Some p \<Rightarrow>
      case strdup (mem 1) static_tags of None \<Rightarrow> (NEU_ERR_EINTERNAL, mgr) | Some s \<Rightarrow>
      (NEU_ERR_SUCCESS,
       update_elem key (\<lambda>el. el\<lparr>se_apps :=
         update_first (\<lambda>sub. as_app_name sub = app) (\<lambda>sub. sub\<lparr>as_params := p, as_static_tags := s\<rparr>) (se_apps el)\<rparr>) mgr))"

definition neu_subscribe_manager_unsub :: "'a neu_subscribe_mgr \<Rightarrow> string \<Rightarrow> string \<Rightarrow> string \<Rightarrow>
    neu_err \<times> 'a neu_subscribe_mgr" where
  "neu_subscribe_manager_unsub mgr driver app grp =
     (let key = sub_key driver grp in
      case ulist_find se_key (sm_ss mgr) key of
        None \<Rightarrow> (NEU_ERR_GROUP_NOT_SUBSCRIBE, mgr)
      | Some el \<Rightarrow>
          if list_ex (\<lambda>sub. as_app_name sub = app) (se_apps el)
          then (NEU_ERR_SUCCESS,
                update_elem key (\<lambda>el. el\<lparr>se_apps := erase_first (\<lambda>sub. as_app_name sub = app) (se_apps el)\<rparr>) mgr)
          else (NEU_ERR_GROUP_NOT_SUBSCRIBE, mgr))"

text \<open>The elements stay in their places while the loop unsubscribes.\<close>

definition neu_subscribe_manager_unsub_all :: "'a neu_subscribe_mgr \<Rightarrow> string \<Rightarrow> 'a neu_subscribe_mgr" where
  "neu_subscribe_manager_unsub_all mgr app =
     fold (\<lambda>i mgr.
       let el = sm_ss mgr ! i
       in if list_ex (\<lambda>sub. as_app_name sub = app) (se_apps el)
          then snd (neu_subscribe_manager_unsub mgr (key_driver (se_key el)) app (key_group (se_key el)))
          else mgr) [0..<length (sm_ss mgr)] mgr"

definition neu_subscribe_manager_remove :: "'a neu_subscribe_mgr \<Rightarrow> string \<Rightarrow> string option \<Rightarrow> 'a neu_subscribe_mgr" where
  "neu_subscribe_manager_remove mgr driver grp =
     mgr\<lparr>sm_ss := filter (\<lambda>el. \<not> (driver = key_driver (se_key el) \<and>
       (case grp of None \<Rightarrow> True | Some g \<Rightarrow> g = key_group (se_key el)))) (sm_ss mgr)\<rparr>"

section \<open>Renaming\<close>

definition neu_subscribe_manager_update_app_name :: "'a neu_subscribe_mgr \<Rightarrow> string \<Rightarrow> string \<Rightarrow>
    neu_err \<times> 'a neu_subscribe_mgr" where
  "neu_subscribe_manager_update_app_name mgr app new_name =
     (0, mgr\<lparr>sm_ss := map (\<lambda>el. el\<lparr>se_apps := map (\<lambda>sub_app.
            if app = as_app_name sub_app
            then sub_app\<lparr>as_app_name := strncpy_to NEU_NODE_NAME_LEN new_name\<rparr> else sub_app) (se_apps el)\<rparr>) (sm_ss mgr)\<rparr>)"

text \<open>
  The loop deletes the current element and appends it again under its new name. The element
  it visits next was fixed before that, so it also comes to the elements it has appended.
  \<open>front\<close> are the elements it has passed, and the second list begins with the current one.
\<close>

partial_function (option) rename_driver_loop :: "string \<Rightarrow> string \<Rightarrow> 'a sub_elem list \<Rightarrow> 'a sub_elem list \<Rightarrow> 'a sub_elem list option" where
  "rename_driver_loop driver new_name front rest =
     (case rest of
        [] \<Rightarrow> Some front
      | el # after \<Rightarrow>
          if driver = key_driver (se_key el)
          then let el = el\<lparr>se_key := (se_key el)\<lparr>key_driver := strncpy_to NEU_NODE_NAME_LEN new_name\<rparr>\<rparr>
               in if after = [] then Some (front @ [el])
                  else rename_driver_loop driver new_name front (after @ [el])
          else rename_driver_loop driver new_name (front @ [el]) after)"

definition neu_subscribe_manager_update_driver_name :: "'a neu_subscribe_mgr \<Rightarrow> string \<Rightarrow> string \<Rightarrow>
    (neu_err \<times> 'a neu_subscribe_mgr) option" where
  "neu_subscribe_manager_update_driver_name mgr driver new_name =
     map_option (\<lambda>ss. (0, mgr\<lparr>sm_ss := ss\<rparr>)) (rename_driver_loop driver new_name [] (sm_ss mgr))"

definition neu_subscribe_manager_update_group_name :: "'a neu_subscribe_mgr \<Rightarrow> string \<Rightarrow> string \<Rightarrow> string \<Rightarrow>
    (neu_err \<times> 'a neu_subscribe_mgr) option" where
  "neu_subscribe_manager_update_group_name mgr driver grp new_name =
     (case ulist_find se_key (sm_ss mgr) (sub_key driver grp) of
        None \<Rightarrow> Some (NEU_ERR_GROUP_NOT_SUBSCRIBE, mgr)
      | Some el \<Rightarrow>
          case ulist_del el (sm_ss mgr) of
            None \<Rightarrow> None
          | Some ss \<Rightarrow>
              let el = el\<lparr>se_key := (se_key el)\<lparr>key_group := strncpy_to NEU_GROUP_NAME_LEN new_name\<rparr>\<rparr>
              in Some (0, mgr\<lparr>sm_ss := ulist_add el ss\<rparr>))"

section \<open>Subscriptions as a map\<close>

text \<open>
  The registry stands for a map from driver and group to a map from application to its
  parameters, static tags and address.
\<close>

type_synonym 'a app_info = "string option \<times> string option \<times> 'a"
type_synonym 'a sub_map = "sub_elem_key \<rightharpoonup> string \<rightharpoonup> 'a app_info"

definition app_map :: "'a neu_app_subscribe list \<Rightarrow> (string \<rightharpoonup> 'a app_info)" where
  "app_map apps = map_of (map (\<lambda>s. (as_app_name s, (as_params s, as_static_tags s, as_addr s))) apps)"

definition subs :: "'a neu_subscribe_mgr \<Rightarrow> 'a sub_map" where
  "subs mgr = map_of (map (\<lambda>el. (se_key el, app_map (se_apps el))) (sm_ss mgr))"

abbreviation fits :: "string \<Rightarrow> bool" where
  "fits s \<equiv> length s < NEU_NODE_NAME_LEN"

abbreviation pair_key :: "string \<Rightarrow> string \<Rightarrow> sub_elem_key" where
  "pair_key d g \<equiv> \<lparr>key_driver = d, key_group = g\<rparr>"

definition elem_inv :: "'a sub_elem \<Rightarrow> bool" where
  "elem_inv el \<longleftrightarrow> fits (key_driver (se_key el)) \<and> fits (key_group (se_key el)) \<and>
     distinct (map as_app_name (se_apps el)) \<and> (\<forall>s \<in> set (se_apps el). fits (as_app_name s))"

definition sub_inv :: "'a neu_subscribe_mgr \<Rightarrow> bool" where
  "sub_inv mgr \<longleftrightarrow> distinct (map se_key (sm_ss mgr)) \<and> (\<forall>el \<in> set (sm_ss mgr). elem_inv el)"

lemma fits_key [simp]: "fits d \<Longrightarrow> fits g \<Longrightarrow> sub_key d g = pair_key d g"
  by (simp add: sub_key_def strncpy_to_def NEU_NODE_NAME_LEN_def NEU_GROUP_NAME_LEN_def)

lemma strncpy_fits [simp]: "fits s \<Longrightarrow> strncpy_to NEU_NODE_NAME_LEN s = s" "fits s \<Longrightarrow> strncpy_to NEU_GROUP_NAME_LEN s = s"
  by (simp_all add: strncpy_to_def NEU_NODE_NAME_LEN_def NEU_GROUP_NAME_LEN_def)

lemma subs_dom: "subs mgr k = None \<longleftrightarrow> k \<notin> se_key ` set (sm_ss mgr)"
  by (simp add: subs_def map_of_eq_None_iff image_image)

lemma subs_elem:
  assumes "distinct (map se_key (sm_ss mgr))" and "el \<in> set (sm_ss mgr)"
  shows "subs mgr (se_key el) = Some (app_map (se_apps el))"
  unfolding subs_def by (rule map_of_is_SomeI) (use assms in \<open>simp_all add: comp_def\<close>)

lemma subs_eqI:
  assumes d: "distinct (map se_key (sm_ss mgr))" and "\<And>el. el \<in> set (sm_ss mgr) \<Longrightarrow> m (se_key el) = Some (app_map (se_apps el))"
    and "\<And>k. k \<notin> se_key ` set (sm_ss mgr) \<Longrightarrow> m k = None"
  shows "subs mgr = m"
proof
  fix k show "subs mgr k = m k"
    using subs_elem [OF d] subs_dom [of mgr k] assms(2,3) by (cases "k \<in> se_key ` set (sm_ss mgr)") auto
qed

lemma sub_elem_unique:
  assumes "distinct (map se_key (sm_ss mgr))" and "e \<in> set (sm_ss mgr)" and "el \<in> set (sm_ss mgr)"
  shows "se_key e = se_key el \<longleftrightarrow> e = el"
  using assms by (auto simp: distinct_map dest: inj_onD)

lemma find_elem:
  assumes "sub_inv mgr"
  shows "ulist_find se_key (sm_ss mgr) k = None \<longleftrightarrow> subs mgr k = None"
    and "ulist_find se_key (sm_ss mgr) k = Some el \<longleftrightarrow> el \<in> set (sm_ss mgr) \<and> se_key el = k"
  using assms ulist.find_None [of se_key "sm_ss mgr" k] ulist.find_Some [of se_key "sm_ss mgr" k el]
  by (auto simp: sub_inv_def subs_dom image_iff)

lemma find_is_subs:
  assumes "sub_inv mgr" and "fits d" and "fits g"
  shows "map_option app_map (neu_subscribe_manager_find mgr d g) = subs mgr (pair_key d g)"
proof (cases "ulist_find se_key (sm_ss mgr) (pair_key d g)")
  case None
  then show ?thesis using assms find_elem(1) [OF assms(1), of "pair_key d g"] by (simp add: neu_subscribe_manager_find_def)
next
  case (Some el)
  then show ?thesis using assms find_elem(2) [OF assms(1), of "pair_key d g" el] subs_elem [of mgr el]
    by (simp add: neu_subscribe_manager_find_def sub_inv_def)
qed

lemma update_elem_inv:
  assumes inv: "sub_inv mgr" and f: "\<And>el. el \<in> set (sm_ss mgr) \<Longrightarrow> se_key el = k \<Longrightarrow> elem_inv (f el) \<and> se_key (f el) = k"
  shows "sub_inv (update_elem k f mgr)"
proof -
  have "map se_key (map (\<lambda>el. if se_key el = k then f el else el) (sm_ss mgr)) = map se_key (sm_ss mgr)" using f by auto
  then show ?thesis using inv f by (auto simp: sub_inv_def update_elem_def simp del: map_map)
qed

lemma update_elem_subs:
  assumes inv: "sub_inv mgr" and f: "se_key (f el) = se_key el" and el: "el \<in> set (sm_ss mgr)"
  shows "subs (update_elem (se_key el) f mgr) = (subs mgr)(se_key el \<mapsto> app_map (se_apps (f el)))"
proof (rule subs_eqI)
  have d: "distinct (map se_key (sm_ss mgr))" using inv by (simp add: sub_inv_def)
  have uniq: "se_key e = se_key el \<longleftrightarrow> e = el" if "e \<in> set (sm_ss mgr)" for e by (rule sub_elem_unique [OF d that el])
  have keys: "map se_key (sm_ss (update_elem (se_key el) f mgr)) = map se_key (sm_ss mgr)"
    using uniq f by (auto simp: update_elem_def)
  then have keyset: "se_key ` set (sm_ss (update_elem (se_key el) f mgr)) = se_key ` set (sm_ss mgr)"
    by (metis list.set_map)
  show "distinct (map se_key (sm_ss (update_elem (se_key el) f mgr)))" using d keys by simp
  show "((subs mgr)(se_key el \<mapsto> app_map (se_apps (f el)))) (se_key e) = Some (app_map (se_apps e))"
    if "e \<in> set (sm_ss (update_elem (se_key el) f mgr))" for e
    using that subs_elem [OF d] uniq f by (auto simp: update_elem_def)
  show "((subs mgr)(se_key el \<mapsto> app_map (se_apps (f el)))) k = None"
    if "k \<notin> se_key ` set (sm_ss (update_elem (se_key el) f mgr))" for k
    using that el subs_dom [of mgr k] unfolding keyset by auto
qed

text \<open>The operations, and what they do to the map.\<close>

datatype 'a sub_op =
    Sub string string string "string option" "string option" 'a
  | Update_params string string string "string option" "string option"
  | Unsub string string string
  | Unsub_all string
  | Remove string "string option"
  | Rename_app string string
  | Rename_driver string string
  | Rename_group string string string

fun sub_step :: "(nat \<Rightarrow> bool) \<Rightarrow> 'a sub_op \<Rightarrow> 'a neu_subscribe_mgr \<Rightarrow> (neu_err \<times> 'a neu_subscribe_mgr) option" where
  "sub_step mem (Sub driver app grp params static_tags addr) mgr =
     Some (neu_subscribe_manager_sub mem mgr driver app grp params static_tags addr)"
| "sub_step mem (Update_params app driver grp params static_tags) mgr =
     Some (neu_subscribe_manager_update_params mem mgr app driver grp params static_tags)"
| "sub_step mem (Unsub driver app grp) mgr = Some (neu_subscribe_manager_unsub mgr driver app grp)"
| "sub_step mem (Unsub_all app) mgr = Some (NEU_ERR_SUCCESS, neu_subscribe_manager_unsub_all mgr app)"
| "sub_step mem (Remove driver grp) mgr = Some (NEU_ERR_SUCCESS, neu_subscribe_manager_remove mgr driver grp)"
| "sub_step mem (Rename_app app new_name) mgr = Some (neu_subscribe_manager_update_app_name mgr app new_name)"
| "sub_step mem (Rename_driver driver new_name) mgr = neu_subscribe_manager_update_driver_name mgr driver new_name"
| "sub_step mem (Rename_group driver grp new_name) mgr = neu_subscribe_manager_update_group_name mgr driver grp new_name"

definition copies :: "(nat \<Rightarrow> bool) \<Rightarrow> string option \<Rightarrow> string option \<Rightarrow> bool" where
  "copies mem params static_tags \<longleftrightarrow> (params \<noteq> None \<longrightarrow> mem 0) \<and> (static_tags \<noteq> None \<longrightarrow> mem 1)"

definition rename_in :: "'k \<Rightarrow> 'k \<Rightarrow> ('k \<rightharpoonup> 'v) \<Rightarrow> ('k \<rightharpoonup> 'v)" where
  "rename_in old new m = (\<lambda>k. if k = new then m old else if k = old then None else m k)"

fun sub_spec :: "(nat \<Rightarrow> bool) \<Rightarrow> 'a sub_op \<Rightarrow> 'a sub_map \<Rightarrow> neu_err \<times> 'a sub_map" where
  "sub_spec mem (Sub d a g p s addr) m =
     (if \<not> copies mem p s then (NEU_ERR_EINTERNAL, m)
      else case m (pair_key d g) of
        None \<Rightarrow> (NEU_ERR_SUCCESS, m(pair_key d g \<mapsto> [a \<mapsto> (p, s, addr)]))
      | Some apps \<Rightarrow>
          if apps a \<noteq> None then (NEU_ERR_GROUP_ALREADY_SUBSCRIBED, m)
          else (NEU_ERR_SUCCESS, m(pair_key d g \<mapsto> apps(a \<mapsto> (p, s, addr)))))"
| "sub_spec mem (Update_params a d g p s) m =
     (case m (pair_key d g) of
        None \<Rightarrow> (NEU_ERR_GROUP_NOT_SUBSCRIBE, m)
      | Some apps \<Rightarrow>
          case apps a of
            None \<Rightarrow> (NEU_ERR_GROUP_NOT_SUBSCRIBE, m)
          | Some (_, _, addr) \<Rightarrow>
              if \<not> copies mem p s then (NEU_ERR_EINTERNAL, m)
              else (NEU_ERR_SUCCESS, m(pair_key d g \<mapsto> apps(a \<mapsto> (p, s, addr)))))"
| "sub_spec mem (Unsub d a g) m =
     (case m (pair_key d g) of
        None \<Rightarrow> (NEU_ERR_GROUP_NOT_SUBSCRIBE, m)
      | Some apps \<Rightarrow>
          if apps a = None then (NEU_ERR_GROUP_NOT_SUBSCRIBE, m)
          else (NEU_ERR_SUCCESS, m(pair_key d g \<mapsto> apps(a := None))))"
| "sub_spec mem (Unsub_all a) m = (NEU_ERR_SUCCESS, \<lambda>k. map_option (\<lambda>apps. apps(a := None)) (m k))"
| "sub_spec mem (Remove d grp) m =
     (NEU_ERR_SUCCESS, \<lambda>k. if key_driver k = d \<and> (grp = None \<or> grp = Some (key_group k)) then None else m k)"
| "sub_spec mem (Rename_app a new) m = (NEU_ERR_SUCCESS, \<lambda>k. map_option (rename_in a new) (m k))"
| "sub_spec mem (Rename_driver d new) m =
     (NEU_ERR_SUCCESS, \<lambda>k. if key_driver k = new then m (k\<lparr>key_driver := d\<rparr>) else if key_driver k = d then None else m k)"
| "sub_spec mem (Rename_group d g new) m =
     (if m (pair_key d g) = None then (NEU_ERR_GROUP_NOT_SUBSCRIBE, m)
      else (NEU_ERR_SUCCESS, rename_in (pair_key d g) (pair_key d new) m))"

text \<open>
  What a caller has to ensure: names fit their arrays, and nothing is renamed to a name that
  is taken. A driver may not even be renamed to its own name.
\<close>

fun sub_ok :: "'a sub_op \<Rightarrow> 'a sub_map \<Rightarrow> bool" where
  "sub_ok (Sub d a g p s addr) m \<longleftrightarrow> fits d \<and> fits a \<and> fits g"
| "sub_ok (Update_params a d g p s) m \<longleftrightarrow> fits d \<and> fits a \<and> fits g"
| "sub_ok (Unsub d a g) m \<longleftrightarrow> fits d \<and> fits a \<and> fits g"
| "sub_ok (Unsub_all a) m \<longleftrightarrow> True"
| "sub_ok (Remove d grp) m \<longleftrightarrow> True"
| "sub_ok (Rename_app a new) m \<longleftrightarrow> fits new \<and> (new = a \<or> (\<forall>k apps. m k = Some apps \<longrightarrow> apps new = None))"
| "sub_ok (Rename_driver d new) m \<longleftrightarrow> fits new \<and> new \<noteq> d \<and> (\<forall>g. m (pair_key new g) = None)"
| "sub_ok (Rename_group d g new) m \<longleftrightarrow> fits d \<and> fits g \<and> fits new \<and> (new = g \<or> m (pair_key d new) = None)"

lemma app_map_None: "app_map apps a = None \<longleftrightarrow> a \<notin> as_app_name ` set apps"
  by (simp add: app_map_def map_of_eq_None_iff image_image)

lemma app_map_list_ex: "list_ex (\<lambda>sub. as_app_name sub = a) apps \<longleftrightarrow> app_map apps a \<noteq> None"
  by (auto simp: app_map_None list_ex_iff)

lemma app_map_push:
  "app_map apps (as_app_name s) = None \<Longrightarrow>
    app_map (apps @ [s]) = (app_map apps)(as_app_name s \<mapsto> (as_params s, as_static_tags s, as_addr s))"
  by (auto simp: app_map_def map_of_append map_add_def fun_eq_iff split: option.split)

lemma app_map_erase:
  "distinct (map as_app_name apps) \<Longrightarrow> app_map (erase_first (\<lambda>s. as_app_name s = a) apps) = (app_map apps)(a := None)"
proof (induction apps)
  case (Cons s apps)
  have "app_map apps a = None" if "as_app_name s = a" using Cons.prems that by (auto simp: app_map_None)
  then show ?case using Cons by (auto simp: app_map_def fun_eq_iff)
qed (simp add: app_map_def fun_eq_iff)

lemma set_erase: "set (erase_first p xs) \<subseteq> set xs"
  by (induction xs) auto

lemma distinct_erase: "distinct (map f xs) \<Longrightarrow> distinct (map f (erase_first p xs))"
  using set_erase by (induction xs) fastforce+

lemma app_map_update:
  assumes "app_map apps a = Some (p, s, addr)"
  shows "app_map (update_first (\<lambda>s. as_app_name s = a) (\<lambda>s. s\<lparr>as_params := p', as_static_tags := s'\<rparr>) apps) =
    (app_map apps)(a \<mapsto> (p', s', addr))"
  using assms by (induction apps) (auto simp: app_map_def fun_eq_iff split: if_splits)

lemma names_update: "(\<And>x. g (f x) = g x) \<Longrightarrow> map g (update_first p f xs) = map g xs"
  by (induction xs) auto

lemma sub_refines:
  assumes inv: "sub_inv mgr" and ok: "fits d" "fits a" "fits g"
  shows "\<exists>rc mgr'. neu_subscribe_manager_sub mem mgr d a g p s addr = (rc, mgr') \<and> sub_inv mgr' \<and>
    (rc, subs mgr') = sub_spec mem (Sub d a g p s addr) (subs mgr)"
proof (cases "copies mem p s")
  case False
  then show ?thesis using inv by (auto simp: neu_subscribe_manager_sub_def copies_def strdup_def split: option.splits)
next
  case True
  let ?k = "pair_key d g" and ?s = "\<lparr>as_app_name = a, as_params = p, as_static_tags = s, as_addr = addr\<rparr>"
  let ?f = "\<lambda>el. el\<lparr>se_apps := se_apps el @ [?s]\<rparr>"
  have dup: "strdup (mem 0) p = Some p" "strdup (mem 1) s = Some s"
    using True by (auto simp: copies_def strdup_def split: option.split)
  have push: "sub_inv (update_elem ?k ?f m) \<and> subs (update_elem ?k ?f m) = (subs m)(?k \<mapsto> (app_map (se_apps el))(a \<mapsto> (p, s, addr)))"
    if m: "sub_inv m" "el \<in> set (sm_ss m)" "se_key el = ?k" "app_map (se_apps el) a = None" for m el
  proof
    have "elem_inv e" "e = el" if "e \<in> set (sm_ss m)" "se_key e = ?k" for e
      using m that sub_elem_unique [of m e el] by (auto simp: sub_inv_def)
    then show "sub_inv (update_elem ?k ?f m)"
      using m(4) ok(2) by (intro update_elem_inv [OF m(1)]) (force simp: elem_inv_def app_map_None)
    show "subs (update_elem ?k ?f m) = (subs m)(?k \<mapsto> (app_map (se_apps el))(a \<mapsto> (p, s, addr)))"
      using update_elem_subs [OF m(1), of ?f el] m app_map_push [of "se_apps el" ?s] by simp
  qed
  show ?thesis
  proof (cases "ulist_find se_key (sm_ss mgr) ?k")
    case None
    let ?m = "mgr\<lparr>sm_ss := sm_ss mgr @ [\<lparr>se_key = ?k, se_apps = []\<rparr>]\<rparr>"
    have new: "?k \<notin> se_key ` set (sm_ss mgr)" using None find_elem(1) [OF inv, of ?k] by (simp add: subs_dom)
    then have m: "sub_inv ?m" using inv ok by (auto simp: sub_inv_def elem_inv_def)
    have "subs ?m = (subs mgr)(?k \<mapsto> Map.empty)"
      using new subs_dom [of mgr ?k] by (auto simp: subs_def map_add_def fun_eq_iff app_map_def [of "[]"] split: option.split)
    with push [OF m, of "\<lparr>se_key = ?k, se_apps = []\<rparr>"] None find_elem(1) [OF inv, of ?k] True dup show ?thesis
      by (simp add: neu_subscribe_manager_sub_def ok ulist_add_def Let_def app_map_def)
  next
    case (Some el)
    then have el: "el \<in> set (sm_ss mgr)" "se_key el = ?k" using find_elem(2) [OF inv, of ?k el] by simp_all
    then have "subs mgr ?k = Some (app_map (se_apps el))" using subs_elem [of mgr el] inv by (simp add: sub_inv_def)
    with push [OF inv el] Some True dup inv show ?thesis
      by (cases "app_map (se_apps el) a") (simp_all add: neu_subscribe_manager_sub_def ok Let_def app_map_list_ex)
  qed
qed

lemma find_cases [consumes 1, case_names none some]:
  assumes inv: "sub_inv mgr"
  obtains (none) "ulist_find se_key (sm_ss mgr) k = None" "subs mgr k = None"
  | (some) el where "ulist_find se_key (sm_ss mgr) k = Some el" "el \<in> set (sm_ss mgr)" "se_key el = k"
      "subs mgr k = Some (app_map (se_apps el))" "elem_inv el"
proof (cases "ulist_find se_key (sm_ss mgr) k")
  case None
  then show ?thesis using none find_elem(1) [OF inv, of k] by simp
next
  case (Some el)
  then have "el \<in> set (sm_ss mgr)" "se_key el = k" using find_elem(2) [OF inv, of k el] by simp_all
  then show ?thesis using some Some subs_elem [of mgr el] inv by (simp add: sub_inv_def)
qed

lemma update_elem_refines:
  assumes inv: "sub_inv mgr" and el: "el \<in> set (sm_ss mgr)"
    and apps: "distinct (map as_app_name apps)" "\<forall>s \<in> set apps. fits (as_app_name s)" "se_apps (f el) = apps"
    and f: "se_key (f el) = se_key el"
  shows "sub_inv (update_elem (se_key el) f mgr)"
    and "subs (update_elem (se_key el) f mgr) = (subs mgr)(se_key el \<mapsto> app_map apps)"
proof -
  have "elem_inv e" "e = el" if "e \<in> set (sm_ss mgr)" "se_key e = se_key el" for e
    using inv el that sub_elem_unique [of mgr e el] by (auto simp: sub_inv_def)
  then show "sub_inv (update_elem (se_key el) f mgr)"
    using apps f by (intro update_elem_inv [OF inv]) (force simp: elem_inv_def)
  show "subs (update_elem (se_key el) f mgr) = (subs mgr)(se_key el \<mapsto> app_map apps)"
    using update_elem_subs [where mgr = mgr and f = f and el = el, OF inv f el] apps(3) by simp
qed

lemma unsub_refines:
  assumes inv: "sub_inv mgr" and ok: "fits d" "fits a" "fits g"
  shows "\<exists>rc mgr'. neu_subscribe_manager_unsub mgr d a g = (rc, mgr') \<and> sub_inv mgr' \<and>
    (rc, subs mgr') = sub_spec mem (Unsub d a g) (subs mgr)"
  using inv
proof (cases rule: find_cases [where k = "pair_key d g"])
  case none
  then show ?thesis using inv ok by (simp add: neu_subscribe_manager_unsub_def)
next
  case (some el)
  let ?apps = "erase_first (\<lambda>s. as_app_name s = a) (se_apps el)"
  have apps: "distinct (map as_app_name ?apps)" "\<forall>s \<in> set ?apps. fits (as_app_name s)"
    using some(5) distinct_erase [of as_app_name "se_apps el" "\<lambda>s. as_app_name s = a"]
      set_erase [of "\<lambda>s. as_app_name s = a" "se_apps el"] by (auto simp: elem_inv_def)
  from update_elem_refines [OF inv some(2) apps, of "\<lambda>el. el\<lparr>se_apps := erase_first (\<lambda>s. as_app_name s = a) (se_apps el)\<rparr>"]
  show ?thesis using some app_map_erase [of "se_apps el" a] inv ok
    by (simp add: neu_subscribe_manager_unsub_def app_map_list_ex elem_inv_def)
qed

lemma params_refines:
  assumes inv: "sub_inv mgr" and ok: "fits d" "fits a" "fits g"
  shows "\<exists>rc mgr'. neu_subscribe_manager_update_params mem mgr a d g p s = (rc, mgr') \<and> sub_inv mgr' \<and>
    (rc, subs mgr') = sub_spec mem (Update_params a d g p s) (subs mgr)"
  using inv
proof (cases rule: find_cases [where k = "pair_key d g"])
  case none
  then show ?thesis using inv ok by (simp add: neu_subscribe_manager_update_params_def)
next
  case (some el)
  have f: "find (\<lambda>s. as_app_name s = a) (se_apps el) = None \<longleftrightarrow> app_map (se_apps el) a = None"
    by (auto simp: find_None_iff app_map_None)
  show ?thesis
  proof (cases "app_map (se_apps el) a")
    case None
    then show ?thesis using some inv ok f by (simp add: neu_subscribe_manager_update_params_def)
  next
    case (Some info)
    obtain p0 s0 addr where info: "app_map (se_apps el) a = Some (p0, s0, addr)" using Some by (metis prod_cases3)
    obtain sub where sub: "find (\<lambda>s. as_app_name s = a) (se_apps el) = Some sub" using f Some by auto
    show ?thesis
    proof (cases "copies mem p s")
      case False
      then have "strdup (mem 0) p = None \<or> (\<exists>p'. strdup (mem 0) p = Some p') \<and> strdup (mem 1) s = None"
        by (auto simp: copies_def strdup_def split: option.split)
      then show ?thesis using some(1,4) inv ok sub info False
        by (auto simp: neu_subscribe_manager_update_params_def)
    next
      case True
      have dup: "strdup (mem 0) p = Some p" "strdup (mem 1) s = Some s"
        using True by (auto simp: copies_def strdup_def split: option.split)
      let ?f = "\<lambda>s'. s'\<lparr>as_params := p, as_static_tags := s\<rparr>"
      let ?apps = "update_first (\<lambda>s. as_app_name s = a) ?f (se_apps el)"
      have names: "map as_app_name ?apps = map as_app_name (se_apps el)" by (rule names_update) simp
      then have "as_app_name ` set ?apps = as_app_name ` set (se_apps el)" by (metis list.set_map)
      moreover have "\<forall>n \<in> as_app_name ` set (se_apps el). fits n" using some(5) by (simp add: elem_inv_def)
      ultimately have "\<forall>n \<in> as_app_name ` set ?apps. fits n" by (simp only:)
      then have fit: "\<forall>s \<in> set ?apps. fits (as_app_name s)" by blast
      have dist: "distinct (map as_app_name ?apps)" using names some(5) by (simp add: elem_inv_def)
      note up = update_elem_refines [OF inv some(2) dist fit,
          of "\<lambda>el. el\<lparr>se_apps := update_first (\<lambda>s. as_app_name s = a) ?f (se_apps el)\<rparr>"]
      show ?thesis using up app_map_update [OF info, where p' = p and s' = s] some(1,3,4) ok sub info dup True
        by (simp add: neu_subscribe_manager_update_params_def)
    qed
  qed
qed

lemma remove_refines:
  assumes inv: "sub_inv mgr"
  shows "sub_inv (neu_subscribe_manager_remove mgr d grp) \<and>
    subs (neu_subscribe_manager_remove mgr d grp) = snd (sub_spec mem (Remove d grp) (subs mgr))"
proof -
  let ?m = "neu_subscribe_manager_remove mgr d grp"
  let ?gone = "\<lambda>k. key_driver k = d \<and> (grp = None \<or> grp = Some (key_group k))"
  have ss: "sm_ss ?m = filter (\<lambda>el. \<not> ?gone (se_key el)) (sm_ss mgr)"
    by (auto simp: neu_subscribe_manager_remove_def intro!: filter_cong split: option.split)
  have d: "distinct (map se_key (sm_ss mgr))" using inv by (simp add: sub_inv_def)
  have inv': "sub_inv ?m" using inv unfolding sub_inv_def ss by (simp add: distinct_map_filter)
  have "subs ?m = (\<lambda>k. if ?gone k then None else subs mgr k)"
  proof (rule subs_eqI)
    show "distinct (map se_key (sm_ss ?m))" using inv' by (simp add: sub_inv_def)
    show "(if ?gone (se_key el) then None else subs mgr (se_key el)) = Some (app_map (se_apps el))"
      if "el \<in> set (sm_ss ?m)" for el
      using that subs_elem [OF d, of el] unfolding ss by auto
    show "(if ?gone k then None else subs mgr k) = None" if "k \<notin> se_key ` set (sm_ss ?m)" for k
      using that subs_dom [of mgr k] unfolding ss by auto
  qed
  with inv' show ?thesis by simp
qed

definition unsub_at :: "string \<Rightarrow> nat \<Rightarrow> 'a neu_subscribe_mgr \<Rightarrow> 'a neu_subscribe_mgr" where
  "unsub_at app i mgr =
     (let el = sm_ss mgr ! i
      in if list_ex (\<lambda>sub. as_app_name sub = app) (se_apps el)
         then snd (neu_subscribe_manager_unsub mgr (key_driver (se_key el)) app (key_group (se_key el))) else mgr)"

lemma unsub_keys: "map se_key (sm_ss (snd (neu_subscribe_manager_unsub mgr d a g))) = map se_key (sm_ss mgr)"
  by (simp add: neu_subscribe_manager_unsub_def update_elem_def Let_def split: option.split)

lemma unsub_at_refines:
  assumes inv: "sub_inv mgr" and i: "i < length (sm_ss mgr)"
  defines "k \<equiv> se_key (sm_ss mgr ! i)"
  shows "sub_inv (unsub_at a i mgr)" "map se_key (sm_ss (unsub_at a i mgr)) = map se_key (sm_ss mgr)"
    and "subs (unsub_at a i mgr) = (subs mgr)(k := map_option (\<lambda>apps. apps(a := None)) (subs mgr k))"
proof -
  let ?el = "sm_ss mgr ! i"
  have el: "?el \<in> set (sm_ss mgr)" "elem_inv ?el" using inv i by (simp_all add: sub_inv_def)
  have s: "subs mgr k = Some (app_map (se_apps ?el))"
    using subs_elem [of mgr ?el] inv el(1) by (simp add: k_def sub_inv_def)
  have goal: "sub_inv (unsub_at a i mgr) \<and> map se_key (sm_ss (unsub_at a i mgr)) = map se_key (sm_ss mgr) \<and>
    subs (unsub_at a i mgr) = (subs mgr)(k := map_option (\<lambda>apps. apps(a := None)) (subs mgr k))"
  proof (cases "list_ex (\<lambda>sub. as_app_name sub = a) (se_apps ?el)")
    case True
    then have a: "fits a" using el(2) by (auto simp: list_ex_iff elem_inv_def)
    have k: "pair_key (key_driver k) (key_group k) = k" by simp
    have "fits (key_driver k)" "fits (key_group k)" using el(2) by (simp_all add: elem_inv_def k_def)
    with unsub_refines [OF inv, of "key_driver k" a "key_group k"] a s k app_map_list_ex [of a "se_apps ?el"] True
    show ?thesis
      by (auto simp: unsub_at_def Let_def unsub_keys simp flip: k_def)
  next
    case False
    then have "app_map (se_apps ?el) a = None" by (simp only: app_map_list_ex not_not)
    then have "(app_map (se_apps ?el))(a := None) = app_map (se_apps ?el)" by (rule fun_upd_idem)
    then show ?thesis using False inv s by (simp add: unsub_at_def fun_upd_idem)
  qed
  then show "sub_inv (unsub_at a i mgr)" "map se_key (sm_ss (unsub_at a i mgr)) = map se_key (sm_ss mgr)"
    "subs (unsub_at a i mgr) = (subs mgr)(k := map_option (\<lambda>apps. apps(a := None)) (subs mgr k))" by simp_all
qed

lemma unsub_all_refines:
  assumes inv: "sub_inv mgr"
  shows "sub_inv (neu_subscribe_manager_unsub_all mgr a) \<and>
    subs (neu_subscribe_manager_unsub_all mgr a) = snd (sub_spec mem (Unsub_all a) (subs mgr))"
proof -
  let ?keys = "map se_key (sm_ss mgr)"
  have fold: "sub_inv (fold (unsub_at a) [0..<j] mgr) \<and> map se_key (sm_ss (fold (unsub_at a) [0..<j] mgr)) = ?keys \<and>
      subs (fold (unsub_at a) [0..<j] mgr) =
        (\<lambda>k. if k \<in> set (take j ?keys) then map_option (\<lambda>apps. apps(a := None)) (subs mgr k) else subs mgr k)"
    if "j \<le> length (sm_ss mgr)" for j
    using that
  proof (induction j)
    case (Suc j)
    let ?m = "fold (unsub_at a) [0..<j] mgr"
    have m: "sub_inv ?m" "map se_key (sm_ss ?m) = ?keys" "subs ?m =
        (\<lambda>k. if k \<in> set (take j ?keys) then map_option (\<lambda>apps. apps(a := None)) (subs mgr k) else subs mgr k)"
      using Suc by simp_all
    have len: "j < length (sm_ss ?m)" using Suc.prems m(2) by (metis Suc_le_eq length_map)
    have key: "se_key (sm_ss ?m ! j) = ?keys ! j" using len m(2) by (metis nth_map)
    have take: "set (take (Suc j) ?keys) = insert (?keys ! j) (set (take j ?keys))"
      using Suc.prems by (simp add: take_Suc_conv_app_nth)
    show ?case using unsub_at_refines [OF m(1) len, of a] m(2,3) unfolding key take
      by (auto simp: fun_eq_iff option.map_comp comp_def)
  qed (use inv in simp)
  have "neu_subscribe_manager_unsub_all mgr a = fold (unsub_at a) [0..<length (sm_ss mgr)] mgr"
    unfolding neu_subscribe_manager_unsub_all_def unsub_at_def by (rule refl)
  moreover have "subs mgr k = None" if "k \<notin> set ?keys" for k using that by (simp add: subs_dom)
  ultimately show ?thesis using fold [OF order_refl] by (auto simp: fun_eq_iff)
qed

lemma update_app_refines:
  assumes inv: "sub_inv mgr" and new: "fits new"
    and free: "new = a \<or> (\<forall>k apps. subs mgr k = Some apps \<longrightarrow> apps new = None)"
  shows "\<exists>mgr'. neu_subscribe_manager_update_app_name mgr a new = (0, mgr') \<and> sub_inv mgr' \<and>
    subs mgr' = snd (sub_spec mem (Rename_app a new) (subs mgr))"
proof -
  let ?f = "\<lambda>s. if a = as_app_name s then s\<lparr>as_app_name := new\<rparr> else s"
  let ?m = "mgr\<lparr>sm_ss := map (\<lambda>el. el\<lparr>se_apps := map ?f (se_apps el)\<rparr>) (sm_ss mgr)\<rparr>"
  have d: "distinct (map se_key (sm_ss mgr))" using inv by (simp add: sub_inv_def)
  have app: "distinct (map as_app_name (map ?f apps)) \<and> app_map (map ?f apps) = rename_in a new (app_map apps)"
    if "distinct (map as_app_name apps)" "new = a \<or> app_map apps new = None" for apps
    using that
  proof (induction apps)
    case (Cons s apps)
    have "new = a \<or> app_map apps new = None" "new \<noteq> a \<Longrightarrow> as_app_name s \<noteq> new"
      using Cons.prems by (auto simp: app_map_None)
    moreover have "as_app_name s \<notin> as_app_name ` set apps" using Cons.prems(1) by simp
    ultimately show ?case using Cons
      by (auto simp: app_map_def rename_in_def fun_eq_iff app_map_None map_of_eq_None_iff image_iff)
  qed (auto simp: app_map_def rename_in_def)
  have keys: "map se_key (sm_ss ?m) = map se_key (sm_ss mgr)" by simp
  have el: "new = a \<or> app_map (se_apps el) new = None" if "el \<in> set (sm_ss mgr)" for el
    using free
  proof
    assume "\<forall>k apps. subs mgr k = Some apps \<longrightarrow> apps new = None"
    then have "subs mgr (se_key el) = Some (app_map (se_apps el)) \<longrightarrow> app_map (se_apps el) new = None" by blast
    with subs_elem [OF d that] show ?thesis by simp
  qed simp
  have el2: "elem_inv el" if "el \<in> set (sm_ss mgr)" for el using inv that by (simp add: sub_inv_def)
  have "sub_inv ?m" using app [OF _ el] el2 new d by (auto simp: sub_inv_def elem_inv_def comp_def)
  moreover have "subs ?m = (\<lambda>k. map_option (rename_in a new) (subs mgr k))"
  proof (rule subs_eqI)
    show "distinct (map se_key (sm_ss ?m))" using d by (simp only: keys)
    show "map_option (rename_in a new) (subs mgr (se_key e)) = Some (app_map (se_apps e))" if "e \<in> set (sm_ss ?m)" for e
      using that subs_elem [OF d] app [OF _ el] el2 by (auto simp: elem_inv_def)
    show "map_option (rename_in a new) (subs mgr k) = None" if "k \<notin> se_key ` set (sm_ss ?m)" for k
      using that by (simp add: image_image subs_dom)
  qed
  ultimately show ?thesis unfolding neu_subscribe_manager_update_app_name_def strncpy_fits(1) [OF new] by simp
qed

definition with_driver :: "string \<Rightarrow> string \<Rightarrow> 'a sub_elem \<Rightarrow> 'a sub_elem" where
  "with_driver driver new el =
     (if driver = key_driver (se_key el) then el\<lparr>se_key := (se_key el)\<lparr>key_driver := new\<rparr>\<rparr> else el)"

abbreviation of_driver :: "string \<Rightarrow> 'a sub_elem \<Rightarrow> bool" where
  "of_driver driver el \<equiv> driver = key_driver (se_key el)"

lemma rename_loop_perm:
  assumes "strncpy_to NEU_NODE_NAME_LEN new \<noteq> driver"
  shows "\<exists>ss. rename_driver_loop driver new front rest = Some ss \<and>
    mset ss = mset (front @ map (with_driver driver (strncpy_to NEU_NODE_NAME_LEN new)) rest)"
proof (induction "length rest + length (filter (of_driver driver) rest)" arbitrary: front rest rule: less_induct)
  case less
  let ?w = "with_driver driver (strncpy_to NEU_NODE_NAME_LEN new)"
  show ?case
  proof (cases rest)
    case Nil
    then show ?thesis by (simp add: rename_driver_loop.simps)
  next
    case (Cons el after)
    let ?el = "el\<lparr>se_key := (se_key el)\<lparr>key_driver := strncpy_to NEU_NODE_NAME_LEN new\<rparr>\<rparr>"
    have w: "?w ?el = ?el" using assms by (auto simp: with_driver_def)
    show ?thesis
    proof (cases "driver = key_driver (se_key el)")
      case True
      have "rename_driver_loop driver new front rest =
          (if after = [] then Some (front @ [?el]) else rename_driver_loop driver new front (after @ [?el]))"
        using True Cons by (subst rename_driver_loop.simps) (simp add: Let_def)
      moreover have "?w el = ?el" using True by (simp add: with_driver_def)
      moreover have "\<exists>ss. rename_driver_loop driver new front (after @ [?el]) = Some ss \<and> mset ss = mset (front @ map ?w (after @ [?el]))"
        by (rule less) (use True Cons assms in simp)
      ultimately show ?thesis using Cons w by auto
    next
      case False
      have "rename_driver_loop driver new front rest = rename_driver_loop driver new (front @ [el]) after"
        using False Cons by (subst rename_driver_loop.simps) simp
      moreover have "?w el = el" using False by (simp add: with_driver_def)
      moreover have "\<exists>ss. rename_driver_loop driver new (front @ [el]) after = Some ss \<and> mset ss = mset ((front @ [el]) @ map ?w after)"
        by (rule less) (use False Cons in simp)
      ultimately show ?thesis using Cons by auto
    qed
  qed
qed

lemma driver_refines:
  assumes inv: "sub_inv mgr" and new: "fits new" "new \<noteq> d" "\<forall>g. subs mgr (pair_key new g) = None"
  shows "\<exists>mgr'. neu_subscribe_manager_update_driver_name mgr d new = Some (0, mgr') \<and> sub_inv mgr' \<and>
    subs mgr' = snd (sub_spec mem (Rename_driver d new) (subs mgr))"
proof -
  let ?w = "with_driver d new"
  obtain ss where ss: "rename_driver_loop d new [] (sm_ss mgr) = Some ss" "mset ss = mset (map ?w (sm_ss mgr))"
    using rename_loop_perm [of new d "[]" "sm_ss mgr"] new by auto
  have d: "distinct (map se_key (sm_ss mgr))" using inv by (simp add: sub_inv_def)
  have free: "key_driver (se_key el) \<noteq> new" if "el \<in> set (sm_ss mgr)" for el
  proof
    assume "key_driver (se_key el) = new"
    then have "se_key el = pair_key new (key_group (se_key el))" by (cases "se_key el") simp
    then show False using new(3) that subs_elem [OF d that] by (metis option.distinct(1))
  qed
  have inj: "se_key (?w x) = se_key (?w y) \<longleftrightarrow> se_key x = se_key y" if "x \<in> set (sm_ss mgr)" "y \<in> set (sm_ss mgr)" for x y
    using free [OF that(1)] free [OF that(2)] by (cases "se_key x"; cases "se_key y") (auto simp: with_driver_def)
  have set: "set ss = ?w ` set (sm_ss mgr)" using mset_eq_setD [OF ss(2)] by simp
  have "distinct (map se_key (map ?w (sm_ss mgr)))" using d inj by (auto simp: distinct_map inj_on_def)
  then have dist: "distinct (map se_key ss)" using ss(2) by (metis mset_eq_imp_distinct_iff mset_map)
  have "sub_inv (mgr\<lparr>sm_ss := ss\<rparr>)"
    using inv new(1) dist by (auto simp: sub_inv_def set elem_inv_def with_driver_def)
  moreover have "subs (mgr\<lparr>sm_ss := ss\<rparr>) = snd (sub_spec mem (Rename_driver d new) (subs mgr))" (is "_ = ?m")
  proof (rule subs_eqI)
    show "distinct (map se_key (sm_ss (mgr\<lparr>sm_ss := ss\<rparr>)))" using dist by simp
    show "?m (se_key e) = Some (app_map (se_apps e))" if "e \<in> set (sm_ss (mgr\<lparr>sm_ss := ss\<rparr>))" for e
    proof -
      from that set obtain x where x: "x \<in> set (sm_ss mgr)" "e = ?w x" by auto
      have "pair_key (key_driver (se_key x)) (key_group (se_key x)) = se_key x" by simp
      then show ?thesis using x free [OF x(1)] subs_elem [OF d x(1)] by (auto simp: with_driver_def)
    qed
    show "?m k = None" if "k \<notin> se_key ` set (sm_ss (mgr\<lparr>sm_ss := ss\<rparr>))" for k
    proof (rule ccontr)
      assume m: "?m k \<noteq> None"
      let ?k = "if key_driver k = new then k\<lparr>key_driver := d\<rparr> else k"
      have "?k \<in> se_key ` set (sm_ss mgr)" using m subs_dom [of mgr ?k] by (auto split: if_splits)
      then obtain x where x: "x \<in> set (sm_ss mgr)" "se_key x = ?k" by auto
      then have "se_key (?w x) = k" using m new(2) by (auto simp: with_driver_def split: if_splits)
      then show False using that x(1) set by auto
    qed
  qed
  ultimately show ?thesis using ss(1) by (simp add: neu_subscribe_manager_update_driver_name_def)
qed

lemma group_refines:
  assumes inv: "sub_inv mgr" and ok: "fits d" "fits g" "fits new" and free: "new = g \<or> subs mgr (pair_key d new) = None"
  shows "\<exists>rc mgr'. neu_subscribe_manager_update_group_name mgr d g new = Some (rc, mgr') \<and> sub_inv mgr' \<and>
    (rc, subs mgr') = sub_spec mem (Rename_group d g new) (subs mgr)"
  using inv
proof (cases rule: find_cases [where k = "pair_key d g"])
  case none
  then show ?thesis using inv ok by (simp add: neu_subscribe_manager_update_group_name_def)
next
  case (some el)
  let ?el = "el\<lparr>se_key := (se_key el)\<lparr>key_group := new\<rparr>\<rparr>"
  have key: "se_key ?el = pair_key d new" using some(3) by simp
  have d: "distinct (map se_key (sm_ss mgr))" "distinct (sm_ss mgr)" using inv by (simp_all add: sub_inv_def distinct_map)
  have rest: "x \<in> set (remove1 el (sm_ss mgr)) \<longleftrightarrow> x \<in> set (sm_ss mgr) \<and> se_key x \<noteq> pair_key d g" for x
    using d(2) sub_elem_unique [OF d(1) _ some(2)] some(3) by auto
  have new: "\<forall>x \<in> set (remove1 el (sm_ss mgr)). se_key x \<noteq> pair_key d new"
    using free subs_dom [of mgr "pair_key d new"] unfolding rest Ball_def by (auto simp: image_iff eq_commute [of "pair_key d new"])
  let ?m = "mgr\<lparr>sm_ss := remove1 el (sm_ss mgr) @ [?el]\<rparr>"
  have dist: "distinct (map se_key (remove1 el (sm_ss mgr)))" using d by (auto simp: distinct_map inj_on_def)
  moreover have "pair_key d new \<notin> se_key ` set (remove1 el (sm_ss mgr))" using new by (auto simp del: set_remove1_eq)
  ultimately have "distinct (map se_key (sm_ss ?m))" using key by simp
  moreover have "elem_inv x" if "x \<in> set (sm_ss ?m)" for x
    using that rest inv some(5) ok by (auto simp: sub_inv_def elem_inv_def simp del: set_remove1_eq)
  ultimately have inv': "sub_inv ?m" by (simp add: sub_inv_def)
  have "subs ?m = rename_in (pair_key d g) (pair_key d new) (subs mgr)"
  proof (rule subs_eqI)
    show "distinct (map se_key (sm_ss ?m))" using inv' by (simp add: sub_inv_def)
    show "rename_in (pair_key d g) (pair_key d new) (subs mgr) (se_key e) = Some (app_map (se_apps e))"
      if "e \<in> set (sm_ss ?m)" for e
      using that new rest [of e] subs_elem [OF d(1), of e] some(4) key by (auto simp: rename_in_def simp del: set_remove1_eq)
    show "rename_in (pair_key d g) (pair_key d new) (subs mgr) k = None" if "k \<notin> se_key ` set (sm_ss ?m)" for k
      using that rest key subs_dom [of mgr k] by (auto simp: rename_in_def image_iff simp del: set_remove1_eq)
  qed
  then show ?thesis using some inv' ok
    by (simp add: neu_subscribe_manager_update_group_name_def ulist_del_def ulist_add_def)
qed

lemma sub_step_refines:
  assumes inv: "sub_inv mgr" and ok: "sub_ok op (subs mgr)"
  shows "\<exists>rc mgr'. sub_step mem op mgr = Some (rc, mgr') \<and> sub_inv mgr' \<and> (rc, subs mgr') = sub_spec mem op (subs mgr)"
proof (cases op)
  case (Sub d a g p s addr)
  then show ?thesis using sub_refines [OF inv, of d a g mem p s addr] ok by simp
next
  case (Update_params a d g p s)
  then show ?thesis using params_refines [OF inv, of d a g mem p s] ok by simp
next
  case (Unsub d a g)
  then show ?thesis using unsub_refines [OF inv, of d a g] ok by simp
next
  case (Unsub_all a)
  then show ?thesis using unsub_all_refines [OF inv, of a mem] by simp
next
  case (Remove d grp)
  then show ?thesis using remove_refines [OF inv, of d grp mem] by simp
next
  case (Rename_app a new)
  then show ?thesis using update_app_refines [OF inv, of new a mem] ok by auto
next
  case (Rename_driver d new)
  then show ?thesis using driver_refines [OF inv, of new d mem] ok by simp
next
  case (Rename_group d g new)
  then show ?thesis using group_refines [OF inv, of d g new mem] ok by simp
qed

text \<open>Sequences of operations, each with the state of the memory at its time.\<close>

fun sub_run :: "((nat \<Rightarrow> bool) \<times> 'a sub_op) list \<Rightarrow> 'a neu_subscribe_mgr \<Rightarrow> (neu_err list \<times> 'a neu_subscribe_mgr) option" where
  "sub_run [] mgr = Some ([], mgr)"
| "sub_run ((mem, op) # ops) mgr =
     (case sub_step mem op mgr of
        None \<Rightarrow> None
      | Some (rc, mgr) \<Rightarrow> map_option (\<lambda>(rcs, mgr). (rc # rcs, mgr)) (sub_run ops mgr))"

fun sub_spec_run :: "((nat \<Rightarrow> bool) \<times> 'a sub_op) list \<Rightarrow> 'a sub_map \<Rightarrow> neu_err list \<times> 'a sub_map" where
  "sub_spec_run [] m = ([], m)"
| "sub_spec_run ((mem, op) # ops) m =
     (let (rc, m) = sub_spec mem op m; (rcs, m) = sub_spec_run ops m in (rc # rcs, m))"

fun sub_run_ok :: "((nat \<Rightarrow> bool) \<times> 'a sub_op) list \<Rightarrow> 'a sub_map \<Rightarrow> bool" where
  "sub_run_ok [] m \<longleftrightarrow> True"
| "sub_run_ok ((mem, op) # ops) m \<longleftrightarrow> sub_ok op m \<and> sub_run_ok ops (snd (sub_spec mem op m))"

lemma sub_run_refines:
  assumes "sub_inv mgr" and "sub_run_ok ops (subs mgr)"
  shows "\<exists>mgr'. sub_run ops mgr = Some (fst (sub_spec_run ops (subs mgr)), mgr') \<and> sub_inv mgr' \<and>
    subs mgr' = snd (sub_spec_run ops (subs mgr))"
  using assms
proof (induction ops arbitrary: mgr)
  case (Cons x ops)
  obtain mem op where x: "x = (mem, op)" by (cases x)
  have ok: "sub_ok op (subs mgr)" "sub_run_ok ops (snd (sub_spec mem op (subs mgr)))" using Cons.prems(2) x by simp_all
  from sub_step_refines [OF Cons.prems(1) ok(1), of mem] obtain rc mgr' where
    s: "sub_step mem op mgr = Some (rc, mgr')" "sub_inv mgr'" "sub_spec mem op (subs mgr) = (rc, subs mgr')" by metis
  from Cons.IH [OF s(2)] ok(2) s(1,3) show ?case by (auto simp: x split: prod.split)
qed simp

text \<open>
  C2: The registry of subscriptions behaves as a map from driver and group to the applications
  and their parameters: any sequence of subscribing, unsubscribing, removing, changing of
  parameters and renaming of applications, drivers and groups returns, with the codes of the
  specification, and what is found for a driver and a group afterwards is what the
  specification holds. The operations are those a caller is allowed: names fit their arrays
  and nothing is renamed to a name in use.
\<close>

theorem subscribe_refines:
  assumes "sub_run_ok ops Map.empty"
  shows "\<exists>mgr. sub_run ops neu_subscribe_manager_create = Some (fst (sub_spec_run ops Map.empty), mgr) \<and>
    (\<forall>d g. fits d \<and> fits g \<longrightarrow>
      map_option app_map (neu_subscribe_manager_find mgr d g) = snd (sub_spec_run ops Map.empty) (pair_key d g))"
proof -
  have new: "sub_inv (neu_subscribe_manager_create :: 'a neu_subscribe_mgr)"
    "subs (neu_subscribe_manager_create :: 'a neu_subscribe_mgr) = Map.empty"
    by (simp_all add: neu_subscribe_manager_create_def sub_inv_def subs_def)
  obtain mgr where "sub_run ops neu_subscribe_manager_create = Some (fst (sub_spec_run ops Map.empty), mgr)"
    "sub_inv mgr" "subs mgr = snd (sub_spec_run ops Map.empty)"
    using sub_run_refines [OF new(1), of ops] assms unfolding new(2) by blast
  then show ?thesis using find_is_subs [of mgr] by simp
qed

section \<open>When renaming a driver returns\<close>

lemma rename_loop_one:
  assumes "\<forall>x \<in> set xs. \<not> of_driver driver x" and "of_driver driver el"
  shows "rename_driver_loop driver new front (xs @ [el]) \<noteq> None"
  using assms(1)
proof (induction xs arbitrary: front)
  case Nil
  then show ?case using assms(2) by (subst rename_driver_loop.simps) (simp add: Let_def)
next
  case (Cons x xs)
  then show ?case by (subst append_Cons, subst rename_driver_loop.simps) simp
qed

lemma rename_loop_pass:
  assumes "\<forall>x \<in> set xs. \<not> of_driver driver x"
  shows "rename_driver_loop driver new front (xs @ ys) = rename_driver_loop driver new (front @ xs) ys"
  using assms
proof (induction xs arbitrary: front)
  case (Cons x xs)
  have "rename_driver_loop driver new front ((x # xs) @ ys) = rename_driver_loop driver new (front @ [x]) (xs @ ys)"
    using Cons.prems by (subst append_Cons, subst rename_driver_loop.simps) simp
  then show ?case using Cons by simp
qed simp

lemma rename_loop_diverges:
  assumes "rename_driver_loop driver new front rest = Some ss"
  shows "strncpy_to NEU_NODE_NAME_LEN new = driver \<longrightarrow> length (filter (of_driver driver) rest) < 2"
proof (rule rename_driver_loop.raw_induct [OF _ assms])
  fix loop driver new front and rest :: "'a sub_elem list" and ss
  assume IH: "\<And>driver new front (rest :: 'a sub_elem list) ss. loop driver new front rest = Some ss \<Longrightarrow>
      strncpy_to NEU_NODE_NAME_LEN new = driver \<longrightarrow> length (filter (of_driver driver) rest) < 2"
    and body: "(case rest of [] \<Rightarrow> Some front
      | el # after \<Rightarrow>
          if driver = key_driver (se_key el)
          then let el = el\<lparr>se_key := (se_key el)\<lparr>key_driver := strncpy_to NEU_NODE_NAME_LEN new\<rparr>\<rparr>
               in if after = [] then Some (front @ [el]) else loop driver new front (after @ [el])
          else loop driver new (front @ [el]) after) = Some ss"
  show "strncpy_to NEU_NODE_NAME_LEN new = driver \<longrightarrow> length (filter (of_driver driver) rest) < 2"
  proof (cases rest)
    case (Cons el after)
    let ?el = "el\<lparr>se_key := (se_key el)\<lparr>key_driver := strncpy_to NEU_NODE_NAME_LEN new\<rparr>\<rparr>"
    consider "after = []" | "driver = key_driver (se_key el)" "loop driver new front (after @ [?el]) = Some ss"
      | "driver \<noteq> key_driver (se_key el)" "loop driver new (front @ [el]) after = Some ss"
      using body Cons by (auto simp: Let_def split: if_splits)
    then show ?thesis
    proof cases
      case 2
      then show ?thesis using IH [OF 2(2)] Cons by simp
    next
      case 3
      then show ?thesis using IH [OF 3(2)] Cons by simp
    qed (use Cons in simp)
  qed simp
qed

text \<open>
  C29: Renaming a driver returns, unless it is given its own name and at least two groups of
  the driver were ever subscribed; then it never does: the loop takes the elements off the table and appends them again without end.
\<close>

theorem rename_driver_returns_iff:
  "neu_subscribe_manager_update_driver_name mgr driver new = None \<longleftrightarrow>
    strncpy_to NEU_NODE_NAME_LEN new = driver \<and> 2 \<le> length (filter (of_driver driver) (sm_ss mgr))"
proof -
  have "rename_driver_loop driver new [] (sm_ss mgr) \<noteq> None"
    if one: "length (filter (of_driver driver) (sm_ss mgr)) \<le> 1" "strncpy_to NEU_NODE_NAME_LEN new = driver"
  proof (cases "filter (of_driver driver) (sm_ss mgr)")
    case Nil
    then have "rename_driver_loop driver new [] (sm_ss mgr @ []) = rename_driver_loop driver new ([] @ sm_ss mgr) []"
      by (intro rename_loop_pass) (simp add: filter_empty_conv)
    also have "\<dots> = Some (sm_ss mgr)" by (subst rename_driver_loop.simps) simp
    finally show ?thesis by simp
  next
    case (Cons el rest)
    then have "filter (of_driver driver) (sm_ss mgr) = [el]" using one(1) by (cases rest) simp_all
    from filter_eq_ConsD [OF this] obtain us vs where split: "sm_ss mgr = us @ el # vs"
        "\<forall>x \<in> set us. \<not> of_driver driver x" "of_driver driver el" "[] = filter (of_driver driver) vs" by blast
    have vs: "\<forall>x \<in> set vs. \<not> of_driver driver x" using split(4) [symmetric] by (simp add: filter_empty_conv)
    let ?el = "el\<lparr>se_key := (se_key el)\<lparr>key_driver := strncpy_to NEU_NODE_NAME_LEN new\<rparr>\<rparr>"
    have "rename_driver_loop driver new [] (sm_ss mgr) =
        (if vs = [] then Some (us @ [?el]) else rename_driver_loop driver new us (vs @ [?el]))"
      unfolding split(1) rename_loop_pass [OF split(2)] using split(3)
      by (subst rename_driver_loop.simps) (simp add: Let_def)
    moreover have "rename_driver_loop driver new us (vs @ [?el]) \<noteq> None"
      by (rule rename_loop_one [OF vs]) (simp add: one(2))
    ultimately show ?thesis by simp
  qed
  moreover have "rename_driver_loop driver new [] (sm_ss mgr) \<noteq> None" if "strncpy_to NEU_NODE_NAME_LEN new \<noteq> driver"
    using rename_loop_perm [OF that, of "[]" "sm_ss mgr"] by auto
  moreover have "length (filter (of_driver driver) (sm_ss mgr)) \<le> 1"
    if "rename_driver_loop driver new [] (sm_ss mgr) = Some ss" "strncpy_to NEU_NODE_NAME_LEN new = driver" for ss
    using rename_loop_diverges [OF that(1)] that(2) by simp
  ultimately have "rename_driver_loop driver new [] (sm_ss mgr) = None \<longleftrightarrow>
      strncpy_to NEU_NODE_NAME_LEN new = driver \<and> \<not> length (filter (of_driver driver) (sm_ss mgr)) \<le> 1"
    by blast
  then show ?thesis unfolding neu_subscribe_manager_update_driver_name_def by (simp add: not_le) linarith
qed

section \<open>Instances\<close>

theorem subscribe_refines_witness:
  "sub_run_ok [(\<lambda>i. True, Sub ''d'' ''a'' ''g'' None None ()), (\<lambda>i. True, Rename_driver ''d'' ''e'')] Map.empty \<and>
   (\<exists>mgr. sub_run [(\<lambda>i. True, Sub ''d'' ''a'' ''g'' None None ()), (\<lambda>i. True, Rename_driver ''d'' ''e'')]
       neu_subscribe_manager_create = Some ([0, 0], mgr))"
  using subscribe_refines [where ops = "[(\<lambda>i. True, Sub ''d'' ''a'' ''g'' None None ()), (\<lambda>i. True, Rename_driver ''d'' ''e'')]"]
  by (auto simp: NEU_NODE_NAME_LEN_def copies_def)

end
