(* ===== verification/Driver_Cache.thy ===== *)
theory Driver_Cache
  imports Datatag Uthash "HOL-Library.Monad_Syntax"
begin

unbundle bit_operations_syntax

text \<open>
  The cache of \<^verbatim>\<open>src/adapter/driver/cache.c\<close>, where a driver keeps the last value of every tag. Arrays
  and long strings are in allocated memory that the values point to, so the heap is explicit:
  a map from the address of a block to its bytes. Reading or freeing what is not allocated is
  \<open>None\<close>. The address a \<^verbatim>\<open>calloc\<close> returns is an argument. The comparison of floating point
  numbers up to a precision and the JSON library are a record of functions. The mutex makes
  every operation atomic.
\<close>

section \<open>Memory\<close>

type_synonym heap = "u64 \<rightharpoonup> bytes"

definition heap_free :: "u64 \<Rightarrow> heap \<Rightarrow> heap option" where
  "heap_free p h = (if p = 0 then Some h else if h p = None then None else Some (h(p := None)))"

definition heap_read :: "heap \<Rightarrow> u64 \<Rightarrow> nat \<Rightarrow> bytes option" where
  "heap_read h p n =
     (if n = 0 then Some []
      else case h p of None \<Rightarrow> None | Some b \<Rightarrow> if n \<le> length b then Some (take n b) else None)"

text \<open>The members of the value union that hold pointers.\<close>

definition arr_ptr :: "neu_value_u \<Rightarrow> u64" where
  "arr_ptr v = le_word (load_bytes 0 8 v)"

definition arr_length :: "neu_value_u \<Rightarrow> u32" where
  "arr_length v = le_word (load_bytes 8 4 v)"

definition set_arr :: "u64 \<Rightarrow> u32 \<Rightarrow> neu_value_u \<Rightarrow> neu_value_u" where
  "set_arr p n v = store_bytes 0 (le_bytes 8 p) (store_bytes 8 (le_bytes 4 n) v)"

definition ptr_type :: "neu_value_u \<Rightarrow> u32" where
  "ptr_type v = le_word (load_bytes 0 4 v)"

definition ptr_length :: "neu_value_u \<Rightarrow> u16" where
  "ptr_length v = le_word (load_bytes 4 2 v)"

definition ptr_ptr :: "neu_value_u \<Rightarrow> u64" where
  "ptr_ptr v = le_word (load_bytes 8 8 v)"

definition set_ptr :: "u32 \<Rightarrow> u16 \<Rightarrow> u64 \<Rightarrow> neu_value_u \<Rightarrow> neu_value_u" where
  "set_ptr t n p v = store_bytes 0 (le_bytes 4 t) (store_bytes 4 (le_bytes 2 n) (store_bytes 8 (le_bytes 8 p) v))"

definition bytes_length :: "neu_value_u \<Rightarrow> u8" where
  "bytes_length v = v ! NEU_VALUE_SIZE"

definition number_arrays :: "neu_type_e set" where
  "number_arrays =
     {NEU_TYPE_ARRAY_INT8, NEU_TYPE_ARRAY_UINT8, NEU_TYPE_ARRAY_INT16, NEU_TYPE_ARRAY_UINT16,
      NEU_TYPE_ARRAY_INT32, NEU_TYPE_ARRAY_UINT32, NEU_TYPE_ARRAY_INT64, NEU_TYPE_ARRAY_UINT64,
      NEU_TYPE_ARRAY_FLOAT, NEU_TYPE_ARRAY_DOUBLE, NEU_TYPE_ARRAY_BOOL}"

definition neu_dvalue_is_array :: "neu_dvalue \<Rightarrow> bool" where
  "neu_dvalue_is_array v \<longleftrightarrow>
     dv_type v \<in> number_arrays \<union> {NEU_TYPE_ARRAY_CHAR, NEU_TYPE_ARRAY_STRING, NEU_TYPE_CUSTOM}"

fun elem_size :: "neu_type_e \<Rightarrow> nat" where
  "elem_size NEU_TYPE_ARRAY_INT16 = 2" | "elem_size NEU_TYPE_ARRAY_UINT16 = 2"
| "elem_size NEU_TYPE_ARRAY_INT32 = 4" | "elem_size NEU_TYPE_ARRAY_UINT32 = 4"
| "elem_size NEU_TYPE_ARRAY_FLOAT = 4" | "elem_size NEU_TYPE_ARRAY_INT64 = 8"
| "elem_size NEU_TYPE_ARRAY_UINT64 = 8" | "elem_size NEU_TYPE_ARRAY_DOUBLE = 8"
| "elem_size NEU_TYPE_ARRAY_STRING = 8" | "elem_size _ = 1"

definition arr_size :: "neu_dvalue \<Rightarrow> nat" where
  "arr_size v = unat (arr_length (dv_value v)) * elem_size (dv_type v)"

text \<open>The strings of an array of strings: the words of the block of pointers.\<close>

fun str_ptrs :: "nat \<Rightarrow> bytes \<Rightarrow> u64 list" where
  "str_ptrs 0 b = []"
| "str_ptrs (Suc n) b = le_word (take 8 b) # str_ptrs n (drop 8 b)"

fun free_all :: "u64 list \<Rightarrow> heap \<Rightarrow> heap option" where
  "free_all [] h = Some h"
| "free_all (p # ps) h = Option.bind (heap_free p h) (free_all ps)"

definition free_strs :: "neu_value_u \<Rightarrow> heap \<Rightarrow> heap option" where
  "free_strs v h =
     do { b \<leftarrow> heap_read h (arr_ptr v) (unat (arr_length v) * 8);
          h \<leftarrow> free_all (str_ptrs (unat (arr_length v)) b) h;
          heap_free (arr_ptr v) h }"

definition neu_free_dvalue :: "neu_dvalue \<Rightarrow> heap \<Rightarrow> heap option" where
  "neu_free_dvalue v h =
     (if dv_type v \<in> number_arrays then heap_free (arr_ptr (dv_value v)) h
      else if dv_type v = NEU_TYPE_ARRAY_STRING
      then (if arr_ptr (dv_value v) \<noteq> 0 then free_strs (dv_value v) h else Some h)
      else Some h)"

section \<open>The cache\<close>

record neu_tag_meta =
  me_name :: string
  me_value :: neu_dvalue

record tkey =
  tk_group :: string
  tk_tag :: string

record elem =
  el_timestamp :: u64
  el_changed :: bool
  el_value :: neu_dvalue
  el_value_old :: neu_dvalue
  el_metas :: "neu_tag_meta list option"
  el_key :: tkey

record group_trace =
  gt_key :: string
  gt_trace_ctx :: u64

record neu_driver_cache =
  dc_heap :: heap
  dc_trace_table :: "group_trace list"
  dc_table :: "elem list"

record neu_driver_cache_value =
  cv_value :: neu_dvalue
  cv_timestamp :: u64

definition to_key :: "string \<Rightarrow> string \<Rightarrow> tkey" where
  "to_key grp tag =
     \<lparr>tk_group = strncpy_to (NEU_GROUP_NAME_LEN - 1) grp, tk_tag = strncpy_to (NEU_TAG_NAME_LEN - 1) tag\<rparr>"

definition neu_driver_cache_new :: "heap \<Rightarrow> neu_driver_cache" where
  "neu_driver_cache_new h = \<lparr>dc_heap = h, dc_trace_table = [], dc_table = []\<rparr>"

definition zero_dvalue :: neu_dvalue where
  "zero_dvalue = typed_value NEU_TYPE_INT8 zero_value"

definition set_cache_elem :: "elem \<Rightarrow> neu_driver_cache \<Rightarrow> neu_driver_cache" where
  "set_cache_elem e cache =
     cache\<lparr>dc_table := map (\<lambda>x. if el_key x = el_key e then e else x) (dc_table cache)\<rparr>"

definition neu_driver_cache_add :: "neu_driver_cache \<Rightarrow> string \<Rightarrow> string \<Rightarrow> neu_dvalue \<Rightarrow> neu_driver_cache" where
  "neu_driver_cache_add cache grp tag value =
     (let key = to_key grp tag;
          new = \<lparr>el_timestamp = 0, el_changed = False, el_value = zero_dvalue, el_value_old = zero_dvalue,
                 el_metas = None, el_key = key\<rparr>;
          (cache, e) = (case ulist_find el_key (dc_table cache) key of
                          None \<Rightarrow> (cache\<lparr>dc_table := ulist_add new (dc_table cache)\<rparr>, new)
                        | Some e \<Rightarrow> (cache, e))
      in set_cache_elem (e\<lparr>el_timestamp := 0, el_changed := False, el_value := value,
           el_value_old := (el_value_old e)\<lparr>dv_attrs := zero_attrs\<rparr>\<rparr>) cache)"

definition neu_driver_cache_update_trace :: "neu_driver_cache \<Rightarrow> string \<Rightarrow> u64 \<Rightarrow> neu_driver_cache" where
  "neu_driver_cache_update_trace cache grp trace_ctx =
     (let key = strncpy_to (NEU_GROUP_NAME_LEN - 1) grp
      in case ulist_find gt_key (dc_trace_table cache) key of
           None \<Rightarrow> cache\<lparr>dc_trace_table := ulist_add \<lparr>gt_key = key, gt_trace_ctx = trace_ctx\<rparr> (dc_trace_table cache)\<rparr>
         | Some e \<Rightarrow> cache\<lparr>dc_trace_table :=
             map (\<lambda>x. if gt_key x = key then x\<lparr>gt_trace_ctx := trace_ctx\<rparr> else x) (dc_trace_table cache)\<rparr>)"

definition neu_driver_cache_get_trace :: "neu_driver_cache \<Rightarrow> string \<Rightarrow> u64" where
  "neu_driver_cache_get_trace cache grp =
     (case ulist_find gt_key (dc_trace_table cache) (strncpy_to (NEU_GROUP_NAME_LEN - 1) grp) of
        None \<Rightarrow> 0 | Some e \<Rightarrow> gt_trace_ctx e)"

section \<open>Detecting a change\<close>

record cache_ops =
  co_far32 :: "u8 \<Rightarrow> u32 \<Rightarrow> u32 \<Rightarrow> bool"
  co_far64 :: "u8 \<Rightarrow> u64 \<Rightarrow> u64 \<Rightarrow> bool"
  co_json_equal :: "u64 \<Rightarrow> u64 \<Rightarrow> bool"
  co_json_copy :: "u64 \<Rightarrow> u64"

text \<open>
  The operator \<^verbatim>\<open>!=\<close> on floating point numbers: a NaN differs from everything, the two zeros
  are equal.
\<close>

definition f32_ne :: "u32 \<Rightarrow> u32 \<Rightarrow> bool" where
  "f32_ne a b \<longleftrightarrow> a AND 0x7fffffff > 0x7f800000 \<or> b AND 0x7fffffff > 0x7f800000 \<or>
     (a \<noteq> b \<and> (a OR b) AND 0x7fffffff \<noteq> 0)"

definition f64_ne :: "u64 \<Rightarrow> u64 \<Rightarrow> bool" where
  "f64_ne a b \<longleftrightarrow> a AND 0x7fffffffffffffff > 0x7ff0000000000000 \<or> b AND 0x7fffffffffffffff > 0x7ff0000000000000 \<or>
     (a \<noteq> b \<and> (a OR b) AND 0x7fffffffffffffff \<noteq> 0)"

definition plain_types :: "neu_type_e set" where
  "plain_types =
     {NEU_TYPE_INT8, NEU_TYPE_UINT8, NEU_TYPE_INT16, NEU_TYPE_UINT16, NEU_TYPE_INT32, NEU_TYPE_UINT32,
      NEU_TYPE_INT64, NEU_TYPE_UINT64, NEU_TYPE_BIT, NEU_TYPE_BOOL, NEU_TYPE_STRING, NEU_TYPE_TIME,
      NEU_TYPE_DATA_AND_TIME, NEU_TYPE_WORD, NEU_TYPE_DWORD, NEU_TYPE_LWORD, NEU_TYPE_ARRAY_CHAR}"

text \<open>
  The comparison of a value with a previous one, \<^verbatim>\<open>value\<close> or \<^verbatim>\<open>value_old\<close> of the element. The two
  switches differ only in what an error counts as.
\<close>

definition value_differs :: "cache_ops \<Rightarrow> heap \<Rightarrow> bool \<Rightarrow> neu_dvalue \<Rightarrow> neu_dvalue \<Rightarrow> bool option" where
  "value_differs ops h error_differs prev value =
     (let t = dv_type value; p = dv_value prev; v = dv_value value in
      if t \<in> plain_types then Some (p \<noteq> v)
      else if t = NEU_TYPE_BYTES
      then Some (bytes_length p \<noteq> bytes_length v \<or>
             take (unat (bytes_length v)) p \<noteq> take (unat (bytes_length v)) v)
      else if t \<in> number_arrays \<union> {NEU_TYPE_ARRAY_STRING}
      then (if arr_length p \<noteq> arr_length v then Some True
            else do { x \<leftarrow> heap_read h (arr_ptr p) (arr_size value);
                      y \<leftarrow> heap_read h (arr_ptr v) (arr_size value);
                      Some (x \<noteq> y) })
      else if t = NEU_TYPE_CUSTOM then Some (\<not> co_json_equal ops (arr_ptr p) (arr_ptr v))
      else if t = NEU_TYPE_PTR
      then (if ptr_length p \<noteq> ptr_length v then Some True
            else do { x \<leftarrow> heap_read h (ptr_ptr p) (unat (ptr_length v));
                      y \<leftarrow> heap_read h (ptr_ptr v) (unat (ptr_length v));
                      Some (x \<noteq> y) })
      else if t = NEU_TYPE_FLOAT
      then Some (if dv_precision prev = 0 then f32_ne (value_u32 p) (value_u32 v)
                 else co_far32 ops (dv_precision prev) (value_u32 p) (value_u32 v))
      else if t = NEU_TYPE_DOUBLE
      then Some (if dv_precision prev = 0 then f64_ne (value_u64 p) (value_u64 v)
                 else co_far64 ops (dv_precision prev) (value_u64 p) (value_u64 v))
      else Some error_differs)"

definition quality_differs :: "neu_tag_sample_attrs \<Rightarrow> neu_tag_sample_attrs \<Rightarrow> bool" where
  "quality_differs prev attrs \<longleftrightarrow>
     sa_has_quality prev \<noteq> sa_has_quality attrs \<or> (sa_has_quality attrs \<and> sa_quality prev \<noteq> sa_quality attrs)"

text \<open>The memory an element holds is freed when the element or the type of its value goes away.\<close>

definition release :: "neu_dvalue \<Rightarrow> heap \<Rightarrow> heap option" where
  "release old h =
     (let t = dv_type old; v = dv_value old in
      if t = NEU_TYPE_PTR then heap_free (ptr_ptr v) h
      else if t = NEU_TYPE_ARRAY_STRING then free_strs v h
      else if t \<in> number_arrays then heap_free (arr_ptr v) h
      else Some h)"

text \<open>The value is taken over by the element, which gives up what it owned before.\<close>

definition store_value :: "u64 \<Rightarrow> heap \<Rightarrow> neu_dvalue \<Rightarrow> neu_dvalue \<Rightarrow> (heap \<times> neu_dvalue) option" where
  "store_value new h old value =
     (let o_t = dv_type old; o_v = dv_value old; t = dv_type value; v = dv_value value;
          set = (\<lambda>x. old\<lparr>dv_value := x, dv_type := t\<rparr>)
      in if t = NEU_TYPE_PTR
         then do { h \<leftarrow> heap_free (ptr_ptr o_v) h;
                   b \<leftarrow> heap_read h (ptr_ptr v) (unat (ptr_length v));
                   Some (h(new \<mapsto> b), set (set_ptr (ptr_type v) (ptr_length v) new o_v)) }
         else if t = NEU_TYPE_CUSTOM then Some (h, set (store_bytes 0 (le_bytes 8 (arr_ptr v)) o_v))
         else if t = NEU_TYPE_ARRAY_STRING
         then do { h \<leftarrow> (if o_t = NEU_TYPE_ARRAY_STRING then free_strs o_v h else Some h);
                   Some (h, set (set_arr (arr_ptr v) (arr_length v) o_v)) }
         else if t \<in> number_arrays
         then do { h \<leftarrow> (if o_t \<in> number_arrays then heap_free (arr_ptr o_v) h else Some h);
                   Some (h, set (set_arr (arr_ptr v) (arr_length v) o_v)) }
         else if t = NEU_TYPE_ERROR then do { h \<leftarrow> release old h; Some (h, set v) }
         else Some (h, set v))"

text \<open>Metadata: arrays are freed and replaced by a zero of type \<^verbatim>\<open>INT8\<close>.\<close>

fun store_metas :: "neu_tag_meta list \<Rightarrow> heap \<Rightarrow> (heap \<times> neu_tag_meta list) option" where
  "store_metas [] h = Some (h, [])"
| "store_metas (m # ms) h =
     do { (h, m) \<leftarrow> (if neu_dvalue_is_array (me_value m)
                    then map_option (\<lambda>h. (h, \<lparr>me_name = '''', me_value = zero_dvalue\<rparr>)) (neu_free_dvalue (me_value m) h)
                    else Some (h, m));
          (h, ms) \<leftarrow> store_metas ms h;
          Some (h, m # ms) }"

definition neu_driver_cache_update_change :: "bool \<Rightarrow> cache_ops \<Rightarrow> u64 \<Rightarrow> neu_driver_cache \<Rightarrow> string \<Rightarrow> string \<Rightarrow>
    u64 \<Rightarrow> neu_dvalue \<Rightarrow> neu_tag_meta list \<Rightarrow> bool \<Rightarrow> (neu_driver_cache \<times> bool) option" where
  "neu_driver_cache_update_change sub_filter_err ops new cache grp tag timestamp value metas change =
     (let attrs = dv_attrs value;
          attrs = (if sa_has_timestamp attrs then attrs else attrs\<lparr>sa_timestamp := 0\<rparr>);
          attrs = (if sa_has_quality attrs then attrs else attrs\<lparr>sa_quality := 0\<rparr>);
          value = value\<lparr>dv_attrs := attrs\<rparr>; h = dc_heap cache in
      case ulist_find el_key (dc_table cache) (to_key grp tag) of
        None \<Rightarrow> Some (cache, False)
      | Some e \<Rightarrow>
          let error = (sub_filter_err \<and> dv_type value = NEU_TYPE_ERROR);
              from_error = (sub_filter_err \<and> dv_type (el_value e) = NEU_TYPE_ERROR);
              e = e\<lparr>el_timestamp := timestamp\<rparr> in
          do { differs \<leftarrow> (if error then Some False
                          else if dv_type (el_value e) = dv_type value then value_differs ops h True (el_value e) value
                          else if from_error then value_differs ops h False (el_value_old e) value
                          else Some True);
               let tag_changed = (if error then False
                 else differs \<or> quality_differs
                   (if from_error then dv_attrs (el_value_old e) else dv_attrs (el_value e)) attrs);
               let e = e\<lparr>el_changed := el_changed e \<or> tag_changed\<rparr>;
               let e = (if sub_filter_err \<and> dv_type value \<noteq> NEU_TYPE_ERROR then e\<lparr>el_value_old := value\<rparr> else e);
               let e = e\<lparr>el_value := (el_value e)\<lparr>dv_attrs := attrs\<rparr>, el_changed := el_changed e \<or> change\<rparr>;
               (h, v) \<leftarrow> store_value new h (el_value e) value;
               let e = e\<lparr>el_value := v\<rparr>;
               (h, e) \<leftarrow> (if metas = [] then Some (h, e)
                         else map_option (\<lambda>(h, ms). (h, e\<lparr>el_metas := Some ms\<rparr>)) (store_metas metas h));
               Some (set_cache_elem e (cache\<lparr>dc_heap := h\<rparr>), tag_changed) })"

definition neu_driver_cache_update :: "bool \<Rightarrow> cache_ops \<Rightarrow> u64 \<Rightarrow> neu_driver_cache \<Rightarrow> string \<Rightarrow> string \<Rightarrow>
    u64 \<Rightarrow> neu_dvalue \<Rightarrow> neu_tag_meta list \<Rightarrow> neu_driver_cache option" where
  "neu_driver_cache_update sub_filter_err ops new cache grp tag timestamp value metas =
     map_option fst (neu_driver_cache_update_change sub_filter_err ops new cache grp tag timestamp value metas False)"

section \<open>Reading and removing\<close>

text \<open>\<^verbatim>\<open>strdup\<close> of a string in memory.\<close>

definition heap_strdup :: "u64 \<Rightarrow> heap \<Rightarrow> u64 \<Rightarrow> heap option" where
  "heap_strdup new h p =
     (case h p of None \<Rightarrow> None
      | Some b \<Rightarrow> if 0 \<in> set b then Some (h(new \<mapsto> takeWhile (\<lambda>c. c \<noteq> 0) b @ [0])) else None)"

fun dup_strs :: "(nat \<Rightarrow> u64) \<Rightarrow> nat \<Rightarrow> u64 list \<Rightarrow> heap \<Rightarrow> heap option" where
  "dup_strs news i [] h = Some h"
| "dup_strs news i (p # ps) h = Option.bind (heap_strdup (news i) h p) (dup_strs news (Suc i) ps)"

fun scalar_size :: "neu_type_e \<Rightarrow> nat" where
  "scalar_size NEU_TYPE_INT8 = 1" | "scalar_size NEU_TYPE_UINT8 = 1" | "scalar_size NEU_TYPE_BIT = 1"
| "scalar_size NEU_TYPE_INT16 = 2" | "scalar_size NEU_TYPE_UINT16 = 2" | "scalar_size NEU_TYPE_WORD = 2"
| "scalar_size NEU_TYPE_INT32 = 4" | "scalar_size NEU_TYPE_UINT32 = 4" | "scalar_size NEU_TYPE_DWORD = 4"
| "scalar_size NEU_TYPE_FLOAT = 4" | "scalar_size NEU_TYPE_ERROR = 4"
| "scalar_size NEU_TYPE_INT64 = 8" | "scalar_size NEU_TYPE_UINT64 = 8" | "scalar_size NEU_TYPE_DOUBLE = 8"
| "scalar_size NEU_TYPE_LWORD = 8" | "scalar_size NEU_TYPE_BOOL = 1"
| "scalar_size NEU_TYPE_STRING = NEU_VALUE_SIZE" | "scalar_size NEU_TYPE_TIME = NEU_VALUE_SIZE"
| "scalar_size NEU_TYPE_DATA_AND_TIME = NEU_VALUE_SIZE" | "scalar_size NEU_TYPE_ARRAY_CHAR = NEU_VALUE_SIZE"
| "scalar_size _ = 0"

text \<open>
  The copy of a value into the union of the caller: the switch over the type. Allocated
  memory is copied to new blocks, at the addresses \<open>news 0\<close>, \<open>news 1\<close>, \<dots>
\<close>

definition copy_value :: "cache_ops \<Rightarrow> (nat \<Rightarrow> u64) \<Rightarrow> heap \<Rightarrow> neu_dvalue \<Rightarrow> neu_value_u \<Rightarrow> (heap \<times> neu_value_u) option" where
  "copy_value ops news h src out =
     (let t = dv_type src; v = dv_value src in
      if t = NEU_TYPE_BYTES
      then Some (h, store_bytes 0 (take (unat (bytes_length v)) v) (store_bytes NEU_VALUE_SIZE [bytes_length v] out))
      else if t \<in> number_arrays
      then do { b \<leftarrow> heap_read h (arr_ptr v) (arr_size src);
                Some (h(news 0 \<mapsto> b), set_arr (news 0) (arr_length v) out) }
      else if t = NEU_TYPE_ARRAY_STRING
      then do { let n = unat (arr_length v);
                b \<leftarrow> heap_read h (arr_ptr v) (n * 8);
                h \<leftarrow> dup_strs news 1 (str_ptrs n b) h;
                Some (h(news 0 \<mapsto> concat (map (\<lambda>i. le_bytes 8 (news (Suc i))) [0..<n])), set_arr (news 0) (arr_length v) out) }
      else if t = NEU_TYPE_PTR
      then do { b \<leftarrow> heap_read h (ptr_ptr v) (unat (ptr_length v));
                Some (h(news 0 \<mapsto> b), set_ptr (ptr_type v) (ptr_length v) (news 0) out) }
      else if t = NEU_TYPE_CUSTOM then Some (h, store_bytes 0 (le_bytes 8 (co_json_copy ops (arr_ptr v))) out)
      else Some (h, store_bytes 0 (take (scalar_size t) v) out))"

text \<open>What both functions hand out of an element.\<close>

definition get_elem :: "cache_ops \<Rightarrow> (nat \<Rightarrow> u64) \<Rightarrow> heap \<Rightarrow> elem \<Rightarrow> neu_driver_cache_value \<Rightarrow>
    (heap \<times> neu_driver_cache_value \<times> neu_tag_meta list option) option" where
  "get_elem ops news h e out =
     do { (h, v) \<leftarrow> copy_value ops news h (el_value e) (dv_value (cv_value out));
          Some (h, \<lparr>cv_value = (el_value e)\<lparr>dv_value := v\<rparr>, cv_timestamp = el_timestamp e\<rparr>, el_metas e) }"

text \<open>The inner \<open>None\<close> is the result \<^verbatim>\<open>-1\<close>.\<close>

definition neu_driver_cache_meta_get :: "cache_ops \<Rightarrow> (nat \<Rightarrow> u64) \<Rightarrow> neu_driver_cache \<Rightarrow> string \<Rightarrow> string \<Rightarrow>
    neu_driver_cache_value \<Rightarrow> (neu_driver_cache \<times> (neu_driver_cache_value \<times> neu_tag_meta list option) option) option" where
  "neu_driver_cache_meta_get ops news cache grp tag out =
     (case ulist_find el_key (dc_table cache) (to_key grp tag) of
        None \<Rightarrow> Some (cache, None)
      | Some e \<Rightarrow> do { (h, r) \<leftarrow> get_elem ops news (dc_heap cache) e out;
                      Some (cache\<lparr>dc_heap := h\<rparr>, Some r) })"

definition neu_driver_cache_meta_get_changed :: "cache_ops \<Rightarrow> (nat \<Rightarrow> u64) \<Rightarrow> neu_driver_cache \<Rightarrow> string \<Rightarrow> string \<Rightarrow>
    neu_driver_cache_value \<Rightarrow> (neu_driver_cache \<times> (neu_driver_cache_value \<times> neu_tag_meta list option) option) option" where
  "neu_driver_cache_meta_get_changed ops news cache grp tag out =
     (case ulist_find el_key (dc_table cache) (to_key grp tag) of
        None \<Rightarrow> Some (cache, None)
      | Some e \<Rightarrow>
          if \<not> el_changed e then Some (cache, None)
          else do { (h, r) \<leftarrow> get_elem ops news (dc_heap cache) e out;
                    let e = (if dv_type (el_value e) \<noteq> NEU_TYPE_ERROR then e\<lparr>el_changed := False\<rparr> else e);
                    Some (set_cache_elem e (cache\<lparr>dc_heap := h\<rparr>), Some r) })"

fun free_metas :: "neu_tag_meta list \<Rightarrow> heap \<Rightarrow> heap option" where
  "free_metas [] h = Some h"
| "free_metas (m # ms) h = Option.bind (neu_free_dvalue (me_value m) h) (free_metas ms)"

definition free_elem :: "elem \<Rightarrow> heap \<Rightarrow> heap option" where
  "free_elem e h =
     do { h \<leftarrow> release (el_value e) h;
          (case el_metas e of None \<Rightarrow> Some h | Some ms \<Rightarrow> free_metas ms h) }"

definition neu_driver_cache_del :: "neu_driver_cache \<Rightarrow> string \<Rightarrow> string \<Rightarrow> neu_driver_cache option" where
  "neu_driver_cache_del cache grp tag =
     (case ulist_find el_key (dc_table cache) (to_key grp tag) of
        None \<Rightarrow> Some cache
      | Some e \<Rightarrow> do { table \<leftarrow> ulist_del e (dc_table cache);
                      h \<leftarrow> free_elem e (dc_heap cache);
                      Some (cache\<lparr>dc_table := table, dc_heap := h\<rparr>) })"

definition neu_driver_cache_rename :: "neu_driver_cache \<Rightarrow> string \<Rightarrow> string \<Rightarrow> string \<Rightarrow> neu_driver_cache option" where
  "neu_driver_cache_rename cache grp old_tag new_tag =
     (case ulist_find el_key (dc_table cache) (to_key grp old_tag) of
        None \<Rightarrow> Some cache
      | Some e \<Rightarrow> do { table \<leftarrow> ulist_del e (dc_table cache);
                      Some (cache\<lparr>dc_table := ulist_add (e\<lparr>el_key := to_key grp new_tag\<rparr>) table\<rparr>) })"

fun destroy_elems :: "elem list \<Rightarrow> heap \<Rightarrow> heap option" where
  "destroy_elems [] h = Some h"
| "destroy_elems (e # es) h = Option.bind (free_elem e h) (destroy_elems es)"

definition neu_driver_cache_destroy :: "neu_driver_cache \<Rightarrow> heap option" where
  "neu_driver_cache_destroy cache = destroy_elems (dc_table cache) (dc_heap cache)"

section \<open>Ownership\<close>

lemma not_number_arrays [simp]:
  "NEU_TYPE_PTR \<notin> number_arrays" "NEU_TYPE_ARRAY_STRING \<notin> number_arrays" "NEU_TYPE_ERROR \<notin> number_arrays"
  "NEU_TYPE_CUSTOM \<notin> number_arrays" "NEU_TYPE_BYTES \<notin> number_arrays"
  by (simp_all add: number_arrays_def)

text \<open>The blocks a value keeps alive, and when a value may be read and given up.\<close>

definition strs_of :: "heap \<Rightarrow> neu_value_u \<Rightarrow> u64 list" where
  "strs_of h v = str_ptrs (unat (arr_length v)) (the (heap_read h (arr_ptr v) (unat (arr_length v) * 8)))"

definition owned :: "heap \<Rightarrow> neu_dvalue \<Rightarrow> u64 list" where
  "owned h v =
     (let x = dv_value v in
      filter (\<lambda>p. p \<noteq> 0)
       (if dv_type v = NEU_TYPE_PTR then [ptr_ptr x]
        else if dv_type v \<in> number_arrays then [arr_ptr x]
        else if dv_type v = NEU_TYPE_ARRAY_STRING then strs_of h x @ [arr_ptr x]
        else []))"

definition readable :: "heap \<Rightarrow> neu_dvalue \<Rightarrow> bool" where
  "readable h v \<longleftrightarrow>
     (let x = dv_value v in
      (dv_type v = NEU_TYPE_PTR \<longrightarrow> heap_read h (ptr_ptr x) (unat (ptr_length x)) \<noteq> None) \<and>
      (dv_type v \<in> number_arrays \<longrightarrow> heap_read h (arr_ptr x) (arr_size v) \<noteq> None) \<and>
      (dv_type v = NEU_TYPE_ARRAY_STRING \<longrightarrow>
         heap_read h (arr_ptr x) (unat (arr_length x) * 8) \<noteq> None \<and>
         (\<forall>p \<in> set (strs_of h x). \<exists>b. h p = Some b \<and> 0 \<in> set b)))"

definition value_ok :: "heap \<Rightarrow> neu_dvalue \<Rightarrow> bool" where
  "value_ok h v \<longleftrightarrow>
     length (dv_value v) = sizeof_value \<and> readable h v \<and> set (owned h v) \<subseteq> dom h \<and> distinct (owned h v) \<and>
     (dv_type v = NEU_TYPE_ERROR \<longrightarrow> ptr_ptr (dv_value v) = 0)"

lemma heap_read_cong: "h' p = h p \<Longrightarrow> heap_read h' p n = heap_read h p n"
  by (simp add: heap_read_def)

lemma heap_read_null: "h 0 = None \<Longrightarrow> heap_read h 0 n \<noteq> None \<longleftrightarrow> n = 0"
  by (simp add: heap_read_def)

lemma heap_read_cong_owned:
  assumes "p \<noteq> 0 \<Longrightarrow> h' p = h p" "h 0 = None" "h' 0 = None"
  shows "heap_read h' p n = heap_read h p n"
  using assms by (cases "p = 0") (simp_all add: heap_read_def)

text \<open>A value depends on the blocks it owns only.\<close>

lemma frame:
  assumes same: "\<And>p. p \<in> set (owned h v) \<Longrightarrow> h' p = h p" and null: "h 0 = None" "h' 0 = None"
  shows "owned h' v = owned h v" and "value_ok h v \<Longrightarrow> value_ok h' v"
proof -
  have arr: "heap_read h' (arr_ptr (dv_value v)) n = heap_read h (arr_ptr (dv_value v)) n"
    if "dv_type v \<in> insert NEU_TYPE_ARRAY_STRING number_arrays" for n
    using that by (intro heap_read_cong_owned null same) (auto simp: owned_def Let_def)
  have ptr: "heap_read h' (ptr_ptr (dv_value v)) n = heap_read h (ptr_ptr (dv_value v)) n" if "dv_type v = NEU_TYPE_PTR" for n
    using that by (intro heap_read_cong_owned null same) (auto simp: owned_def Let_def)
  have strs: "strs_of h' (dv_value v) = strs_of h (dv_value v)" if "dv_type v = NEU_TYPE_ARRAY_STRING"
    using that by (simp add: strs_of_def arr)
  show own: "owned h' v = owned h v" by (simp add: owned_def Let_def strs cong: if_cong)
  assume ok: "value_ok h v"
  have str: "h' p = h p" if "dv_type v = NEU_TYPE_ARRAY_STRING" "p \<in> set (strs_of h (dv_value v))" for p
    using that null by (cases "p = 0") (auto simp: owned_def Let_def intro!: same)
  have "readable h' v"
    using ok unfolding value_ok_def readable_def Let_def
    by (auto simp: arr ptr strs str)
  moreover have "set (owned h v) \<subseteq> dom h'"
  proof
    fix p assume p: "p \<in> set (owned h v)"
    then show "p \<in> dom h'" using ok same [OF p] by (auto simp: value_ok_def dom_def)
  qed
  ultimately show "value_ok h' v"
    using ok own unfolding value_ok_def by simp
qed

section \<open>Giving up and taking over memory\<close>

lemma free_all_restrict:
  assumes "distinct (filter (\<lambda>p. p \<noteq> 0) ps)" "set (filter (\<lambda>p. p \<noteq> 0) ps) \<subseteq> dom h" "h 0 = None"
  shows "free_all ps h = Some (h |` (- set ps))"
  using assms
proof (induction ps arbitrary: h)
  case Nil
  then show ?case by (simp add: restrict_map_def)
next
  case (Cons p ps)
  show ?case
  proof (cases "p = 0")
    case True
    then have "h |` (- set (p # ps)) = h |` (- set ps)"
      using Cons.prems(3) by (auto simp: restrict_map_def fun_eq_iff)
    then show ?thesis using True Cons by (simp add: heap_free_def)
  next
    case False
    have "free_all ps (h(p := None)) = Some (h(p := None) |` (- set ps))"
      using False Cons.prems by (intro Cons.IH) (auto simp: subset_iff)
    moreover have "h(p := None) |` (- set ps) = h |` (- set (p # ps))"
      by (auto simp: restrict_map_def fun_eq_iff)
    ultimately show ?thesis using False Cons.prems by (auto simp: heap_free_def)
  qed
qed

lemma heap_free_restrict:
  "(p \<noteq> 0 \<Longrightarrow> p \<in> dom h) \<Longrightarrow> h 0 = None \<Longrightarrow> heap_free p h = Some (h |` (- set (filter (\<lambda>p. p \<noteq> 0) [p])))"
  by (auto simp: heap_free_def restrict_map_def fun_eq_iff)

lemma restrict_nonnull: "h 0 = None \<Longrightarrow> h |` (- set (filter (\<lambda>p. p \<noteq> 0) ps)) = h |` (- set ps)"
  by (auto simp: restrict_map_def fun_eq_iff)

lemma free_strs_restrict:
  assumes t: "dv_type v = NEU_TYPE_ARRAY_STRING" and ok: "value_ok h v" and null: "h 0 = None"
  shows "free_strs (dv_value v) h = Some (h |` (- set (owned h v)))"
proof -
  let ?x = "dv_value v" and ?ps = "strs_of h (dv_value v)"
  obtain b where b: "heap_read h (arr_ptr ?x) (unat (arr_length ?x) * 8) = Some b"
    using ok t by (auto simp: value_ok_def readable_def Let_def)
  then have ps: "?ps = str_ptrs (unat (arr_length ?x)) b" by (simp add: strs_of_def)
  have own: "owned h v = filter (\<lambda>p. p \<noteq> 0) (?ps @ [arr_ptr ?x])" using t by (simp add: owned_def Let_def)
  have dist: "distinct (filter (\<lambda>p. p \<noteq> 0) (?ps @ [arr_ptr ?x]))" "set (filter (\<lambda>p. p \<noteq> 0) (?ps @ [arr_ptr ?x])) \<subseteq> dom h"
    using ok own by (auto simp: value_ok_def)
  have "free_all ?ps h = Some (h |` (- set ?ps))"
    using dist null by (intro free_all_restrict) auto
  moreover have "heap_free (arr_ptr ?x) (h |` (- set ?ps)) = Some (h |` (- set ?ps) |` (- set (filter (\<lambda>p. p \<noteq> 0) [arr_ptr ?x])))"
    using dist null by (intro heap_free_restrict) (auto simp: restrict_map_def)
  moreover have "h |` (- set ?ps) |` (- set (filter (\<lambda>p. p \<noteq> 0) [arr_ptr ?x])) = h |` (- set (owned h v))"
    using null unfolding own by (auto simp: restrict_map_def fun_eq_iff)
  ultimately show ?thesis by (simp add: free_strs_def b ps)
qed

lemma release_restrict:
  assumes ok: "value_ok h v" and null: "h 0 = None"
  shows "release v h = Some (h |` (- set (owned h v)))"
proof -
  consider "dv_type v = NEU_TYPE_PTR" | "dv_type v = NEU_TYPE_ARRAY_STRING" | "dv_type v \<in> number_arrays"
    | "dv_type v \<notin> {NEU_TYPE_PTR, NEU_TYPE_ARRAY_STRING} \<union> number_arrays" by blast
  then show ?thesis
  proof cases
    case 1
    then have own: "owned h v = filter (\<lambda>p. p \<noteq> 0) [ptr_ptr (dv_value v)]" by (simp add: owned_def Let_def)
    show ?thesis using 1 ok null heap_free_restrict [of "ptr_ptr (dv_value v)" h]
      unfolding own by (auto simp: release_def Let_def value_ok_def own)
  next
    case 2
    then show ?thesis using free_strs_restrict [OF 2 ok null] by (simp add: release_def Let_def)
  next
    case 3
    then have t: "dv_type v \<noteq> NEU_TYPE_PTR" "dv_type v \<noteq> NEU_TYPE_ARRAY_STRING" by auto
    then have own: "owned h v = filter (\<lambda>p. p \<noteq> 0) [arr_ptr (dv_value v)]" using 3 by (simp add: owned_def Let_def)
    show ?thesis using 3 t ok null heap_free_restrict [of "arr_ptr (dv_value v)" h]
      unfolding own by (auto simp: release_def Let_def value_ok_def own)
  next
    case 4
    then have "owned h v = []" by (simp add: owned_def Let_def)
    then show ?thesis using 4 by (simp add: release_def Let_def restrict_map_def)
  qed
qed

lemma arr_set_arr [simp]:
  assumes "length v = sizeof_value"
  shows "arr_ptr (set_arr p n v) = p" "arr_length (set_arr p n v) = n" "length (set_arr p n v) = sizeof_value"
  using assms by (simp_all add: arr_ptr_def arr_length_def set_arr_def byte_simps sizeof_value_def)

lemma ptr_set_ptr [simp]:
  assumes "length v = sizeof_value"
  shows "ptr_ptr (set_ptr t n p v) = p" "ptr_length (set_ptr t n p v) = n" "ptr_type (set_ptr t n p v) = t"
    "length (set_ptr t n p v) = sizeof_value"
  using assms by (simp_all add: ptr_ptr_def ptr_length_def ptr_type_def set_ptr_def byte_simps sizeof_value_def)

text \<open>What a value means, with the memory it points to. JSON documents are opaque.\<close>

definition content :: "heap \<Rightarrow> neu_dvalue \<Rightarrow> neu_type_e \<times> nat \<times> bytes list" where
  "content h v =
     (let t = dv_type v; x = dv_value v in
      if t = NEU_TYPE_PTR then (t, unat (ptr_type x), [the (heap_read h (ptr_ptr x) (unat (ptr_length x)))])
      else if t \<in> number_arrays then (t, unat (arr_length x), [the (heap_read h (arr_ptr x) (arr_size v))])
      else if t = NEU_TYPE_ARRAY_STRING
      then (t, unat (arr_length x), map (\<lambda>p. takeWhile (\<lambda>c. c \<noteq> 0) (the (h p))) (strs_of h x))
      else if t = NEU_TYPE_CUSTOM then (t, 0, [])
      else if t = NEU_TYPE_BYTES then (t, unat (bytes_length x), [take (unat (bytes_length x)) x])
      else (t, 0, [take (scalar_size t) x]))"

definition owns_memory :: "neu_type_e \<Rightarrow> bool" where
  "owns_memory t \<longleftrightarrow> t \<in> insert NEU_TYPE_PTR (insert NEU_TYPE_ARRAY_STRING number_arrays)"

lemma owned_none: "\<not> owns_memory (dv_type v) \<Longrightarrow> owned h v = []"
  by (auto simp: owns_memory_def owned_def Let_def)

lemma content_frame:
  assumes same: "\<And>p. p \<in> set (owned h v) \<Longrightarrow> h' p = h p" and null: "h 0 = None" "h' 0 = None"
  shows "content h' v = content h v"
proof -
  have arr: "heap_read h' (arr_ptr (dv_value v)) n = heap_read h (arr_ptr (dv_value v)) n"
    if "dv_type v \<in> insert NEU_TYPE_ARRAY_STRING number_arrays" for n
    using that by (intro heap_read_cong_owned null same) (auto simp: owned_def Let_def)
  have ptr: "heap_read h' (ptr_ptr (dv_value v)) n = heap_read h (ptr_ptr (dv_value v)) n" if "dv_type v = NEU_TYPE_PTR" for n
    using that by (intro heap_read_cong_owned null same) (auto simp: owned_def Let_def)
  have strs: "strs_of h' (dv_value v) = strs_of h (dv_value v)" if "dv_type v = NEU_TYPE_ARRAY_STRING"
    using that by (simp add: strs_of_def arr)
  have str: "h' p = h p" if "dv_type v = NEU_TYPE_ARRAY_STRING" "p \<in> set (strs_of h (dv_value v))" for p
    using that null by (cases "p = 0") (auto simp: owned_def Let_def intro!: same)
  show ?thesis by (auto simp: content_def Let_def arr ptr strs str)
qed

text \<open>Values that agree in the members of their type.\<close>

definition same_members :: "neu_dvalue \<Rightarrow> neu_dvalue \<Rightarrow> bool" where
  "same_members v w \<longleftrightarrow> dv_type v = dv_type w \<and> length (dv_value v) = sizeof_value \<and>
     (if dv_type w \<in> insert NEU_TYPE_ARRAY_STRING number_arrays
      then arr_ptr (dv_value v) = arr_ptr (dv_value w) \<and> arr_length (dv_value v) = arr_length (dv_value w)
      else if dv_type w = NEU_TYPE_CUSTOM then arr_ptr (dv_value v) = arr_ptr (dv_value w)
      else dv_value v = dv_value w)"

lemma same_members:
  assumes "same_members v w"
  shows "owned h v = owned h w" "value_ok h w \<Longrightarrow> value_ok h v" "content h v = content h w"
proof -
  consider "dv_type w \<in> insert NEU_TYPE_ARRAY_STRING number_arrays" | "dv_type w = NEU_TYPE_CUSTOM"
    | "dv_type w \<notin> insert NEU_TYPE_ARRAY_STRING number_arrays" "dv_type w \<noteq> NEU_TYPE_CUSTOM" by blast
  note kinds = this
  have size: "arr_size v = arr_size w" if "dv_type w \<in> insert NEU_TYPE_ARRAY_STRING number_arrays"
    using that assms by (simp add: arr_size_def same_members_def)
  have strs: "strs_of h (dv_value v) = strs_of h (dv_value w)" if "dv_type w \<in> insert NEU_TYPE_ARRAY_STRING number_arrays"
    using that assms by (simp add: strs_of_def same_members_def)
  show own: "owned h v = owned h w"
    using kinds assms strs by cases (auto simp: owned_def Let_def same_members_def)
  have rd: "readable h v = readable h w"
    using kinds assms strs size by cases (auto simp: readable_def Let_def same_members_def)
  show "value_ok h v" if "value_ok h w"
    using that assms own rd by (cases "dv_type w = NEU_TYPE_ERROR") (auto simp: value_ok_def same_members_def)
  show "content h v = content h w"
  proof (cases "dv_type w \<in> insert NEU_TYPE_ARRAY_STRING number_arrays")
    case True
    then have "dv_type w \<noteq> NEU_TYPE_PTR" by auto
    then show ?thesis using True assms strs size by (auto simp: content_def Let_def same_members_def)
  next
    case False
    then show ?thesis using assms by (auto simp: content_def Let_def same_members_def arr_size_def split: if_splits)
  qed
qed

definition compatible :: "neu_type_e \<Rightarrow> neu_type_e \<Rightarrow> bool" where
  "compatible t0 t \<longleftrightarrow> t0 = t \<or> t0 = NEU_TYPE_ERROR \<or> t = NEU_TYPE_ERROR"

lemma owned_error [simp]: "dv_type v = NEU_TYPE_ERROR \<Longrightarrow> owned h v = []"
  by (simp add: owned_def Let_def)

text \<open>What is taken over, when it is not a \<^verbatim>\<open>PTR\<close> value, which is copied.\<close>

lemma store_value_moves:
  assumes ok: "value_ok h old" "value_ok h value" and null: "h 0 = None"
    and comp: "compatible (dv_type old) (dv_type value)" and t: "dv_type value \<noteq> NEU_TYPE_PTR"
  shows "\<exists>v'. store_value new h old value = Some (h |` (- set (owned h old)), v') \<and> same_members v' value \<and>
    dv_attrs v' = dv_attrs old \<and> dv_precision v' = dv_precision old"
proof -
  let ?t = "dv_type value" and ?s = "dv_type old"
  have len: "length (dv_value old) = sizeof_value" "length (dv_value value) = sizeof_value"
    using ok by (simp_all add: value_ok_def)
  have free: "release old h = Some (h |` (- set (owned h old)))" using release_restrict ok(1) null by blast
  have none: "h |` (- set (owned h old)) = h" if "\<not> owns_memory ?s"
    using that by (simp add: owned_none restrict_map_def)
  consider "?t = NEU_TYPE_ERROR" | "?t \<in> number_arrays" | "?t = NEU_TYPE_ARRAY_STRING" | "?t = NEU_TYPE_CUSTOM"
    | "?t \<notin> {NEU_TYPE_ERROR, NEU_TYPE_ARRAY_STRING, NEU_TYPE_CUSTOM} \<union> number_arrays" by blast
  then show ?thesis
  proof cases
    case 1
    then show ?thesis using free len by (simp add: store_value_def Let_def same_members_def)
  next
    case 2
    then have "?s = ?t \<or> ?s = NEU_TYPE_ERROR" using comp by (auto simp: compatible_def)
    then show ?thesis
      using 2 t free len none by (auto simp: store_value_def Let_def same_members_def release_def owns_memory_def)
  next
    case 3
    then have "?s = ?t \<or> ?s = NEU_TYPE_ERROR" using comp by (auto simp: compatible_def)
    then show ?thesis
      using 3 free len none by (auto simp: store_value_def Let_def same_members_def release_def owns_memory_def)
  next
    case 4
    then have "\<not> owns_memory ?s" using comp by (auto simp: compatible_def owns_memory_def)
    moreover have "arr_ptr (store_bytes 0 (le_bytes 8 p) (dv_value old)) = p" for p
      using len by (simp add: arr_ptr_def byte_simps sizeof_value_def)
    ultimately show ?thesis
      using 4 none len by (simp add: store_value_def Let_def same_members_def sizeof_value_def)
  next
    case 5
    then have "\<not> owns_memory ?s" using t comp by (auto simp: compatible_def owns_memory_def)
    then show ?thesis using 5 none len t by (auto simp: store_value_def Let_def same_members_def)
  qed
qed

lemma store_value_copies:
  assumes ok: "value_ok h old" "value_ok h value" and null: "h 0 = None" and new: "new \<noteq> 0" "h new = None"
    and comp: "compatible (dv_type old) (dv_type value)" and t: "dv_type value = NEU_TYPE_PTR"
    and disj: "set (owned h old) \<inter> set (owned h value) = {}"
  shows "\<exists>b v'. store_value new h old value = Some ((h |` (- set (owned h old)))(new \<mapsto> b), v') \<and>
    dv_type v' = NEU_TYPE_PTR \<and> dv_value v' = set_ptr (ptr_type (dv_value value)) (ptr_length (dv_value value)) new (dv_value old) \<and>
    heap_read h (ptr_ptr (dv_value value)) (unat (ptr_length (dv_value value))) = Some b \<and>
    length b = unat (ptr_length (dv_value value)) \<and> dv_attrs v' = dv_attrs old \<and> dv_precision v' = dv_precision old"
proof -
  let ?h = "h |` (- set (owned h old))" and ?p = "ptr_ptr (dv_value value)" and ?n = "unat (ptr_length (dv_value value))"
  have own: "owned h value = filter (\<lambda>p. p \<noteq> 0) [?p]" using t by (simp add: owned_def Let_def)
  obtain b where b: "heap_read h ?p ?n = Some b" using ok(2) t by (auto simp: value_ok_def readable_def Let_def)
  have "heap_read ?h ?p ?n = heap_read h ?p ?n"
    using disj null unfolding own by (intro heap_read_cong_owned) (auto simp: restrict_map_def)
  moreover have "heap_free (ptr_ptr (dv_value old)) h = Some ?h"
  proof (cases "dv_type old = NEU_TYPE_PTR")
    case True
    then show ?thesis using release_restrict [OF ok(1) null] by (simp add: release_def Let_def)
  next
    case False
    then have err: "dv_type old = NEU_TYPE_ERROR" using comp t by (auto simp: compatible_def)
    then have "ptr_ptr (dv_value old) = 0" using ok(1) by (simp add: value_ok_def)
    then show ?thesis using err by (simp add: heap_free_def restrict_map_def)
  qed
  moreover have "length b = ?n" using b by (auto simp: heap_read_def split: if_splits option.splits)
  ultimately show ?thesis using t b by (simp add: store_value_def Let_def)
qed

lemma heap_read_new: "length b = n \<Longrightarrow> heap_read (h(p \<mapsto> b)) p n = Some b"
  by (auto simp: heap_read_def)

lemma store_value_ok:
  assumes ok: "value_ok h old" "value_ok h value" and null: "h 0 = None" and new: "new \<noteq> 0" "h new = None"
    and comp: "compatible (dv_type old) (dv_type value)" and disj: "set (owned h old) \<inter> set (owned h value) = {}"
  shows "\<exists>h' v'. store_value new h old value = Some (h', v') \<and> h' 0 = None \<and> value_ok h' v' \<and>
    content h' v' = content h value \<and> dv_type v' = dv_type value \<and> dv_attrs v' = dv_attrs old \<and>
    dv_precision v' = dv_precision old \<and>
    (\<forall>p. p \<notin> set (owned h old) \<longrightarrow> p \<noteq> new \<longrightarrow> h' p = h p) \<and>
    set (owned h' v') \<subseteq> insert new (set (owned h value))"
proof (cases "dv_type value = NEU_TYPE_PTR")
  case True
  let ?v = "dv_value value"
  obtain b v' where st: "store_value new h old value = Some ((h |` (- set (owned h old)))(new \<mapsto> b), v')"
      "dv_type v' = NEU_TYPE_PTR" "dv_value v' = set_ptr (ptr_type ?v) (ptr_length ?v) new (dv_value old)"
      "heap_read h (ptr_ptr ?v) (unat (ptr_length ?v)) = Some b" "length b = unat (ptr_length ?v)"
      "dv_attrs v' = dv_attrs old" "dv_precision v' = dv_precision old"
    using store_value_copies [OF ok null new comp True disj] by blast
  let ?h = "(h |` (- set (owned h old)))(new \<mapsto> b)"
  have len: "length (dv_value old) = sizeof_value" using ok(1) by (simp add: value_ok_def)
  have own: "owned ?h v' = [new]" using st(2,3) new(1) len by (simp add: owned_def Let_def)
  have read: "heap_read ?h new (unat (ptr_length ?v)) = Some b" using st(5) by (rule heap_read_new)
  have "value_ok ?h v'"
    using st(2,3) len own by (simp add: value_ok_def readable_def Let_def read del: fun_upd_apply)
  moreover have "content ?h v' = content h value"
    using st(2,3,4) len True by (simp add: content_def Let_def read del: fun_upd_apply)
  ultimately show ?thesis
    using st(1,2,6,7) own null new(1) True by (intro exI [of _ ?h] exI [of _ v']) (simp add: restrict_map_def)
next
  case False
  let ?h = "h |` (- set (owned h old))"
  obtain v' where st: "store_value new h old value = Some (?h, v')" "same_members v' value"
      "dv_attrs v' = dv_attrs old" "dv_precision v' = dv_precision old"
    using store_value_moves [OF ok null comp False] by blast
  have same: "?h p = h p" if "p \<in> set (owned h value)" for p using that disj by (auto simp: restrict_map_def)
  have null': "?h 0 = None" using null by (simp add: restrict_map_def)
  have "value_ok ?h v'" "owned ?h v' = owned h value" "content ?h v' = content h value"
    using same_members [OF st(2), of ?h] frame [where h = h and v = "value" and h' = ?h, OF same null null']
      content_frame [where h = h and v = "value" and h' = ?h, OF same null null'] ok(2) by simp_all
  then show ?thesis
    using st null' by (intro exI [of _ ?h] exI [of _ v']) (auto simp: same_members_def restrict_map_def)
qed

section \<open>Copying out\<close>

lemma length_str_ptrs [simp]: "length (str_ptrs n b) = n"
  by (induction n arbitrary: b) simp_all

lemma str_ptrs_concat: "str_ptrs n (concat (map (\<lambda>i. le_bytes 8 (f i)) [k..<k + n])) = map f [k..<k + n]"
proof (induction n arbitrary: k)
  case (Suc n)
  have "[k..<k + Suc n] = k # [Suc k..<Suc k + n]" by (simp add: upt_rec)
  then show ?case using Suc [of "Suc k"] by (simp add: byte_simps)
qed simp

text \<open>The addresses of the blocks a copy allocates.\<close>

definition blocks_needed :: "neu_dvalue \<Rightarrow> nat" where
  "blocks_needed v = (if dv_type v = NEU_TYPE_ARRAY_STRING then Suc (unat (arr_length (dv_value v))) else 1)"

definition fresh :: "nat \<Rightarrow> (nat \<Rightarrow> u64) \<Rightarrow> heap \<Rightarrow> bool" where
  "fresh n news h \<longleftrightarrow> inj_on news {..<n} \<and> (\<forall>i < n. news i \<noteq> 0 \<and> h (news i) = None)"

lemma dup_strs_ok:
  assumes "inj_on news {i..<i + length ps}" "\<And>j. i \<le> j \<Longrightarrow> j < i + length ps \<Longrightarrow> news j \<notin> dom h"
    "\<And>p. p \<in> set ps \<Longrightarrow> \<exists>b. h p = Some b \<and> 0 \<in> set b"
  shows "\<exists>h'. dup_strs news i ps h = Some h' \<and>
    (\<forall>j < length ps. h' (news (i + j)) = Some (takeWhile (\<lambda>c. c \<noteq> 0) (the (h (ps ! j))) @ [0])) \<and>
    (\<forall>p. p \<notin> news ` {i..<i + length ps} \<longrightarrow> h' p = h p)"
  using assms
proof (induction ps arbitrary: i h)
  case (Cons p ps)
  obtain b where b: "h p = Some b" "0 \<in> set b" using Cons.prems(3) [of p] by auto
  let ?s = "takeWhile (\<lambda>c. c \<noteq> 0) b @ [0]" let ?h = "h(news i \<mapsto> ?s)"
  have split: "{i..<i + length (p # ps)} = insert i {Suc i..<Suc i + length ps}" by auto
  have ne: "news i \<notin> news ` {Suc i..<Suc i + length ps}" and inj: "inj_on news {Suc i..<Suc i + length ps}"
    using Cons.prems(1) unfolding split by (auto simp: inj_on_insert)
  have old: "?h q = h q" if "q \<in> dom h" for q using that Cons.prems(2) [of i] by auto
  have "\<exists>h'. dup_strs news (Suc i) ps ?h = Some h' \<and>
      (\<forall>j < length ps. h' (news (Suc i + j)) = Some (takeWhile (\<lambda>c. c \<noteq> 0) (the (?h (ps ! j))) @ [0])) \<and>
      (\<forall>p. p \<notin> news ` {Suc i..<Suc i + length ps} \<longrightarrow> h' p = ?h p)"
  proof (rule Cons.IH [OF inj])
    show "news j \<notin> dom ?h" if "Suc i \<le> j" "j < Suc i + length ps" for j
    proof -
      have "news j \<noteq> news i" using that ne by (metis atLeastLessThan_iff imageI)
      then show ?thesis using that Cons.prems(2) [of j] by simp
    qed
    show "\<exists>b. ?h q = Some b \<and> 0 \<in> set b" if "q \<in> set ps" for q
      using that Cons.prems(3) [of q] old [of q] by auto
  qed
  then obtain h' where h': "dup_strs news (Suc i) ps ?h = Some h'"
      "\<And>j. j < length ps \<Longrightarrow> h' (news (Suc i + j)) = Some (takeWhile (\<lambda>c. c \<noteq> 0) (the (?h (ps ! j))) @ [0])"
      "\<And>p. p \<notin> news ` {Suc i..<Suc i + length ps} \<Longrightarrow> h' p = ?h p" by blast
  have "h' (news i) = Some ?s" using h'(3) [OF ne] by simp
  then have strs: "h' (news (i + j)) = Some (takeWhile (\<lambda>c. c \<noteq> 0) (the (h ((p # ps) ! j))) @ [0])" if "j < length (p # ps)" for j
  proof (cases j)
    case (Suc k)
    then have "ps ! k \<in> dom h" using that Cons.prems(3) [of "ps ! k"] by auto
    then show ?thesis using that Suc h'(2) [of k] old [of "ps ! k"] by (simp del: fun_upd_apply)
  qed (use b in simp)
  have "h' q = h q" if "q \<notin> news ` {i..<i + length (p # ps)}" for q
    using that h'(3) [of q] unfolding split by auto
  moreover have "dup_strs news i (p # ps) h = Some h'" using b h'(1) by (simp add: heap_strdup_def)
  ultimately show ?case using strs by blast
qed simp

lemma copy_strs_ok:
  assumes ok: "value_ok h v" and t: "dv_type v = NEU_TYPE_ARRAY_STRING" and null: "h 0 = None" and new: "fresh (blocks_needed v) news h"
    and len: "length out = sizeof_value"
  shows "\<exists>h' v'. copy_value ops news h v out = Some (h', v') \<and> h' 0 = None \<and> (\<forall>p \<in> dom h. h' p = h p) \<and>
    content h' (v\<lparr>dv_value := v'\<rparr>) = content h v"
proof -
  let ?x = "dv_value v" let ?n = "unat (arr_length ?x)" and ?ps = "strs_of h ?x"
  obtain b where b: "heap_read h (arr_ptr ?x) (?n * 8) = Some b"
    using ok t by (auto simp: value_ok_def readable_def Let_def)
  then have ps: "?ps = str_ptrs ?n b" by (simp add: strs_of_def)
  have inj: "inj_on news {..<Suc ?n}" and none: "\<And>i. i < Suc ?n \<Longrightarrow> h (news i) = None" "\<And>i. i < Suc ?n \<Longrightarrow> news i \<noteq> 0"
    using new t by (auto simp: fresh_def blocks_needed_def)
  have strs: "\<exists>b. h p = Some b \<and> 0 \<in> set b" if "p \<in> set ?ps" for p
    using that ok t by (auto simp: value_ok_def readable_def Let_def)
  have "\<exists>h'. dup_strs news 1 ?ps h = Some h' \<and>
      (\<forall>j < length ?ps. h' (news (1 + j)) = Some (takeWhile (\<lambda>c. c \<noteq> 0) (the (h (?ps ! j))) @ [0])) \<and>
      (\<forall>p. p \<notin> news ` {1..<1 + length ?ps} \<longrightarrow> h' p = h p)"
    by (rule dup_strs_ok) (use inj none strs in \<open>auto simp: strs_of_def intro: inj_on_subset\<close>)
  then obtain h1 where h1: "dup_strs news 1 ?ps h = Some h1"
      "\<And>j. j < ?n \<Longrightarrow> h1 (news (Suc j)) = Some (takeWhile (\<lambda>c. c \<noteq> 0) (the (h (?ps ! j))) @ [0])"
      "\<And>p. p \<notin> news ` {1..<1 + ?n} \<Longrightarrow> h1 p = h p"
    by (auto simp: strs_of_def)
  let ?blk = "concat (map (\<lambda>i. le_bytes 8 (news (Suc i))) [0..<?n])"
  let ?h = "h1(news 0 \<mapsto> ?blk)" and ?v = "set_arr (news 0) (arr_length ?x) out"
  have blk: "length ?blk = ?n * 8" by (simp add: length_concat comp_def sum_list_triv)
  have copy: "copy_value ops news h v out = Some (?h, ?v)"
    using t b h1(1) by (simp add: copy_value_def Let_def ps)
  have old: "?h p = h p" if "h p \<noteq> None \<or> p = 0" for p
  proof -
    have "p \<notin> news ` {..<Suc ?n}" using that none by auto
    then have "p \<notin> news ` {1..<1 + ?n}" "p \<noteq> news 0" by auto
    then show ?thesis using h1(3) [of p] by simp
  qed
  have sub: "strs_of ?h ?v = map (\<lambda>i. news (Suc i)) [0..<?n]"
    using str_ptrs_concat [of ?n "\<lambda>i. news (Suc i)" 0] heap_read_new [OF blk, of h1 "news 0"] len
    by (simp add: strs_of_def del: fun_upd_apply)
  have "takeWhile (\<lambda>c. c \<noteq> 0) (the (?h (news (Suc i)))) = takeWhile (\<lambda>c. c \<noteq> 0) (the (h (?ps ! i)))" if "i < ?n" for i
    using that h1(2) [of i] inj_onD [OF inj, of "Suc i" 0] by (auto simp: takeWhile_append takeWhile_eq_all_conv dest: set_takeWhileD)
  then have "map (\<lambda>p. takeWhile (\<lambda>c. c \<noteq> 0) (the (?h p))) (strs_of ?h ?v) =
      map (\<lambda>p. takeWhile (\<lambda>c. c \<noteq> 0) (the (h p))) ?ps"
    unfolding sub by (intro nth_equalityI) (simp_all add: ps del: fun_upd_apply)
  then have "content ?h (v\<lparr>dv_value := ?v\<rparr>) = content h v"
    using t len by (simp add: content_def Let_def del: fun_upd_apply)
  then show ?thesis using copy old [of 0] null old by (intro exI [of _ ?h] exI [of _ ?v]) (auto simp del: fun_upd_apply)
qed

lemma copy_block_ok:
  assumes len: "length b = n" and new: "fresh m news h" "0 < m" and null: "h 0 = None"
  shows "heap_read (h(news 0 \<mapsto> b)) (news 0) n = Some b" "(h(news 0 \<mapsto> b)) 0 = None" "\<forall>p \<in> dom h. (h(news 0 \<mapsto> b)) p = h p"
  using heap_read_new [OF len, of h "news 0"] new null by (auto simp: fresh_def)

lemma copy_value_ok:
  assumes ok: "value_ok h v" and null: "h 0 = None" and new: "fresh (blocks_needed v) news h" and len: "length out = sizeof_value"
  shows "\<exists>h' v'. copy_value ops news h v out = Some (h', v') \<and> h' 0 = None \<and> (\<forall>p \<in> dom h. h' p = h p) \<and>
    content h' (v\<lparr>dv_value := v'\<rparr>) = content h v"
proof -
  let ?x = "dv_value v"
  have pos: "0 < blocks_needed v" by (simp add: blocks_needed_def)
  consider "dv_type v = NEU_TYPE_ARRAY_STRING" | "dv_type v \<in> number_arrays" | "dv_type v = NEU_TYPE_PTR"
    | "\<not> owns_memory (dv_type v)" by (auto simp: owns_memory_def)
  then show ?thesis
  proof cases
    case 1
    then show ?thesis using copy_strs_ok [OF ok 1 null new len] by simp
  next
    case 2
    then obtain b where b: "heap_read h (arr_ptr ?x) (arr_size v) = Some b"
      using ok by (auto simp: value_ok_def readable_def Let_def)
    have "dv_type v \<notin> {NEU_TYPE_BYTES, NEU_TYPE_PTR}" using 2 by auto
    moreover have "length b = arr_size v" using b by (auto simp: heap_read_def split: if_splits option.splits)
    from copy_block_ok [OF this new pos null] have "heap_read (h(news 0 \<mapsto> b)) (news 0) (arr_size v) = Some b" "(h(news 0 \<mapsto> b)) 0 = None"
      "\<forall>p \<in> dom h. (h(news 0 \<mapsto> b)) p = h p" by blast+
    moreover have "arr_size (v\<lparr>dv_value := set_arr p (arr_length ?x) out\<rparr>) = arr_size v" for p
      using len by (simp add: arr_size_def)
    ultimately show ?thesis using 2 b len by (simp add: copy_value_def content_def Let_def del: fun_upd_apply)
  next
    case 3
    then obtain b where b: "heap_read h (ptr_ptr ?x) (unat (ptr_length ?x)) = Some b"
      using ok by (auto simp: value_ok_def readable_def Let_def)
    then have "length b = unat (ptr_length ?x)" by (auto simp: heap_read_def split: if_splits option.splits)
    from copy_block_ok [OF this new pos null] b len show ?thesis
      using 3 by (simp add: copy_value_def content_def Let_def del: fun_upd_apply)
  next
    case 4
    then have t: "dv_type v \<notin> number_arrays" "dv_type v \<noteq> NEU_TYPE_PTR" "dv_type v \<noteq> NEU_TYPE_ARRAY_STRING"
      by (auto simp: owns_memory_def)
    have x: "length ?x = 264" "length out = 264" using ok len by (simp_all add: value_ok_def sizeof_value_def)
    have n: "unat (bytes_length ?x) \<le> 255"
      using unsigned_less [of "bytes_length ?x", where 'a = nat] by simp
    have size: "scalar_size (dv_type v) \<le> 256" by (cases "dv_type v") (simp_all add: NEU_VALUE_SIZE_def)
    have le: "store_bytes 0 (take k ?x) out = take k ?x @ drop k out" if "k \<le> 264" for k
      using that x by (simp add: store_bytes_def)
    let ?o = "store_bytes 0 (take (unat (bytes_length ?x)) ?x) (store_bytes NEU_VALUE_SIZE [bytes_length ?x] out)"
    have "?o ! NEU_VALUE_SIZE = bytes_length ?x" "take (unat (bytes_length ?x)) ?o = take (unat (bytes_length ?x)) ?x"
      using x n by (simp_all add: store_bytes_def NEU_VALUE_SIZE_def nth_append)
    then show ?thesis
      using t x size null le [of "scalar_size (dv_type v)"]
      by (auto simp: copy_value_def content_def Let_def bytes_length_def)
  qed
qed

section \<open>The invariant of the cache\<close>

definition no_arrays :: "neu_tag_meta list \<Rightarrow> bool" where
  "no_arrays ms \<longleftrightarrow> list_all (\<lambda>m. \<not> neu_dvalue_is_array (me_value m)) ms"

definition elem_ok :: "heap \<Rightarrow> elem \<Rightarrow> bool" where
  "elem_ok h e \<longleftrightarrow> value_ok h (el_value e) \<and> (case el_metas e of None \<Rightarrow> True | Some ms \<Rightarrow> no_arrays ms)"

abbreviation elem_owned :: "heap \<Rightarrow> elem \<Rightarrow> u64 set" where
  "elem_owned h e \<equiv> set (owned h (el_value e))"

definition cache_inv :: "neu_driver_cache \<Rightarrow> bool" where
  "cache_inv c \<longleftrightarrow> dc_heap c 0 = None \<and> distinct (map el_key (dc_table c)) \<and>
     (\<forall>e \<in> set (dc_table c). elem_ok (dc_heap c) e) \<and>
     (\<forall>e \<in> set (dc_table c). \<forall>e' \<in> set (dc_table c). el_key e \<noteq> el_key e' \<longrightarrow>
        elem_owned (dc_heap c) e \<inter> elem_owned (dc_heap c) e' = {})"

lemma cache_invD:
  assumes "cache_inv c"
  shows "dc_heap c 0 = None" "distinct (map el_key (dc_table c))"
    "\<And>e. e \<in> set (dc_table c) \<Longrightarrow> elem_ok (dc_heap c) e"
    "\<And>e e'. e \<in> set (dc_table c) \<Longrightarrow> e' \<in> set (dc_table c) \<Longrightarrow> el_key e \<noteq> el_key e' \<Longrightarrow>
       elem_owned (dc_heap c) e \<inter> elem_owned (dc_heap c) e' = {}"
  using assms by (auto simp: cache_inv_def)

lemma cache_find:
  assumes "cache_inv c"
  shows "ulist_find el_key (dc_table c) k = Some e \<longleftrightarrow> e \<in> set (dc_table c) \<and> el_key e = k"
    "ulist_find el_key (dc_table c) k = None \<longleftrightarrow> k \<notin> el_key ` set (dc_table c)"
  using ulist.find_Some [of el_key "dc_table c" k e] ulist.find_None [of el_key "dc_table c" k] cache_invD(2) [OF assms]
  by (auto simp: image_iff)

lemma cache_found:
  assumes "cache_inv c" "ulist_find el_key (dc_table c) k = Some e"
  shows "e \<in> set (dc_table c)" "el_key e = k"
  using cache_find(1) [OF assms(1), of k e] assms(2) by auto

lemma elem_frame:
  assumes "\<And>p. p \<in> elem_owned h e \<Longrightarrow> h' p = h p" "h 0 = None" "h' 0 = None"
  shows "elem_owned h' e = elem_owned h e" "elem_ok h e \<Longrightarrow> elem_ok h' e"
  using frame [where h = h and v = "el_value e" and h' = h', OF assms] by (simp_all add: elem_ok_def)

lemma elem_owned_dom: "elem_ok h e \<Longrightarrow> elem_owned h e \<subseteq> dom h"
  by (simp add: elem_ok_def value_ok_def)

text \<open>The heap changes, but not the blocks of the cache.\<close>

lemma cache_inv_heap:
  assumes inv: "cache_inv c" and same: "\<And>e p. e \<in> set (dc_table c) \<Longrightarrow> p \<in> elem_owned (dc_heap c) e \<Longrightarrow> h' p = dc_heap c p"
    and null: "h' 0 = None"
  shows "cache_inv (c\<lparr>dc_heap := h'\<rparr>)"
proof -
  note I = cache_invD [OF inv]
  have "elem_owned h' e = elem_owned (dc_heap c) e" "elem_ok h' e" if "e \<in> set (dc_table c)" for e
    using elem_frame [where h = "dc_heap c" and e = e and h' = h'] same [OF that] I(1) I(3) [OF that] null by blast+
  then show ?thesis using I null by (simp add: cache_inv_def)
qed

text \<open>An element changes, and with it only the blocks it had and a new one.\<close>

lemma cache_inv_elem:
  assumes inv: "cache_inv c" and e: "e \<in> set (dc_table c)" and key: "el_key e' = el_key e"
    and e': "elem_ok h' e'" and null: "h' 0 = None"
    and same: "\<And>p. p \<notin> elem_owned (dc_heap c) e \<Longrightarrow> p \<notin> N \<Longrightarrow> h' p = dc_heap c p"
    and new: "N \<inter> dom (dc_heap c) = {}"
    and own: "elem_owned h' e' \<subseteq> N \<union> X"
    and disj: "\<And>f. f \<in> set (dc_table c) \<Longrightarrow> el_key f \<noteq> el_key e \<Longrightarrow> X \<inter> elem_owned (dc_heap c) f = {}"
  shows "cache_inv (set_cache_elem e' (c\<lparr>dc_heap := h'\<rparr>))"
proof -
  note I = cache_invD [OF inv]
  let ?upd = "\<lambda>x. if el_key x = el_key e' then e' else x"
  have keys: "map el_key (map ?upd (dc_table c)) = map el_key (dc_table c)" by simp
  have other: "elem_owned h' f = elem_owned (dc_heap c) f" "elem_ok h' f" "elem_owned h' e' \<inter> elem_owned h' f = {}"
    if f: "f \<in> set (dc_table c)" "el_key f \<noteq> el_key e" for f
  proof -
    have "h' p = dc_heap c p" if "p \<in> elem_owned (dc_heap c) f" for p
      using that f I(4) [OF f(1) e f(2)] elem_owned_dom [OF I(3) [OF f(1)]] new by (intro same) auto
    from elem_frame [where h = "dc_heap c" and e = f and h' = h', OF this I(1) null]
    show own_f: "elem_owned h' f = elem_owned (dc_heap c) f" "elem_ok h' f" using I(3) [OF f(1)] by simp_all
    have "N \<inter> elem_owned (dc_heap c) f = {}" using new elem_owned_dom [OF I(3) [OF f(1)]] by blast
    then show "elem_owned h' e' \<inter> elem_owned h' f = {}" using own disj [OF f] own_f(1) by blast
  qed
  have mem: "x = e' \<or> (x \<in> set (dc_table c) \<and> el_key x \<noteq> el_key e)" if "x \<in> set (map ?upd (dc_table c))" for x
    using that key by auto
  have "elem_ok h' x" if "x \<in> set (map ?upd (dc_table c))" for x
    using mem [OF that] e' other(2) by blast
  moreover have "elem_owned h' x \<inter> elem_owned h' y = {}"
    if "x \<in> set (map ?upd (dc_table c))" "y \<in> set (map ?upd (dc_table c))" "el_key x \<noteq> el_key y" for x y
    using mem [OF that(1)] mem [OF that(2)] that(3) other(1,3) I(4) by blast
  ultimately show ?thesis
    unfolding cache_inv_def set_cache_elem_def using null I(2) keys by (simp del: map_map)
qed

text \<open>Elements go away.\<close>

lemma cache_inv_subset:
  assumes inv: "cache_inv c" and sub: "set t \<subseteq> set (dc_table c)" "distinct (map el_key t)"
    and same: "\<And>e p. e \<in> set t \<Longrightarrow> p \<in> elem_owned (dc_heap c) e \<Longrightarrow> h' p = dc_heap c p"
    and null: "h' 0 = None"
  shows "cache_inv (c\<lparr>dc_table := t, dc_heap := h'\<rparr>)"
proof -
  have "cache_inv (c\<lparr>dc_table := t\<rparr>)"
    using cache_invD [OF inv] sub unfolding cache_inv_def by auto
  from cache_inv_heap [OF this, of h'] same null show ?thesis by simp
qed

lemma store_metas_no_arrays: "no_arrays ms \<Longrightarrow> store_metas ms h = Some (h, ms)"
  by (induction ms) (simp_all add: no_arrays_def)

lemma neu_free_dvalue_no_array: "\<not> neu_dvalue_is_array v \<Longrightarrow> neu_free_dvalue v h = Some h"
  by (auto simp: neu_dvalue_is_array_def neu_free_dvalue_def)

lemma free_metas_no_arrays: "no_arrays ms \<Longrightarrow> free_metas ms h = Some h"
  by (induction ms) (simp_all add: no_arrays_def neu_free_dvalue_no_array)

lemma value_differs_returns:
  assumes ok: "value_ok h prev" "value_ok h value" and t: "dv_type prev = dv_type value"
  shows "\<exists>d. value_differs ops h err prev value = Some d"
proof -
  have arr: "heap_read h (arr_ptr (dv_value prev)) (arr_size value) \<noteq> None" "heap_read h (arr_ptr (dv_value value)) (arr_size value) \<noteq> None"
    if "dv_type value \<in> insert NEU_TYPE_ARRAY_STRING number_arrays" "arr_length (dv_value prev) = arr_length (dv_value value)"
  proof -
    have "arr_size prev = arr_size value" using that(2) t by (simp add: arr_size_def)
    then show "heap_read h (arr_ptr (dv_value prev)) (arr_size value) \<noteq> None" "heap_read h (arr_ptr (dv_value value)) (arr_size value) \<noteq> None"
      using that ok t by (auto simp: value_ok_def readable_def Let_def arr_size_def)
  qed
  have ptr: "heap_read h (ptr_ptr (dv_value prev)) (unat (ptr_length (dv_value value))) \<noteq> None"
      "heap_read h (ptr_ptr (dv_value value)) (unat (ptr_length (dv_value value))) \<noteq> None"
    if "dv_type value = NEU_TYPE_PTR" "ptr_length (dv_value prev) = ptr_length (dv_value value)"
    using that ok t by (auto simp: value_ok_def readable_def Let_def)
  show ?thesis using arr ptr by (auto simp: value_differs_def Let_def)
qed

text \<open>The attributes as they are stored.\<close>

definition normal_attrs :: "neu_tag_sample_attrs \<Rightarrow> neu_tag_sample_attrs" where
  "normal_attrs a =
     a\<lparr>sa_timestamp := if sa_has_timestamp a then sa_timestamp a else 0,
       sa_quality := if sa_has_quality a then sa_quality a else 0\<rparr>"

lemma value_ok_attrs [simp]:
  "value_ok h (v\<lparr>dv_attrs := a\<rparr>) = value_ok h v" "owned h (v\<lparr>dv_attrs := a\<rparr>) = owned h v"
  "content h (v\<lparr>dv_attrs := a\<rparr>) = content h v"
  "value_differs ops h err (v\<lparr>dv_attrs := a\<rparr>) w = value_differs ops h err v w"
  "value_differs ops h err w (v\<lparr>dv_attrs := a\<rparr>) = value_differs ops h err w v"
  "arr_size (v\<lparr>dv_attrs := a\<rparr>) = arr_size v"
  by (simp_all add: value_ok_def readable_def owned_def content_def value_differs_def arr_size_def Let_def)

lemma store_value_attrs [simp]:
  "store_value new h old (v\<lparr>dv_attrs := a\<rparr>) = store_value new h old v"
  by (simp add: store_value_def Let_def)

text \<open>What an update may be given: the value's memory is not the cache's, and the type fits.\<close>

definition update_ok :: "neu_driver_cache \<Rightarrow> string \<Rightarrow> string \<Rightarrow> neu_dvalue \<Rightarrow> neu_tag_meta list \<Rightarrow> u64 \<Rightarrow> bool" where
  "update_ok c grp tag value metas new \<longleftrightarrow>
     value_ok (dc_heap c) value \<and> no_arrays metas \<and> new \<noteq> 0 \<and> dc_heap c new = None \<and>
     (\<forall>e \<in> set (dc_table c). elem_owned (dc_heap c) e \<inter> set (owned (dc_heap c) value) = {} \<and>
        (el_key e = to_key grp tag \<longrightarrow> compatible (dv_type (el_value e)) (dv_type value)))"

lemma update_change_unfold:
  assumes "ulist_find el_key (dc_table c) (to_key grp tag) = Some e"
  shows "neu_driver_cache_update_change False ops new c grp tag ts value metas change =
    do { differs \<leftarrow> (if dv_type (el_value e) = dv_type value then value_differs ops (dc_heap c) True (el_value e) value else Some True);
         let tag_changed = (differs \<or> quality_differs (dv_attrs (el_value e)) (normal_attrs (dv_attrs value)));
         (h, v) \<leftarrow> store_value new (dc_heap c) ((el_value e)\<lparr>dv_attrs := normal_attrs (dv_attrs value)\<rparr>) value;
         (h, ms) \<leftarrow> (if metas = [] then Some (h, el_metas e) else map_option (\<lambda>(h, ms). (h, Some ms)) (store_metas metas h));
         Some (set_cache_elem (e\<lparr>el_timestamp := ts, el_changed := el_changed e \<or> tag_changed \<or> change, el_value := v, el_metas := ms\<rparr>)
                 (c\<lparr>dc_heap := h\<rparr>), tag_changed) }"
proof -
  let ?a = "dv_attrs value"
  have attrs: "(let a = (if sa_has_timestamp ?a then ?a else ?a\<lparr>sa_timestamp := 0\<rparr>) in
      if sa_has_quality a then a else a\<lparr>sa_quality := 0\<rparr>) = normal_attrs ?a"
    by (simp add: normal_attrs_def Let_def)
  show ?thesis
    unfolding neu_driver_cache_update_change_def Let_def using attrs assms
    by (auto simp: Let_def case_prod_unfold map_option_case split: option.split intro!: bind_option_cong)
qed

end
