(* ===== verification/Cache_Safety.thy ===== *)
theory Cache_Safety
  imports Driver_Cache
begin

text \<open>
  The cache of a driver in use: every operation keeps the ownership of memory intact, values
  come back as they were stored, changes are reported once, and what goes wrong when errors
  are filtered.
\<close>

section \<open>Every operation keeps the invariant\<close>

lemma update_found:
  assumes inv: "cache_inv c" and ok: "update_ok c grp tag value metas new"
    and e: "ulist_find el_key (dc_table c) (to_key grp tag) = Some e"
  shows "\<exists>h' e' changed. neu_driver_cache_update_change False ops new c grp tag ts value metas change =
      Some (set_cache_elem e' (c\<lparr>dc_heap := h'\<rparr>), changed) \<and>
    cache_inv (set_cache_elem e' (c\<lparr>dc_heap := h'\<rparr>)) \<and> el_key e' = to_key grp tag \<and>
    content h' (el_value e') = content (dc_heap c) value \<and> el_timestamp e' = ts \<and>
    dv_attrs (el_value e') = normal_attrs (dv_attrs value) \<and> el_metas e' = (if metas = [] then el_metas e else Some metas)"
proof -
  note I = cache_invD [OF inv]
  let ?h = "dc_heap c" and ?old = "(el_value e)\<lparr>dv_attrs := normal_attrs (dv_attrs value)\<rparr>"
  have mem: "e \<in> set (dc_table c)" "el_key e = to_key grp tag" using cache_found [OF inv e] by auto
  have old: "value_ok ?h (el_value e)" "case el_metas e of None \<Rightarrow> True | Some ms \<Rightarrow> no_arrays ms"
    using I(3) [OF mem(1)] by (auto simp: elem_ok_def)
  have val: "value_ok ?h value" "no_arrays metas" "new \<noteq> 0" "?h new = None"
      "elem_owned ?h e \<inter> set (owned ?h value) = {}" "compatible (dv_type (el_value e)) (dv_type value)"
    using ok mem by (auto simp: update_ok_def)
  obtain d where d: "(if dv_type (el_value e) = dv_type value then value_differs ops ?h True (el_value e) value else Some True) = Some d"
    using value_differs_returns [OF old(1) val(1), of ops True] by (cases "dv_type (el_value e) = dv_type value") auto
  obtain h' v' where st: "store_value new ?h ?old value = Some (h', v')" "h' 0 = None" "value_ok h' v'"
      "content h' v' = content ?h value" "dv_attrs v' = normal_attrs (dv_attrs value)"
      "\<forall>p. p \<notin> elem_owned ?h e \<longrightarrow> p \<noteq> new \<longrightarrow> h' p = ?h p" "set (owned h' v') \<subseteq> insert new (set (owned ?h value))"
  proof -
    have "value_ok ?h ?old" "compatible (dv_type ?old) (dv_type value)" "set (owned ?h ?old) \<inter> set (owned ?h value) = {}"
      using old(1) val(5,6) by simp_all
    from store_value_ok [OF this(1) val(1) I(1) val(3,4) this(2,3)] show ?thesis using that by auto
  qed
  let ?ms = "if metas = [] then el_metas e else Some metas"
  let ?e = "e\<lparr>el_timestamp := ts, el_changed := el_changed e \<or> (d \<or> quality_differs (dv_attrs (el_value e)) (normal_attrs (dv_attrs value))) \<or> change,
      el_value := v', el_metas := ?ms\<rparr>"
  have upd: "neu_driver_cache_update_change False ops new c grp tag ts value metas change =
      Some (set_cache_elem ?e (c\<lparr>dc_heap := h'\<rparr>), d \<or> quality_differs (dv_attrs (el_value e)) (normal_attrs (dv_attrs value)))"
    unfolding update_change_unfold [OF e] using d st(1) store_metas_no_arrays [OF val(2), of h'] by (cases "metas = []") simp_all
  have eok: "elem_ok h' ?e" using st(3) old(2) val(2) by (simp add: elem_ok_def)
  have "cache_inv (set_cache_elem ?e (c\<lparr>dc_heap := h'\<rparr>))"
  proof (rule cache_inv_elem [where e = e and N = "{new}" and X = "set (owned ?h value)", OF inv mem(1) _ eok st(2)])
    show "elem_owned h' ?e \<subseteq> {new} \<union> set (owned ?h value)" using st(7) by simp
    show "set (owned ?h value) \<inter> elem_owned ?h f = {}" if "f \<in> set (dc_table c)" for f
      using that ok by (auto simp: update_ok_def)
    show "{new} \<inter> dom ?h = {}" using val(4) by auto
    show "h' p = ?h p" if "p \<notin> elem_owned ?h e" "p \<notin> {new}" for p using that st(6) by simp
  qed simp_all
  moreover have "el_key ?e = to_key grp tag" "el_value ?e = v'" "el_timestamp ?e = ts" "el_metas ?e = ?ms" using mem(2) by simp_all
  ultimately show ?thesis using upd st(4,5) by metis
qed

lemma get_elem_ok:
  assumes inv: "cache_inv c" and e: "e \<in> set (dc_table c)" and new: "fresh (blocks_needed (el_value e)) news (dc_heap c)"
    and len: "length (dv_value (cv_value out)) = sizeof_value"
  shows "\<exists>h' v'. get_elem ops news (dc_heap c) e out =
      Some (h', \<lparr>cv_value = (el_value e)\<lparr>dv_value := v'\<rparr>, cv_timestamp = el_timestamp e\<rparr>, el_metas e) \<and>
    cache_inv (c\<lparr>dc_heap := h'\<rparr>) \<and> content h' ((el_value e)\<lparr>dv_value := v'\<rparr>) = content (dc_heap c) (el_value e)"
proof -
  note I = cache_invD [OF inv]
  have "value_ok (dc_heap c) (el_value e)" using I(3) [OF e] by (simp add: elem_ok_def)
  from copy_value_ok [OF this I(1) new len, of ops] obtain h' v' where
    cp: "copy_value ops news (dc_heap c) (el_value e) (dv_value (cv_value out)) = Some (h', v')" "h' 0 = None"
      "\<forall>p \<in> dom (dc_heap c). h' p = dc_heap c p"
      "content h' ((el_value e)\<lparr>dv_value := v'\<rparr>) = content (dc_heap c) (el_value e)" by blast
  have "cache_inv (c\<lparr>dc_heap := h'\<rparr>)"
    using cp(2,3) elem_owned_dom [OF I(3)] by (intro cache_inv_heap [OF inv]) blast+
  then show ?thesis using cp(1,4) by (intro exI [of _ h'] exI [of _ v']) (simp add: get_elem_def)
qed

lemma free_elem_ok:
  assumes ok: "elem_ok h e" and null: "h 0 = None"
  shows "free_elem e h = Some (h |` (- elem_owned h e))"
  using ok release_restrict [of h "el_value e"] null free_metas_no_arrays
  by (auto simp: free_elem_def elem_ok_def split: option.splits)

lemma cache_del:
  assumes inv: "cache_inv c" and e: "ulist_find el_key (dc_table c) k = Some e"
  shows "\<exists>t. ulist_del e (dc_table c) = Some t \<and> distinct (map el_key t) \<and>
    set t = {x \<in> set (dc_table c). el_key x \<noteq> k}"
proof -
  have "keyed_table.well_keyed (\<lambda>xs. True) (map (\<lambda>x. (el_key x, x))) (dc_table c)"
    using cache_invD(2) [OF inv] by simp
  from ulist.find_del [OF this e] obtain t where t: "ulist_del e (dc_table c) = Some t"
      "keyed_table.well_keyed (\<lambda>xs. True) (map (\<lambda>x. (el_key x, x))) t"
      "map (\<lambda>x. (el_key x, x)) t = filter (\<lambda>x. snd x \<noteq> e) (map (\<lambda>x. (el_key x, x)) (dc_table c))" by blast
  have "map snd (map (\<lambda>x. (el_key x, x)) t) = map snd (filter (\<lambda>x. snd x \<noteq> e) (map (\<lambda>x. (el_key x, x)) (dc_table c)))"
    using t(3) by (rule arg_cong)
  then have tbl: "t = filter (\<lambda>x. x \<noteq> e) (dc_table c)" by (simp add: filter_map comp_def)
  have "e \<in> set (dc_table c)" "el_key e = k" using cache_found [OF inv e] by auto
  then have "x \<noteq> e \<longleftrightarrow> el_key x \<noteq> k" if "x \<in> set (dc_table c)" for x
    using that cache_invD(2) [OF inv] by (auto simp: distinct_map dest: inj_onD)
  then have "set t = {x \<in> set (dc_table c). el_key x \<noteq> k}" unfolding tbl by auto
  then show ?thesis using t(1,2) by simp
qed

lemma del_ok:
  assumes inv: "cache_inv c"
  shows "\<exists>c'. neu_driver_cache_del c grp tag = Some c' \<and> cache_inv c'"
proof (cases "ulist_find el_key (dc_table c) (to_key grp tag)")
  case None
  then show ?thesis using inv by (simp add: neu_driver_cache_del_def)
next
  case (Some e)
  note I = cache_invD [OF inv]
  obtain t where t: "ulist_del e (dc_table c) = Some t" "distinct (map el_key t)"
      "set t = {x \<in> set (dc_table c). el_key x \<noteq> to_key grp tag}" using cache_del [OF inv Some] by blast
  have e: "e \<in> set (dc_table c)" "el_key e = to_key grp tag" using cache_found [OF inv Some] by auto
  let ?h = "dc_heap c |` (- elem_owned (dc_heap c) e)"
  have free: "free_elem e (dc_heap c) = Some ?h" by (rule free_elem_ok [OF I(3) [OF e(1)] I(1)])
  have same: "?h p = dc_heap c p" if "f \<in> set t" "p \<in> elem_owned (dc_heap c) f" for f p
  proof -
    have "f \<in> set (dc_table c)" "el_key f \<noteq> to_key grp tag" using that(1) unfolding t(3) by simp_all
    then have "f \<in> set (dc_table c)" "el_key e \<noteq> el_key f" using e(2) by metis+
    from I(4) [OF e(1) this] that(2) have "p \<notin> elem_owned (dc_heap c) e" by blast
    then show ?thesis by (simp add: restrict_map_def)
  qed
  have "set t \<subseteq> set (dc_table c)" using t(3) by blast
  moreover have "?h 0 = None" using I(1) by (simp add: restrict_map_def)
  ultimately have "cache_inv (c\<lparr>dc_table := t, dc_heap := ?h\<rparr>)"
    using cache_inv_subset [where h' = ?h, OF inv _ t(2)] same by blast
  then show ?thesis using Some t(1) free by (simp add: neu_driver_cache_del_def)
qed

lemma rename_ok:
  assumes inv: "cache_inv c" and new: "to_key grp new_tag \<notin> el_key ` set (dc_table c)"
  shows "\<exists>c'. neu_driver_cache_rename c grp old_tag new_tag = Some c' \<and> cache_inv c'"
proof (cases "ulist_find el_key (dc_table c) (to_key grp old_tag)")
  case None
  then show ?thesis using inv by (simp add: neu_driver_cache_rename_def)
next
  case (Some e)
  note I = cache_invD [OF inv]
  obtain t where t: "ulist_del e (dc_table c) = Some t" "distinct (map el_key t)"
      "set t = {x \<in> set (dc_table c). el_key x \<noteq> to_key grp old_tag}" using cache_del [OF inv Some] by blast
  have e: "e \<in> set (dc_table c)" "el_key e = to_key grp old_tag" using cache_found [OF inv Some] by auto
  let ?e = "e\<lparr>el_key := to_key grp new_tag\<rparr>"
  have own: "elem_owned h ?e = elem_owned h e" "elem_ok h ?e = elem_ok h e" for h by (simp_all add: elem_ok_def)
  have t': "elem_owned (dc_heap c) e \<inter> elem_owned (dc_heap c) f = {}" "elem_ok (dc_heap c) f" "el_key f \<noteq> to_key grp new_tag"
    if "f \<in> set t" for f
  proof -
    have f: "f \<in> set (dc_table c)" "el_key f \<noteq> el_key e" using that t(3) e(2) by auto
    show "elem_owned (dc_heap c) e \<inter> elem_owned (dc_heap c) f = {}" using I(4) [OF e(1) f(1)] f(2) by simp
    show "elem_ok (dc_heap c) f" using I(3) f(1) by blast
    show "el_key f \<noteq> to_key grp new_tag" using f(1) new by (metis imageI)
  qed
  have "cache_inv (c\<lparr>dc_table := t\<rparr>)"
    using cache_inv_subset [OF inv _ t(2), of "dc_heap c"] t(3) I(1) by auto
  note T = cache_invD [OF this]
  have "cache_inv (c\<lparr>dc_table := t @ [?e]\<rparr>)"
    unfolding cache_inv_def using T t' own I(3) [OF e(1)] by (force simp: Int_commute)
  then show ?thesis using Some t(1) by (simp add: neu_driver_cache_rename_def ulist_add_def)
qed

lemma add_ok:
  assumes inv: "cache_inv c" and val: "value_ok (dc_heap c) value" "\<not> owns_memory (dv_type value)"
  shows "cache_inv (neu_driver_cache_add c grp tag value)"
proof -
  note I = cache_invD [OF inv]
  let ?set = "\<lambda>e. e\<lparr>el_timestamp := 0, el_changed := False, el_value := value,
      el_value_old := (el_value_old e)\<lparr>dv_attrs := zero_attrs\<rparr>\<rparr>"
  have set: "elem_owned h (?set e) = {}" for h e using val(2) by (simp add: owned_none)
  show ?thesis
  proof (cases "ulist_find el_key (dc_table c) (to_key grp tag)")
    case (Some e)
    then have e: "e \<in> set (dc_table c)" "el_key e = to_key grp tag" using cache_found [OF inv] by auto
    have ok: "elem_ok (dc_heap c) (?set e)" using I(3) [OF e(1)] val(1) by (simp add: elem_ok_def)
    have "cache_inv (set_cache_elem (?set e) (c\<lparr>dc_heap := dc_heap c\<rparr>))"
      by (rule cache_inv_elem [where e = e and N = "{}" and X = "{}", OF inv e(1) _ ok I(1)]) (use set in auto)
    then show ?thesis using Some by (simp add: neu_driver_cache_add_def)
  next
    case None
    then have k: "to_key grp tag \<notin> el_key ` set (dc_table c)" using cache_find(2) [OF inv] by blast
    let ?new = "\<lparr>el_timestamp = 0, el_changed = False, el_value = zero_dvalue, el_value_old = zero_dvalue,
                 el_metas = None, el_key = to_key grp tag\<rparr>"
    have tbl: "neu_driver_cache_add c grp tag value = c\<lparr>dc_table := dc_table c @ [?set ?new]\<rparr>"
    proof -
      have "map (\<lambda>x. if el_key x = to_key grp tag then y else x) (dc_table c) = dc_table c" for y
        using k by (intro map_idI) (auto simp: image_iff)
      then show ?thesis using None by (simp add: neu_driver_cache_add_def Let_def set_cache_elem_def ulist_add_def)
    qed
    show ?thesis unfolding tbl cache_inv_def
      using I k val set by (auto simp: elem_ok_def image_iff)
  qed
qed

section \<open>Runs of the cache\<close>

text \<open>
  The operations of the driver on its cache, without the filtering of errors; \<open>Env\<close> is
  whatever the rest of the program does to the heap in between.
\<close>

datatype cache_op =
    Cache_add string string neu_dvalue
  | Cache_update string string u64 neu_dvalue "neu_tag_meta list" bool u64
  | Cache_get string string "nat \<Rightarrow> u64" neu_driver_cache_value
  | Cache_get_changed string string "nat \<Rightarrow> u64" neu_driver_cache_value
  | Cache_del string string
  | Cache_rename string string string
  | Env heap

fun cache_step :: "cache_ops \<Rightarrow> cache_op \<Rightarrow> neu_driver_cache \<Rightarrow> neu_driver_cache option" where
  "cache_step ops (Cache_add g t v) c = Some (neu_driver_cache_add c g t v)"
| "cache_step ops (Cache_update g t ts v ms change new) c =
     map_option fst (neu_driver_cache_update_change False ops new c g t ts v ms change)"
| "cache_step ops (Cache_get g t news out) c = map_option fst (neu_driver_cache_meta_get ops news c g t out)"
| "cache_step ops (Cache_get_changed g t news out) c = map_option fst (neu_driver_cache_meta_get_changed ops news c g t out)"
| "cache_step ops (Cache_del g t) c = neu_driver_cache_del c g t"
| "cache_step ops (Cache_rename g t t') c = neu_driver_cache_rename c g t t'"
| "cache_step ops (Env h) c = Some (c\<lparr>dc_heap := h\<rparr>)"

text \<open>What the callers see to.\<close>

definition get_ok :: "neu_driver_cache \<Rightarrow> string \<Rightarrow> string \<Rightarrow> (nat \<Rightarrow> u64) \<Rightarrow> neu_driver_cache_value \<Rightarrow> bool" where
  "get_ok c grp tag news out \<longleftrightarrow> length (dv_value (cv_value out)) = sizeof_value \<and>
     (\<forall>e \<in> set (dc_table c). el_key e = to_key grp tag \<longrightarrow> fresh (blocks_needed (el_value e)) news (dc_heap c))"

fun cache_allowed :: "cache_op \<Rightarrow> neu_driver_cache \<Rightarrow> bool" where
  "cache_allowed (Cache_add g t v) c \<longleftrightarrow> value_ok (dc_heap c) v \<and> \<not> owns_memory (dv_type v)"
| "cache_allowed (Cache_update g t ts v ms change new) c \<longleftrightarrow> update_ok c g t v ms new"
| "cache_allowed (Cache_get g t news out) c \<longleftrightarrow>
     get_ok c g t news out"
| "cache_allowed (Cache_get_changed g t news out) c \<longleftrightarrow>
     get_ok c g t news out"
| "cache_allowed (Cache_del g t) c \<longleftrightarrow> True"
| "cache_allowed (Cache_rename g t t') c \<longleftrightarrow> to_key g t' \<notin> el_key ` set (dc_table c)"
| "cache_allowed (Env h) c \<longleftrightarrow> h 0 = None \<and> (\<forall>e \<in> set (dc_table c). \<forall>p \<in> elem_owned (dc_heap c) e. h p = dc_heap c p)"

inductive cache_reach :: "cache_ops \<Rightarrow> neu_driver_cache \<Rightarrow> bool" for ops where
  new: "h 0 = None \<Longrightarrow> cache_reach ops (neu_driver_cache_new h)"
| step: "cache_reach ops c \<Longrightarrow> cache_allowed op c \<Longrightarrow> cache_step ops op c = Some c' \<Longrightarrow> cache_reach ops c'"

lemma update_keeps:
  assumes inv: "cache_inv c" and ok: "update_ok c g t v ms new"
  shows "\<exists>c' b. neu_driver_cache_update_change False ops new c g t ts v ms change = Some (c', b) \<and> cache_inv c'"
proof (cases "ulist_find el_key (dc_table c) (to_key g t)")
  case None
  then show ?thesis using inv by (intro exI [of _ c] exI [of _ False]) (simp add: neu_driver_cache_update_change_def Let_def)
next
  case (Some e)
  from update_found [OF inv ok Some, of ops ts change] show ?thesis by blast
qed

lemma meta_get_keeps:
  assumes inv: "cache_inv c" and new: "get_ok c g t news out"
  shows "\<exists>c' r. neu_driver_cache_meta_get ops news c g t out = Some (c', r) \<and> cache_inv c'"
proof (cases "ulist_find el_key (dc_table c) (to_key g t)")
  case None
  then show ?thesis using inv by (simp add: neu_driver_cache_meta_get_def)
next
  case (Some e)
  note e = cache_found [OF inv Some]
  from get_elem_ok [OF inv e(1), of news out ops] show ?thesis
    using Some new e by (auto simp: neu_driver_cache_meta_get_def get_ok_def)
qed

lemma set_changed_inv:
  assumes inv: "cache_inv c" and e: "e \<in> set (dc_table c)"
  shows "cache_inv (set_cache_elem (e\<lparr>el_changed := b\<rparr>) c)"
proof -
  have "elem_ok (dc_heap c) (e\<lparr>el_changed := b\<rparr>)" using cache_invD(3) [OF inv e] by (simp add: elem_ok_def)
  then have "cache_inv (set_cache_elem (e\<lparr>el_changed := b\<rparr>) (c\<lparr>dc_heap := dc_heap c\<rparr>))"
    using cache_invD(1,4) [OF inv] e
    by (intro cache_inv_elem [where e = e and N = "{}" and X = "elem_owned (dc_heap c) e", OF inv e]) auto
  then show ?thesis by simp
qed

lemma set_same_inv: "cache_inv c \<Longrightarrow> e \<in> set (dc_table c) \<Longrightarrow> cache_inv (set_cache_elem e c)"
  using set_changed_inv [of c e "el_changed e"] by simp

lemma meta_get_changed_keeps:
  assumes inv: "cache_inv c" and new: "get_ok c g t news out"
  shows "\<exists>c' r. neu_driver_cache_meta_get_changed ops news c g t out = Some (c', r) \<and> cache_inv c'"
proof (cases "ulist_find el_key (dc_table c) (to_key g t)")
  case None
  then show ?thesis using inv by (simp add: neu_driver_cache_meta_get_changed_def)
next
  case (Some e)
  note e = cache_found(1) [OF inv Some] and key = cache_found(2) [OF inv Some]
  obtain h' r where g: "get_elem ops news (dc_heap c) e out = Some (h', r)" "cache_inv (c\<lparr>dc_heap := h'\<rparr>)"
    using get_elem_ok [OF inv e, of news out ops] new e key unfolding get_ok_def by blast
  have "cache_inv (set_cache_elem (e\<lparr>el_changed := False\<rparr>) (c\<lparr>dc_heap := h'\<rparr>))" "cache_inv (set_cache_elem e (c\<lparr>dc_heap := h'\<rparr>))"
    using set_changed_inv [OF g(2)] set_same_inv [OF g(2)] e by simp_all
  then show ?thesis using Some g(1) inv by (simp add: neu_driver_cache_meta_get_changed_def)
qed

lemma cache_step_keeps:
  assumes "cache_inv c" "cache_allowed op c"
  shows "\<exists>c'. cache_step ops op c = Some c' \<and> cache_inv c'"
proof (cases op)
  case (Cache_add g t v)
  then show ?thesis using assms add_ok by simp
next
  case (Cache_update g t ts v ms change new)
  then show ?thesis using assms update_keeps [of c g t v ms new ops ts change] by auto
next
  case (Cache_get g t news out)
  then show ?thesis using assms meta_get_keeps [of c g t news out ops] by auto
next
  case (Cache_get_changed g t news out)
  then show ?thesis using assms meta_get_changed_keeps [of c g t news out ops] by auto
next
  case (Cache_del g t)
  then show ?thesis using assms del_ok by simp
next
  case (Cache_rename g t t')
  then show ?thesis using assms rename_ok by simp
next
  case (Env h)
  then show ?thesis using assms cache_inv_heap [of c h] by simp
qed

lemma cache_reach_inv: "cache_reach ops c \<Longrightarrow> cache_inv c"
proof (induction rule: cache_reach.induct)
  case (new h)
  then show ?case by (simp add: cache_inv_def neu_driver_cache_new_def)
next
  case (step c op c')
  then show ?case using cache_step_keeps [of c op ops] by auto
qed

lemma destroy_elems_ok:
  assumes "h 0 = None" "distinct (map el_key es)" "\<And>e. e \<in> set es \<Longrightarrow> elem_ok h e"
    "\<And>e f. e \<in> set es \<Longrightarrow> f \<in> set es \<Longrightarrow> el_key e \<noteq> el_key f \<Longrightarrow> elem_owned h e \<inter> elem_owned h f = {}"
  shows "destroy_elems es h = Some (h |` (- (\<Union>e \<in> set es. elem_owned h e)))"
  using assms
proof (induction es arbitrary: h)
  case Nil
  then show ?case by (simp add: restrict_map_def)
next
  case (Cons e es)
  let ?h = "h |` (- elem_owned h e)"
  have null: "?h 0 = None" using Cons.prems(1) by (simp add: restrict_map_def)
  have free: "free_elem e h = Some ?h" using free_elem_ok [of h e] Cons.prems(1,3) by simp
  have f: "elem_owned ?h f = elem_owned h f" "elem_ok ?h f" if "f \<in> set es" for f
  proof -
    have "el_key e \<noteq> el_key f" using Cons.prems(2) that by (metis distinct.simps(2) imageI list.simps(9) list.set_map)
    then have "elem_owned h e \<inter> elem_owned h f = {}" using Cons.prems(4) that by simp
    then have "?h p = h p" if "p \<in> elem_owned h f" for p using that by (auto simp: restrict_map_def)
    from elem_frame [where h = h and e = f and h' = ?h, OF this Cons.prems(1) null]
    show "elem_owned ?h f = elem_owned h f" "elem_ok ?h f" using Cons.prems(3) [of f] that by simp_all
  qed
  have "destroy_elems es ?h = Some (?h |` (- (\<Union>f \<in> set es. elem_owned ?h f)))"
    using Cons.prems(2,4) f null by (intro Cons.IH) auto
  also have "\<dots> = Some (h |` (- (\<Union>f \<in> set (e # es). elem_owned h f)))"
    using f(1) by (simp add: restrict_restrict)
  finally show ?case using free by simp
qed


lemma found_set_cache_elem:
  assumes "cache_inv (set_cache_elem e c)" "el_key e \<in> el_key ` set (dc_table c)"
  shows "ulist_find el_key (dc_table (set_cache_elem e c)) (el_key e) = Some e"
  using assms(2) cache_find(1) [OF assms(1), of "el_key e" e] by (auto simp: set_cache_elem_def image_iff)


section \<open>Changes\<close>

definition same_sample :: "neu_dvalue \<Rightarrow> neu_dvalue \<Rightarrow> bool" where
  "same_sample p v \<longleftrightarrow> dv_type p = dv_type v \<and> dv_value p = dv_value v \<and>
     \<not> quality_differs (normal_attrs (dv_attrs p)) (normal_attrs (dv_attrs v))"

fun steady :: "neu_dvalue \<Rightarrow> neu_dvalue list \<Rightarrow> bool" where
  "steady p [] \<longleftrightarrow> True"
| "steady p (v # vs) \<longleftrightarrow> same_sample p v \<and> steady v vs"

fun updates :: "cache_ops \<Rightarrow> string \<Rightarrow> string \<Rightarrow> (u64 \<times> neu_dvalue) list \<Rightarrow> neu_driver_cache \<Rightarrow> neu_driver_cache option" where
  "updates ops grp tag [] c = Some c"
| "updates ops grp tag ((ts, v) # us) c =
     Option.bind (neu_driver_cache_update False ops 0 c grp tag ts v []) (updates ops grp tag us)"

lemma plain_typesD: "t \<in> plain_types \<Longrightarrow> t \<notin> number_arrays \<and> t \<noteq> NEU_TYPE_PTR \<and> t \<noteq> NEU_TYPE_CUSTOM \<and>
    t \<noteq> NEU_TYPE_ARRAY_STRING \<and> t \<noteq> NEU_TYPE_ERROR \<and> t \<noteq> NEU_TYPE_BYTES"
  by (auto simp: plain_types_def number_arrays_def)

lemma normal_attrs_idem [simp]: "normal_attrs (normal_attrs a) = normal_attrs a"
  by (simp add: normal_attrs_def)

lemma update_plain:
  assumes e: "ulist_find el_key (dc_table c) (to_key grp tag) = Some e" and t: "dv_type v \<in> plain_types"
    and norm: "normal_attrs (dv_attrs (el_value e)) = dv_attrs (el_value e)"
  shows "neu_driver_cache_update False ops new c grp tag ts v [] =
    Some (set_cache_elem (e\<lparr>el_timestamp := ts, el_changed := el_changed e \<or> \<not> same_sample (el_value e) v,
      el_value := (el_value e)\<lparr>dv_attrs := normal_attrs (dv_attrs v), dv_value := dv_value v, dv_type := dv_type v\<rparr>\<rparr>) c)"
proof -
  note T = plain_typesD [OF t]
  have "store_value new h old v = Some (h, old\<lparr>dv_value := dv_value v, dv_type := dv_type v\<rparr>)" for h old
    using T by (simp add: store_value_def Let_def)
  moreover have "value_differs ops h True p v = Some (dv_value p \<noteq> dv_value v)" for h p
    using t by (simp add: value_differs_def Let_def)
  ultimately show ?thesis
    using norm by (auto simp: neu_driver_cache_update_def update_change_unfold [OF e] same_sample_def)
qed

lemma find_set_cache_elem:
  assumes "ulist_find el_key (dc_table c) (el_key e') = Some e"
  shows "ulist_find el_key (dc_table (set_cache_elem e' c)) (el_key e') = Some e'"
proof -
  have "find (\<lambda>x. el_key x = el_key e') (map (\<lambda>x. if el_key x = el_key e' then e' else x) xs) = Some e'"
    if "find (\<lambda>x. el_key x = el_key e') xs = Some e" for xs
    using that by (induction xs) (auto split: if_splits)
  then show ?thesis using assms by (simp add: ulist_find_def set_cache_elem_def)
qed

lemma updates_plain:
  assumes "ulist_find el_key (dc_table c) (to_key grp tag) = Some e" "list_all (\<lambda>(ts, v). dv_type v \<in> plain_types) us"
    "normal_attrs (dv_attrs (el_value e)) = dv_attrs (el_value e)"
  shows "\<exists>c' e'. updates ops grp tag us c = Some c' \<and> ulist_find el_key (dc_table c') (to_key grp tag) = Some e' \<and>
    (el_changed e' \<longleftrightarrow> el_changed e \<or> \<not> steady (el_value e) (map snd us)) \<and>
    (us \<noteq> [] \<longrightarrow> dv_type (el_value e') = dv_type (snd (last us)) \<and> dv_value (el_value e') = dv_value (snd (last us)) \<and>
       el_timestamp e' = fst (last us))"
  using assms
proof (induction us arbitrary: c e)
  case (Cons u us)
  obtain ts v where u: "u = (ts, v)" by (cases u)
  have key: "el_key e = to_key grp tag" using Cons.prems(1) by (auto simp: ulist_find_def find_Some_iff)
  have t: "dv_type v \<in> plain_types" using Cons.prems(2) u by simp
  let ?v = "(el_value e)\<lparr>dv_attrs := normal_attrs (dv_attrs v), dv_value := dv_value v, dv_type := dv_type v\<rparr>"
  let ?e = "e\<lparr>el_timestamp := ts, el_changed := el_changed e \<or> \<not> same_sample (el_value e) v, el_value := ?v\<rparr>"
  let ?c = "set_cache_elem ?e c"
  have step: "neu_driver_cache_update False ops 0 c grp tag ts v [] = Some ?c"
    by (rule update_plain [OF Cons.prems(1) t Cons.prems(3)])
  have found: "ulist_find el_key (dc_table ?c) (to_key grp tag) = Some ?e"
    using find_set_cache_elem [of c ?e e] Cons.prems(1) key by simp
  have "list_all (\<lambda>(ts, v). dv_type v \<in> plain_types) us" "normal_attrs (dv_attrs (el_value ?e)) = dv_attrs (el_value ?e)"
    using Cons.prems(2) by simp_all
  from Cons.IH [OF found this] obtain c' e' where IH: "updates ops grp tag us ?c = Some c'"
      "ulist_find el_key (dc_table c') (to_key grp tag) = Some e'"
      "el_changed e' \<longleftrightarrow> el_changed ?e \<or> \<not> steady (el_value ?e) (map snd us)"
      "us \<noteq> [] \<longrightarrow> dv_type (el_value e') = dv_type (snd (last us)) \<and> dv_value (el_value e') = dv_value (snd (last us)) \<and>
       el_timestamp e' = fst (last us)" by blast
  have "steady ?v ws = steady v ws" for ws by (cases ws) (simp_all add: same_sample_def)
  then have ch: "el_changed e' \<longleftrightarrow> el_changed e \<or> \<not> steady (el_value e) (map snd (u # us))" using IH(3) u by auto
  have "dv_type (el_value e') = dv_type (snd (last (u # us))) \<and> dv_value (el_value e') = dv_value (snd (last (u # us))) \<and>
      el_timestamp e' = fst (last (u # us))"
  proof (cases "us = []")
    case True
    then have "e' = ?e" using IH(1,2) found by simp
    then show ?thesis using True u by simp
  qed (use IH(4) in simp)
  then show ?case using IH(1,2) ch step u by (intro exI [of _ c'] exI [of _ e']) simp
qed simp

lemma get_elem_plain:
  assumes "dv_type (el_value e) \<in> plain_types" "length (dv_value (el_value e)) = sizeof_value"
  shows "\<exists>r. get_elem ops news h e out = Some (h, r, el_metas e) \<and> dv_type (cv_value r) = dv_type (el_value e) \<and>
    take (scalar_size (dv_type (el_value e))) (dv_value (cv_value r)) = take (scalar_size (dv_type (el_value e))) (dv_value (el_value e)) \<and>
    cv_timestamp r = el_timestamp e"
proof -
  note T = plain_typesD [OF assms(1)]
  have "scalar_size (dv_type (el_value e)) \<le> length (dv_value (el_value e))"
    using assms(2) by (cases "dv_type (el_value e)") (simp_all add: NEU_VALUE_SIZE_def sizeof_value_def)
  then show ?thesis using T by (simp add: get_elem_def copy_value_def Let_def store_bytes_def)
qed


lemma filter_array_after_error:
  assumes e: "ulist_find el_key (dc_table c) (to_key grp tag) = Some e" "dv_type (el_value e) = NEU_TYPE_ERROR"
      "length (dv_value (el_value e)) = sizeof_value"
    and t: "dv_type v \<in> number_arrays" and upd: "neu_driver_cache_update True ops new c grp tag ts v [] = Some c'"
  shows "\<exists>f. ulist_find el_key (dc_table c') (to_key grp tag) = Some f \<and> dv_type (el_value f) = dv_type v \<and>
    arr_ptr (dv_value (el_value f)) = arr_ptr (dv_value v) \<and> dv_value (el_value_old f) = dv_value v \<and> dc_heap c' = dc_heap c"
proof -
  have key: "el_key e = to_key grp tag" using e(1) by (auto simp: ulist_find_def find_Some_iff)
  have vt: "dv_type v \<noteq> NEU_TYPE_ERROR" "dv_type v \<noteq> NEU_TYPE_PTR" "dv_type v \<noteq> NEU_TYPE_CUSTOM" "dv_type v \<noteq> NEU_TYPE_ARRAY_STRING"
    using t by auto
  obtain d where "value_differs ops (dc_heap c) False (el_value_old e) v = Some d"
    using upd e(1,2) vt(1) by (auto simp: neu_driver_cache_update_def neu_driver_cache_update_change_def Let_def bind_eq_Some_conv)
  with upd e(1,2) vt t have c': "\<exists>f. c' = set_cache_elem f (c\<lparr>dc_heap := dc_heap c\<rparr>) \<and> el_key f = el_key e \<and>
      dv_type (el_value f) = dv_type v \<and> dv_value (el_value f) = set_arr (arr_ptr (dv_value v)) (arr_length (dv_value v)) (dv_value (el_value e)) \<and>
      dv_value (el_value_old f) = dv_value v"
    by (auto simp: neu_driver_cache_update_def neu_driver_cache_update_change_def store_value_def Let_def intro!: exI)
  then obtain f where f: "c' = set_cache_elem f c" "el_key f = to_key grp tag" "dv_type (el_value f) = dv_type v"
      "dv_value (el_value f) = set_arr (arr_ptr (dv_value v)) (arr_length (dv_value v)) (dv_value (el_value e))"
      "dv_value (el_value_old f) = dv_value v" using key by auto
  then have "ulist_find el_key (dc_table c') (to_key grp tag) = Some f"
    using find_set_cache_elem [of c f e] e(1) by simp
  then show ?thesis using f e(3) by (auto simp: set_cache_elem_def)
qed

lemma filter_error_after_array:
  assumes e: "ulist_find el_key (dc_table c) (to_key grp tag) = Some e" "dv_type (el_value e) \<in> number_arrays"
      "arr_ptr (dv_value (el_value e)) \<noteq> 0"
    and t: "dv_type v = NEU_TYPE_ERROR" and upd: "neu_driver_cache_update True ops new c grp tag ts v [] = Some c'"
  shows "\<exists>f. ulist_find el_key (dc_table c') (to_key grp tag) = Some f \<and> dv_type (el_value f) = NEU_TYPE_ERROR \<and>
    dv_value (el_value_old f) = dv_value (el_value_old e) \<and> dc_heap c' (arr_ptr (dv_value (el_value e))) = None"
proof -
  have key: "el_key e = to_key grp tag" using e(1) by (auto simp: ulist_find_def find_Some_iff)
  have et: "dv_type (el_value e) \<noteq> NEU_TYPE_PTR" "dv_type (el_value e) \<noteq> NEU_TYPE_ARRAY_STRING" using e(2) by auto
  from upd e et t have "\<exists>f h. c' = set_cache_elem f (c\<lparr>dc_heap := h\<rparr>) \<and> el_key f = el_key e \<and> dv_type (el_value f) = NEU_TYPE_ERROR \<and>
      dv_value (el_value_old f) = dv_value (el_value_old e) \<and> h (arr_ptr (dv_value (el_value e))) = None"
    by (auto simp: neu_driver_cache_update_def neu_driver_cache_update_change_def store_value_def release_def heap_free_def
        Let_def bind_eq_Some_conv split: if_splits intro!: exI)
  then obtain f h where f: "c' = set_cache_elem f (c\<lparr>dc_heap := h\<rparr>)" "el_key f = to_key grp tag" "dv_type (el_value f) = NEU_TYPE_ERROR"
      "dv_value (el_value_old f) = dv_value (el_value_old e)" "h (arr_ptr (dv_value (el_value e))) = None" using key by auto
  then have "ulist_find el_key (dc_table c') (to_key grp tag) = Some f"
    using find_set_cache_elem [of "c\<lparr>dc_heap := h\<rparr>" f e] e(1) by simp
  then show ?thesis using f by (auto simp: set_cache_elem_def)
qed

lemma filter_array_after_freed:
  assumes f: "ulist_find el_key (dc_table c) (to_key grp tag) = Some f" "dv_type (el_value f) = NEU_TYPE_ERROR"
    and w: "dv_type w \<in> number_arrays" "0 < arr_size w" "arr_length (dv_value (el_value_old f)) = arr_length (dv_value w)"
    and freed: "dc_heap c (arr_ptr (dv_value (el_value_old f))) = None"
  shows "neu_driver_cache_update True ops new c grp tag ts w [] = None"
proof -
  have "dv_type w \<notin> plain_types" "dv_type w \<noteq> NEU_TYPE_BYTES" "dv_type w \<noteq> NEU_TYPE_ERROR"
    using w(1) by (auto simp: plain_types_def number_arrays_def)
  moreover have "heap_read (dc_heap c) (arr_ptr (dv_value (el_value_old f))) (arr_size w) = None"
    using freed w(2) by (simp add: heap_read_def)
  ultimately have "value_differs ops (dc_heap c) False (el_value_old f) w = None"
    using w(1,3) by (simp add: value_differs_def Let_def)
  then show ?thesis using f \<open>dv_type w \<noteq> NEU_TYPE_ERROR\<close>
    by (simp add: neu_driver_cache_update_def neu_driver_cache_update_change_def Let_def)
qed

text \<open>
  C33: With the filtering of errors on, an array that turns to an error and back is compared
  with freed memory: the element keeps the pointer of the array in \<^verbatim>\<open>value_old\<close>, while the error
  frees it. The third update fails whenever the arrays have the same type and length.
\<close>

theorem driver_cache_filter_use_after_free:
  assumes e: "ulist_find el_key (dc_table c) (to_key grp tag) = Some e" "dv_type (el_value e) = NEU_TYPE_ERROR"
      "length (dv_value (el_value e)) = sizeof_value"
    and arrays: "dv_type v \<in> number_arrays" "dv_type w = dv_type v" "arr_length (dv_value w) = arr_length (dv_value v)"
      "arr_ptr (dv_value v) \<noteq> 0" "0 < arr_size v"
    and err: "dv_type err = NEU_TYPE_ERROR"
  shows "Option.bind (neu_driver_cache_update True ops new c grp tag ts v []) (\<lambda>c.
    Option.bind (neu_driver_cache_update True ops new c grp tag ts' err []) (\<lambda>c.
    neu_driver_cache_update True ops new c grp tag ts'' w [])) = None"
proof -
  have size: "arr_size w = arr_size v" using arrays(2,3) by (simp add: arr_size_def)
  have "neu_driver_cache_update True ops new c2 grp tag ts'' w [] = None"
    if upd: "neu_driver_cache_update True ops new c grp tag ts v [] = Some c1" "neu_driver_cache_update True ops new c1 grp tag ts' err [] = Some c2" for c1 c2
  proof -
    obtain f where f: "ulist_find el_key (dc_table c1) (to_key grp tag) = Some f" "dv_type (el_value f) = dv_type v"
        "arr_ptr (dv_value (el_value f)) = arr_ptr (dv_value v)" "dv_value (el_value_old f) = dv_value v"
      using filter_array_after_error [OF e arrays(1) upd(1)] by blast
    have "dv_type (el_value f) \<in> number_arrays" "arr_ptr (dv_value (el_value f)) \<noteq> 0" using f(2,3) arrays by simp_all
    from filter_error_after_array [OF f(1) this err upd(2)] obtain g where
      g: "ulist_find el_key (dc_table c2) (to_key grp tag) = Some g" "dv_type (el_value g) = NEU_TYPE_ERROR"
        "dv_value (el_value_old g) = dv_value v" "dc_heap c2 (arr_ptr (dv_value v)) = None" using f(3,4) by auto
    show ?thesis
      using filter_array_after_freed [OF g(1,2), of w] arrays size g(3,4) by simp
  qed
  then show ?thesis by (auto split: bind_split)
qed


section \<open>Instances\<close>

definition sample_ops :: cache_ops where
  "sample_ops = \<lparr>co_far32 = (\<lambda>p a b. a \<noteq> b), co_far64 = (\<lambda>p a b. a \<noteq> b), co_json_equal = (\<lambda>p q. p = q), co_json_copy = (\<lambda>p. p)\<rparr>"

text \<open>A cache with one tag that holds no value yet, as the driver adds it.\<close>

definition sample_cache :: "heap \<Rightarrow> neu_driver_cache" where
  "sample_cache h = neu_driver_cache_add (neu_driver_cache_new h) ''g'' ''t'' (typed_value NEU_TYPE_ERROR zero_value)"

definition sample_elem :: elem where
  "sample_elem = \<lparr>el_timestamp = 0, el_changed = False, el_value = typed_value NEU_TYPE_ERROR zero_value,
     el_value_old = zero_dvalue, el_metas = None, el_key = to_key ''g'' ''t''\<rparr>"

lemma load_zero: "load_bytes off n zero_value = replicate (min n (sizeof_value - off)) 0"
  by (simp add: load_bytes_def zero_value_def)

lemma le_word_zeros [simp]: "le_word (replicate n 0) = 0"
  by (induction n) simp_all

lemma ptr_ptr_zero [simp]: "ptr_ptr zero_value = 0" "arr_ptr zero_value = 0"
  by (simp_all add: ptr_ptr_def arr_ptr_def load_zero)

lemma value_ok_error: "value_ok h (typed_value NEU_TYPE_ERROR zero_value)"
  by (simp add: value_ok_def readable_def owned_def typed_value_def Let_def)

lemma sample_cache: "dc_table (sample_cache h) = [sample_elem]" "dc_heap (sample_cache h) = h"
  by (simp_all add: sample_cache_def sample_elem_def neu_driver_cache_add_def neu_driver_cache_new_def ulist_find_def
      ulist_add_def set_cache_elem_def zero_dvalue_def typed_value_def zero_attrs_def Let_def)

lemma find_sample: "ulist_find el_key (dc_table (sample_cache h)) (to_key ''g'' ''t'') = Some sample_elem"
  by (simp add: sample_cache ulist_find_def sample_elem_def)

lemma sample_reach: "h 0 = None \<Longrightarrow> cache_reach sample_ops (sample_cache h)"
  unfolding sample_cache_def
  by (rule cache_reach.step [where op = "Cache_add ''g'' ''t'' (typed_value NEU_TYPE_ERROR zero_value)", OF cache_reach.new])
    (simp_all add: value_ok_error owns_memory_def number_arrays_def, simp add: typed_value_def)

text \<open>An array of three bytes in the block at address 16.\<close>

definition sample_array :: neu_dvalue where
  "sample_array = typed_value NEU_TYPE_ARRAY_UINT8 (set_arr 16 3 zero_value)"

definition sample_heap :: heap where
  "sample_heap = [16 \<mapsto> [1, 2, 3]]"

lemma sample_update_ok: "update_ok (sample_cache sample_heap) ''g'' ''t'' sample_array [] 32"
  by (simp add: update_ok_def sample_cache value_ok_def readable_def owned_def sample_array_def typed_value_def sample_elem_def
      sample_heap_def no_arrays_def compatible_def number_arrays_def heap_read_def arr_size_def Let_def)



definition sample_elem1 :: elem where
  "sample_elem1 = sample_elem\<lparr>el_timestamp := 5, el_changed := True, el_value := sample_array\<rparr>"

lemma sample_updated:
  "neu_driver_cache_update_change False sample_ops 32 (sample_cache sample_heap) ''g'' ''t'' 5 sample_array [] False =
     Some (set_cache_elem sample_elem1 (sample_cache sample_heap), True)"
  unfolding update_change_unfold [OF find_sample]
  by (simp add: sample_elem1_def sample_elem_def sample_array_def typed_value_def store_value_def number_arrays_def
      normal_attrs_def zero_attrs_def Let_def sample_cache_def)

lemma sample_updated_table: "dc_table (set_cache_elem sample_elem1 (sample_cache sample_heap)) = [sample_elem1]"
    "dc_heap (set_cache_elem sample_elem1 (sample_cache sample_heap)) = sample_heap"
  by (simp_all add: set_cache_elem_def sample_cache sample_elem1_def)



theorem driver_cache_filter_use_after_free_witness:
  "neu_driver_cache_update True sample_ops 0 (sample_cache sample_heap) ''g'' ''t'' 1 sample_array [] \<noteq> None \<and>
   Option.bind (neu_driver_cache_update True sample_ops 0 (sample_cache sample_heap) ''g'' ''t'' 1 sample_array []) (\<lambda>c.
   Option.bind (neu_driver_cache_update True sample_ops 0 c ''g'' ''t'' 2 (typed_value NEU_TYPE_ERROR zero_value) []) (\<lambda>c.
   neu_driver_cache_update True sample_ops 0 c ''g'' ''t'' 3 sample_array [])) = None"
proof -
  have "arr_length zero_value \<noteq> (3 :: u32)" by (simp add: arr_length_def load_zero sizeof_value_def)
  then have "neu_driver_cache_update True sample_ops 0 (sample_cache sample_heap) ''g'' ''t'' 1 sample_array [] \<noteq> None"
    by (simp add: neu_driver_cache_update_def neu_driver_cache_update_change_def find_sample sample_elem_def sample_array_def
        typed_value_def zero_dvalue_def value_differs_def plain_types_def number_arrays_def store_value_def Let_def)
  moreover have "dv_type (el_value sample_elem) = NEU_TYPE_ERROR" "length (dv_value (el_value sample_elem)) = sizeof_value"
      "dv_type sample_array \<in> number_arrays" "arr_ptr (dv_value sample_array) \<noteq> 0" "0 < arr_size sample_array"
    by (simp_all add: sample_elem_def sample_array_def typed_value_def number_arrays_def arr_size_def)
  moreover have "dv_type (typed_value NEU_TYPE_ERROR zero_value) = NEU_TYPE_ERROR" by (simp add: typed_value_def)
  ultimately show ?thesis
    using driver_cache_filter_use_after_free [OF find_sample, where v = sample_array and w = sample_array and
      err = "typed_value NEU_TYPE_ERROR zero_value"] by blast
qed

end
