(* ===== verification/Driver_Value.thy ===== *)
theory Driver_Value
  imports Cache_Safety
begin

unbundle bit_operations_syntax

text \<open>
  Tag values on their way through a driver, \<^verbatim>\<open>src/adapter/driver/driver.c\<close>: the check of a value
  that is to be written, its conversion to the type, the scale and the byte order of the tag
  (\<^verbatim>\<open>is_value_in_range\<close>, \<^verbatim>\<open>cal_decimal\<close>, \<^verbatim>\<open>fix_value\<close>), and the way back in the functions that
  read a group from the cache. Doubles and floats are their bit patterns; the arithmetic on
  them is the argument \<open>fp\<close>.
\<close>

section \<open>Numbers\<close>

record fp_ops =
  fp_of_int :: "int \<Rightarrow> u64"
  fp_to_i64 :: "u64 \<Rightarrow> u64"
  fp_to_u64 :: "u64 \<Rightarrow> u64"
  fp_of_f32 :: "u32 \<Rightarrow> u64"
  fp_to_f32 :: "u64 \<Rightarrow> u32"
  fp_f32_of_int :: "int \<Rightarrow> u32"
  fp_add :: "u64 \<Rightarrow> u64 \<Rightarrow> u64"
  fp_sub :: "u64 \<Rightarrow> u64 \<Rightarrow> u64"
  fp_mul :: "u64 \<Rightarrow> u64 \<Rightarrow> u64"
  fp_div :: "u64 \<Rightarrow> u64 \<Rightarrow> u64"
  fp_lt :: "u64 \<Rightarrow> u64 \<Rightarrow> bool"
  fp_round :: "u64 \<Rightarrow> u64"
  fp_ceil :: "u64 \<Rightarrow> u64"
  fp_floor :: "u64 \<Rightarrow> u64"
  fp_fabs :: "u64 \<Rightarrow> u64"
  fp_flt_min_i64 :: int
  fp_flt_max_i64 :: int

text \<open>\<open>fp_flt_min_i64\<close> and \<open>fp_flt_max_i64\<close> are what the conversions of \<^verbatim>\<open>-FLT_MAX\<close> and \<^verbatim>\<open>FLT_MAX\<close> to \<^verbatim>\<open>int64_t\<close> yield.\<close>

definition EPSILON :: u64 where "EPSILON = 0x3e112e0be826d695"

definition fp_minus_one :: u64 where "fp_minus_one = 0xbff0000000000000"

definition fp_one :: u64 where "fp_one = 0x3ff0000000000000"

text \<open>\<^verbatim>\<open>pow(10, n)\<close> for the exponents the code uses.\<close>

definition pow10 :: "nat \<Rightarrow> u64" where
  "pow10 n = [fp_one, 0x4024000000000000, 0x4059000000000000, 0x408f400000000000,
              0x40c3880000000000, 0x40f86a0000000000] ! n"

definition f32_nan :: "u32 \<Rightarrow> bool" where
  "f32_nan a \<longleftrightarrow> a AND 0x7fffffff > 0x7f800000"

definition f64_nan :: "u64 \<Rightarrow> bool" where
  "f64_nan a \<longleftrightarrow> a AND 0x7fffffffffffffff > 0x7ff0000000000000"

definition value_u8 :: "neu_value_u \<Rightarrow> u8" where
  "value_u8 v = le_word (load_bytes 0 1 v)"

definition value_i64 :: "neu_value_u \<Rightarrow> int" where
  "value_i64 v = sint (value_u64 v)"

section \<open>Checking a value before it is written\<close>

definition almost_equal :: "fp_ops \<Rightarrow> u64 \<Rightarrow> u64 \<Rightarrow> u64 \<Rightarrow> bool" where
  "almost_equal fp a b epsilon \<longleftrightarrow> fp_lt fp (fp_fabs fp (fp_sub fp a b)) epsilon"

definition check_value_decimal :: "fp_ops \<Rightarrow> neu_type_e \<Rightarrow> u64 \<Rightarrow> int \<Rightarrow> int \<Rightarrow> neu_err" where
  "check_value_decimal fp write_type result value_min value_max =
     (if write_type \<noteq> NEU_TYPE_INT64 \<and> write_type \<noteq> NEU_TYPE_DOUBLE then NEU_ERR_PLUGIN_TAG_TYPE_MISMATCH
      else if fp_lt fp result (fp_of_int fp value_min) \<or> fp_lt fp (fp_of_int fp value_max) result
      then NEU_ERR_PLUGIN_TAG_VALUE_OUT_OF_RANGE
      else if almost_equal fp (fp_ceil fp result) result EPSILON \<or> almost_equal fp (fp_floor fp result) result EPSILON
      then NEU_ERR_SUCCESS
      else NEU_ERR_PLUGIN_TAG_TYPE_MISMATCH)"

definition check_value :: "neu_type_e \<Rightarrow> int \<Rightarrow> int \<Rightarrow> int \<Rightarrow> neu_err" where
  "check_value write_type value value_min value_max =
     (if write_type \<noteq> NEU_TYPE_INT64 then NEU_ERR_PLUGIN_TAG_TYPE_MISMATCH
      else if value \<ge> value_min \<and> value \<le> value_max then NEU_ERR_SUCCESS
      else NEU_ERR_PLUGIN_TAG_VALUE_OUT_OF_RANGE)"

text \<open>The bounds of the types: \<^verbatim>\<open>INT8_MIN\<close>, \<^verbatim>\<open>INT8_MAX\<close>, \dots; \<open>None\<close> where the switch has no bounds.\<close>

fun int_bounds :: "neu_type_e \<Rightarrow> (int \<times> int) option" where
  "int_bounds NEU_TYPE_INT8 = Some (-128, 127)"
| "int_bounds NEU_TYPE_UINT8 = Some (0, 255)"
| "int_bounds NEU_TYPE_INT16 = Some (-32768, 32767)"
| "int_bounds NEU_TYPE_UINT16 = Some (0, 65535)"
| "int_bounds NEU_TYPE_INT32 = Some (-2147483648, 2147483647)"
| "int_bounds NEU_TYPE_UINT32 = Some (0, 4294967295)"
| "int_bounds _ = None"

definition type_check :: "bool \<Rightarrow> neu_err" where
  "type_check ok = (if ok then NEU_ERR_SUCCESS else NEU_ERR_PLUGIN_TAG_TYPE_MISMATCH)"

definition in_range_decimal :: "fp_ops \<Rightarrow> neu_type_e \<Rightarrow> int \<Rightarrow> u64 \<Rightarrow> neu_type_e \<Rightarrow> u64 \<Rightarrow> neu_err" where
  "in_range_decimal fp tag_type value value_d write_type decimal =
     (let result = (if write_type = NEU_TYPE_INT64 then fp_div fp (fp_of_int fp value) decimal
                    else fp_div fp value_d decimal);
          number = (write_type = NEU_TYPE_INT64 \<or> write_type = NEU_TYPE_DOUBLE) in
      case int_bounds tag_type of
        Some (lo, hi) \<Rightarrow> check_value_decimal fp write_type result lo hi
      | None \<Rightarrow>
          if tag_type \<in> {NEU_TYPE_INT64, NEU_TYPE_UINT64}
          then (if \<not> number then NEU_ERR_PLUGIN_TAG_TYPE_MISMATCH
                else type_check (almost_equal fp (fp_ceil fp result) result EPSILON \<or>
                                 almost_equal fp (fp_floor fp result) result EPSILON))
          else if tag_type = NEU_TYPE_FLOAT
          then (if \<not> number then NEU_ERR_PLUGIN_TAG_TYPE_MISMATCH
                else if fp_lt fp result (fp_of_int fp (fp_flt_min_i64 fp)) \<or> fp_lt fp (fp_of_int fp (fp_flt_max_i64 fp)) result
                then NEU_ERR_PLUGIN_TAG_VALUE_OUT_OF_RANGE else NEU_ERR_SUCCESS)
          else if tag_type = NEU_TYPE_DOUBLE then type_check number
          else if tag_type \<in> {NEU_TYPE_STRING, NEU_TYPE_BOOL, NEU_TYPE_BIT} then NEU_ERR_TAG_DECIMAL_INVALID
          else NEU_ERR_SUCCESS)"

definition in_range_plain :: "fp_ops \<Rightarrow> neu_type_e \<Rightarrow> int \<Rightarrow> neu_type_e \<Rightarrow> neu_err" where
  "in_range_plain fp tag_type value write_type =
     (let number = (write_type = NEU_TYPE_INT64 \<or> write_type = NEU_TYPE_DOUBLE) in
      case int_bounds tag_type of
        Some (lo, hi) \<Rightarrow> check_value write_type value lo hi
      | None \<Rightarrow>
          if tag_type = NEU_TYPE_BOOL then type_check (write_type = NEU_TYPE_BOOL)
          else if tag_type = NEU_TYPE_BIT
          then (if write_type \<noteq> NEU_TYPE_INT64 then NEU_ERR_PLUGIN_TAG_TYPE_MISMATCH
                else if value \<noteq> 1 \<and> value \<noteq> 0 then NEU_ERR_PLUGIN_TAG_VALUE_OUT_OF_RANGE else NEU_ERR_SUCCESS)
          else if tag_type \<in> {NEU_TYPE_INT64, NEU_TYPE_UINT64} then type_check (write_type = NEU_TYPE_INT64)
          else if tag_type = NEU_TYPE_FLOAT
          then (if \<not> number then NEU_ERR_PLUGIN_TAG_TYPE_MISMATCH
                else if value < fp_flt_min_i64 fp \<or> value > fp_flt_max_i64 fp
                then NEU_ERR_PLUGIN_TAG_VALUE_OUT_OF_RANGE else NEU_ERR_SUCCESS)
          else if tag_type = NEU_TYPE_DOUBLE then type_check number
          else if tag_type = NEU_TYPE_STRING then type_check (write_type = NEU_TYPE_STRING)
          else if tag_type = NEU_TYPE_CUSTOM then type_check (write_type = NEU_TYPE_CUSTOM)
          else if tag_type \<in> {NEU_TYPE_ARRAY_UINT8, NEU_TYPE_ARRAY_INT8, NEU_TYPE_ARRAY_UINT16, NEU_TYPE_ARRAY_INT16,
                 NEU_TYPE_ARRAY_UINT32, NEU_TYPE_ARRAY_INT32, NEU_TYPE_ARRAY_UINT64, NEU_TYPE_ARRAY_INT64}
          then type_check (write_type = NEU_TYPE_ARRAY_INT64)
          else if tag_type \<in> {NEU_TYPE_ARRAY_FLOAT, NEU_TYPE_ARRAY_DOUBLE}
          then type_check (write_type = NEU_TYPE_ARRAY_DOUBLE \<or> write_type = NEU_TYPE_ARRAY_INT64)
          else if tag_type = NEU_TYPE_ARRAY_STRING then type_check (write_type = NEU_TYPE_ARRAY_STRING)
          else NEU_ERR_SUCCESS)"

definition is_value_in_range :: "fp_ops \<Rightarrow> neu_type_e \<Rightarrow> int \<Rightarrow> u64 \<Rightarrow> neu_type_e \<Rightarrow> u64 \<Rightarrow> neu_err" where
  "is_value_in_range fp tag_type value value_d write_type decimal =
     (if f64_ne decimal 0 then in_range_decimal fp tag_type value value_d write_type decimal
      else in_range_plain fp tag_type value write_type)"

section \<open>Converting a value before it is written\<close>

definition cal_decimal :: "fp_ops \<Rightarrow> neu_type_e \<Rightarrow> neu_type_e \<Rightarrow> neu_value_u \<Rightarrow> u64 \<Rightarrow> neu_value_u" where
  "cal_decimal fp tag_type value_type v decimal =
     (let d = value_u64 v;
          i = fp_round fp (fp_div fp (if value_type = NEU_TYPE_DOUBLE then d else fp_of_int fp (sint d)) decimal);
          u = fp_round fp (fp_div fp (if value_type = NEU_TYPE_DOUBLE then d else fp_of_int fp (uint d)) decimal) in
      if tag_type = NEU_TYPE_INT8 then set_value_u8 (ucast (fp_to_i64 fp i)) v
      else if tag_type = NEU_TYPE_INT16 then set_value_u16 (ucast (fp_to_i64 fp i)) v
      else if tag_type = NEU_TYPE_INT32 then set_value_u32 (ucast (fp_to_i64 fp i)) v
      else if tag_type = NEU_TYPE_INT64 then set_value_u64 (fp_to_i64 fp i) v
      else if tag_type = NEU_TYPE_UINT8 then set_value_u8 (ucast (fp_to_i64 fp u)) v
      else if tag_type \<in> {NEU_TYPE_UINT16, NEU_TYPE_WORD} then set_value_u16 (ucast (fp_to_i64 fp u)) v
      else if tag_type \<in> {NEU_TYPE_UINT32, NEU_TYPE_LWORD} then set_value_u32 (ucast (fp_to_i64 fp u)) v
      else if tag_type \<in> {NEU_TYPE_UINT64, NEU_TYPE_DWORD} then set_value_u64 (fp_to_u64 fp u) v
      else if tag_type \<in> {NEU_TYPE_FLOAT, NEU_TYPE_DOUBLE}
      then (if value_type = NEU_TYPE_INT64 \<or> value_type = NEU_TYPE_DOUBLE then set_value_u64 (fp_div fp d decimal) v
            else if value_type = NEU_TYPE_FLOAT
            then set_value_u32 (fp_to_f32 fp (fp_div fp (fp_of_f32 fp (value_u32 v)) decimal)) v
            else v)
      else v)"

text \<open>\<^verbatim>\<open>neu_ntohs_p\<close> on both halves of the first four bytes.\<close>

definition swap_halves :: "neu_value_u \<Rightarrow> neu_value_u" where
  "swap_halves v = store_bytes 2 (neu_ntohs_p (load_bytes 2 2 v)) (store_bytes 0 (neu_ntohs_p (load_bytes 0 2 v)) v)"

definition tag_order16 :: "u32 \<Rightarrow> neu_value_u \<Rightarrow> neu_value_u" where
  "tag_order16 e v = (if e = endian_code NEU_DATATAG_ENDIAN_B16 then set_value_u16 (htons (value_u16 v)) v else v)"

definition tag_order32 :: "u32 \<Rightarrow> neu_value_u \<Rightarrow> neu_value_u" where
  "tag_order32 e v =
     (if e = endian_code NEU_DATATAG_ENDIAN_LB32 then swap_halves v
      else if e = endian_code NEU_DATATAG_ENDIAN_BB32 then set_value_u32 (htonl (value_u32 v)) v
      else if e = endian_code NEU_DATATAG_ENDIAN_BL32 then swap_halves (set_value_u32 (htonl (value_u32 v)) v)
      else v)"

definition tag_order64 :: "u32 \<Rightarrow> neu_value_u \<Rightarrow> neu_value_u" where
  "tag_order64 e v =
     (let u = value_u64 v in
      if e \<in> {endian_code NEU_DATATAG_ENDIAN_B64, endian_code NEU_DATATAG_ENDIAN_BB64} then set_value_u64 (neu_ntohll u) v
      else if e = endian_code NEU_DATATAG_ENDIAN_LB64 then set_value_u64 (neu_htonlb u) v
      else if e = endian_code NEU_DATATAG_ENDIAN_BL64 then set_value_u64 (neu_htonbl u) v
      else if e = endian_code NEU_DATATAG_ENDIAN_WS64 then set_value_u64 (neu_htonws u) v
      else if e = endian_code NEU_DATATAG_ENDIAN_WR64 then set_value_u64 (neu_htonwr u) v
      else v)"

text \<open>The 64-bit words of a block and the elements they are cut down to.\<close>

fun words64 :: "nat \<Rightarrow> bytes \<Rightarrow> u64 list" where
  "words64 0 b = []"
| "words64 (Suc n) b = le_word (take 8 b) # words64 n (drop 8 b)"

definition convert_array :: "(u64 \<Rightarrow> bytes) \<Rightarrow> u64 \<Rightarrow> heap \<Rightarrow> neu_dvalue \<Rightarrow> (heap \<times> neu_dvalue) option" where
  "convert_array elem new h value =
     (let v = dv_value value; n = unat (arr_length v) in
      do { b \<leftarrow> heap_read h (arr_ptr v) (8 * n);
           h \<leftarrow> heap_free (arr_ptr v) (h(new \<mapsto> concat (map elem (words64 n b))));
           Some (h, value\<lparr>dv_value := set_arr new (arr_length v) v\<rparr>) })"

definition fix_bytes :: "heap \<Rightarrow> neu_dvalue \<Rightarrow> (heap \<times> neu_dvalue) option" where
  "fix_bytes h value =
     (let v = dv_value value; n = min (unat (arr_length v)) NEU_VALUE_SIZE in
      do { b \<leftarrow> heap_read h (arr_ptr v) (8 * n);
           h \<leftarrow> heap_free (arr_ptr v) h;
           Some (h, value\<lparr>dv_value := map ucast (words64 n b) @ replicate (NEU_VALUE_SIZE - n) 0 @
                            of_nat n # drop (Suc NEU_VALUE_SIZE) v\<rparr>) })"

definition fix_value :: "fp_ops \<Rightarrow> u64 \<Rightarrow> heap \<Rightarrow> neu_datatag \<Rightarrow> neu_type_e \<Rightarrow> neu_dvalue \<Rightarrow> (heap \<times> neu_dvalue) option" where
  "fix_value fp new h tag value_type value =
     (let t = dt_type tag; v = dv_value value; u = value_u64 v; e = opt_endian (dt_option tag);
          set = (\<lambda>t v. Some (h, value\<lparr>dv_type := t, dv_value := v\<rparr>));
          i64s = (dv_type value = NEU_TYPE_ARRAY_INT64);
          array = (\<lambda>elem. if i64s then convert_array elem new h value else Some (h, value)) in
      if t \<in> {NEU_TYPE_BOOL, NEU_TYPE_STRING, NEU_TYPE_TIME, NEU_TYPE_DATA_AND_TIME, NEU_TYPE_ARRAY_INT64,
              NEU_TYPE_ARRAY_CHAR, NEU_TYPE_ARRAY_BOOL, NEU_TYPE_ARRAY_STRING, NEU_TYPE_CUSTOM} then Some (h, value)
      else if t = NEU_TYPE_BIT then set NEU_TYPE_BIT (set_value_u8 (ucast u) v)
      else if t \<in> {NEU_TYPE_UINT8, NEU_TYPE_INT8} then set NEU_TYPE_UINT8 (set_value_u8 (ucast u) v)
      else if t \<in> {NEU_TYPE_INT16, NEU_TYPE_UINT16, NEU_TYPE_WORD}
      then set NEU_TYPE_UINT16 (tag_order16 e (set_value_u16 (ucast u) v))
      else if t \<in> {NEU_TYPE_UINT32, NEU_TYPE_INT32, NEU_TYPE_DWORD}
      then set NEU_TYPE_UINT32 (tag_order32 e (set_value_u32 (ucast u) v))
      else if t = NEU_TYPE_FLOAT
      then (if value_type \<noteq> NEU_TYPE_FLOAT then set NEU_TYPE_FLOAT (tag_order32 e (set_value_u32 (fp_to_f32 fp u) v))
            else set (dv_type value) (tag_order32 e v))
      else if t \<in> {NEU_TYPE_DOUBLE, NEU_TYPE_UINT64, NEU_TYPE_INT64, NEU_TYPE_LWORD} then set (dv_type value) (tag_order64 e v)
      else if t = NEU_TYPE_BYTES then (if i64s then fix_bytes h value else Some (h, value))
      else if t \<in> {NEU_TYPE_ARRAY_INT8, NEU_TYPE_ARRAY_UINT8} then array (le_bytes 1)
      else if t \<in> {NEU_TYPE_ARRAY_INT16, NEU_TYPE_ARRAY_UINT16} then array (le_bytes 2)
      else if t \<in> {NEU_TYPE_ARRAY_INT32, NEU_TYPE_ARRAY_UINT32} then array (le_bytes 4)
      else if t = NEU_TYPE_ARRAY_UINT64 then array (le_bytes 8)
      else if t = NEU_TYPE_ARRAY_FLOAT
      then (if i64s then convert_array (\<lambda>w. le_bytes 4 (fp_f32_of_int fp (sint w))) new h value
            else if dv_type value = NEU_TYPE_ARRAY_DOUBLE
            then convert_array (\<lambda>w. le_bytes 4 (fp_to_f32 fp w)) new h value else Some (h, value))
      else if t = NEU_TYPE_ARRAY_DOUBLE then array (\<lambda>w. le_bytes 8 (fp_of_int fp (sint w)))
      else None)"

section \<open>Reading a group from the cache\<close>

datatype neu_tag_cache_type_e = NEU_TAG_CACHE_TYPE_INTERVAL | NEU_TAG_CACHE_TYPE_NEVER

record neu_resp_tag_value_meta =
  tv_tag :: string
  tv_value :: neu_dvalue
  tv_datatag :: neu_datatag
  tv_metas :: "neu_tag_meta list option"

text \<open>\<^verbatim>\<open>"%05" PRId64\<close>, of which the buffer keeps five characters.\<close>

definition show_05 :: "int \<Rightarrow> string" where
  "show_05 i =
     (let s = show_nat (nat \<bar>i\<bar>); sign = (if i < 0 then ''-'' else '''')
      in take 5 (sign @ replicate (5 - length sign - length s) CHR ''0'' @ s))"

text \<open>The first position with two zeros or two nines.\<close>

fun find_run :: "nat \<Rightarrow> string \<Rightarrow> nat option" where
  "find_run i (a # b # cs) =
     (if a = CHR ''0'' \<and> b = CHR ''0'' \<or> a = CHR ''9'' \<and> b = CHR ''9'' then Some i else find_run (Suc i) (b # cs))"
| "find_run i _ = None"

definition format_tag_value :: "fp_ops \<Rightarrow> neu_dvalue \<Rightarrow> neu_dvalue" where
  "format_tag_value fp value =
     (let scale = pow10 5; d = value_u64 (dv_value value);
          negative = fp_lt fp d (fp_of_int fp 0);
          d = (if negative then fp_mul fp d fp_minus_one else d);
          integer_part = fp_of_int fp (sint (fp_to_i64 fp d));
          decimal_part = fp_round fp (fp_mul fp (fp_sub fp d integer_part) scale);
          d = (case find_run 0 (show_05 (sint (fp_to_i64 fp decimal_part))) of
                 Some (Suc i) \<Rightarrow>
                   let decimal_part = fp_round fp (fp_div fp decimal_part (pow10 (5 - Suc i)))
                   in fp_add fp integer_part (fp_div fp decimal_part (pow10 (Suc i)))
               | _ \<Rightarrow> fp_add fp integer_part (fp_div fp decimal_part scale))
      in value\<lparr>dv_value := set_value_u64 (fp_mul fp d (if negative then fp_minus_one else fp_one)) (dv_value value)\<rparr>)"

text \<open>The byte order of the tag, undone.\<close>

definition read_order :: "neu_datatag \<Rightarrow> neu_value_u \<Rightarrow> neu_value_u" where
  "read_order tag v =
     (let t = dt_type tag; e = opt_endian (dt_option tag) in
      if t \<in> {NEU_TYPE_UINT16, NEU_TYPE_INT16} then tag_order16 e v
      else if t \<in> {NEU_TYPE_FLOAT, NEU_TYPE_UINT32, NEU_TYPE_INT32} then tag_order32 e v
      else if t \<in> {NEU_TYPE_DOUBLE, NEU_TYPE_INT64, NEU_TYPE_UINT64} then tag_order64 e v
      else v)"

text \<open>The number in a value as the type of the tag has it, and as a double.\<close>

definition value_int :: "neu_type_e \<Rightarrow> neu_value_u \<Rightarrow> int option" where
  "value_int t v =
     (if t = NEU_TYPE_INT8 then Some (sint (value_u8 v))
      else if t = NEU_TYPE_UINT8 then Some (uint (value_u8 v))
      else if t = NEU_TYPE_INT16 then Some (sint (value_u16 v))
      else if t = NEU_TYPE_UINT16 then Some (uint (value_u16 v))
      else if t = NEU_TYPE_INT32 then Some (sint (value_u32 v))
      else if t = NEU_TYPE_UINT32 then Some (uint (value_u32 v))
      else if t = NEU_TYPE_INT64 then Some (sint (value_u64 v))
      else if t = NEU_TYPE_UINT64 then Some (uint (value_u64 v))
      else None)"

definition read_number :: "fp_ops \<Rightarrow> neu_type_e \<Rightarrow> neu_value_u \<Rightarrow> u64 option" where
  "read_number fp t v =
     (case value_int t v of
        Some i \<Rightarrow> Some (fp_of_int fp i)
      | None \<Rightarrow> if t = NEU_TYPE_FLOAT then Some (fp_of_f32 fp (value_u32 v))
               else if t = NEU_TYPE_DOUBLE then Some (value_u64 v) else None)"

definition read_scale :: "fp_ops \<Rightarrow> neu_datatag \<Rightarrow> neu_dvalue \<Rightarrow> neu_dvalue" where
  "read_scale fp tag value =
     (let value =
        (if f64_ne (dt_decimal tag) 0 \<or> f64_ne (dt_bias tag) 0
         then let decimal = (if f64_ne (dt_decimal tag) 0 then dt_decimal tag else fp_one) in
              case read_number fp (dt_type tag) (dv_value value) of
                Some x \<Rightarrow> value\<lparr>dv_type := NEU_TYPE_DOUBLE,
                  dv_value := set_value_u64 (fp_add fp (fp_mul fp x decimal) (dt_bias tag)) (dv_value value)\<rparr>
              | None \<Rightarrow> value\<lparr>dv_type := dt_type tag\<rparr>
         else value)
      in if dt_precision tag = 0 \<and> \<not> f64_ne (dt_bias tag) 0 \<and> dt_type tag = NEU_TYPE_DOUBLE
         then format_tag_value fp value else value)"

definition zero_tag_value :: neu_resp_tag_value_meta where
  "zero_tag_value = \<lparr>tv_tag = '''', tv_value = zero_dvalue, tv_datatag = zero_tag, tv_metas = None\<rparr>"

text \<open>The assignment of the two members of an error.\<close>

definition set_error :: "neu_err \<Rightarrow> neu_resp_tag_value_meta \<Rightarrow> neu_resp_tag_value_meta" where
  "set_error e tv =
     tv\<lparr>tv_value := (tv_value tv)\<lparr>dv_type := NEU_TYPE_ERROR,
       dv_value := set_value_u32 (word_of_int e) (dv_value (tv_value tv))\<rparr>\<rparr>"

definition zero_cache_value :: neu_driver_cache_value where
  "zero_cache_value = \<lparr>cv_value = zero_dvalue, cv_timestamp = 0\<rparr>"

text \<open>
  What is done with a value that was found: an error is passed on, an expired value is freed
  and replaced by an error, any other value is converted and handed over.
\<close>

definition free_cached :: "neu_dvalue \<Rightarrow> heap \<Rightarrow> heap option" where
  "free_cached value h =
     (if dv_type value = NEU_TYPE_PTR then heap_free (ptr_ptr (dv_value value)) h else neu_free_dvalue value h)"

definition hand_over :: "fp_ops \<Rightarrow> neu_datatag \<Rightarrow> neu_dvalue \<Rightarrow> neu_resp_tag_value_meta \<Rightarrow> neu_resp_tag_value_meta" where
  "hand_over fp tag value tv =
     (let value = (if dv_type value = NEU_TYPE_PTR
                   then (tv_value tv)\<lparr>dv_type := NEU_TYPE_PTR,
                     dv_value := set_ptr (ptr_type (dv_value value)) (ptr_length (dv_value value)) (ptr_ptr (dv_value value))
                       (dv_value (tv_value tv))\<rparr>
                   else value)
      in tv\<lparr>tv_value := read_scale fp tag value\<rparr>)"

definition finish_tag :: "fp_ops \<Rightarrow> bool \<Rightarrow> neu_datatag \<Rightarrow> neu_driver_cache_value \<Rightarrow> neu_resp_tag_value_meta \<Rightarrow> heap \<Rightarrow>
    (heap \<times> neu_resp_tag_value_meta) option" where
  "finish_tag fp expired tag value tv h =
     (let v = (cv_value value)\<lparr>dv_value := read_order tag (dv_value (cv_value value))\<rparr>
      in if expired then map_option (\<lambda>h. (h, set_error NEU_ERR_PLUGIN_TAG_VALUE_EXPIRED tv)) (free_cached v h)
         else Some (h, hand_over fp tag v tv))"

definition is_nan_value :: "neu_datatag \<Rightarrow> neu_value_u \<Rightarrow> bool" where
  "is_nan_value tag v \<longleftrightarrow>
     dt_type tag = NEU_TYPE_FLOAT \<and> f32_nan (value_u32 v) \<or> dt_type tag = NEU_TYPE_DOUBLE \<and> f64_nan (value_u64 v)"

text \<open>
  One round of the loop of \<^verbatim>\<open>read_report_group\<close>; the inner \<open>None\<close> is a \<^verbatim>\<open>continue\<close> before anything
  is pushed. Timestamps are signed.
\<close>

definition read_report_tag :: "fp_ops \<Rightarrow> cache_ops \<Rightarrow> u64 \<Rightarrow> int \<Rightarrow> neu_tag_cache_type_e \<Rightarrow> (nat \<Rightarrow> u64) \<Rightarrow> string \<Rightarrow>
    neu_datatag \<Rightarrow> neu_driver_cache \<Rightarrow> (neu_driver_cache \<times> neu_resp_tag_value_meta option) option" where
  "read_report_tag fp ops timestamp timeout cache_type news grp tag cache =
     (let name = strncpy_to (NEU_TAG_NAME_LEN - 1) (dt_name tag); sub = neu_tag_attribute_test tag NEU_ATTRIBUTE_SUBSCRIBE in
      do { (cache, r) \<leftarrow> (if sub then neu_driver_cache_meta_get_changed ops news cache grp (dt_name tag) zero_cache_value
                          else neu_driver_cache_meta_get ops news cache grp (dt_name tag) zero_cache_value);
           (case r of
              None \<Rightarrow> Some (cache, if sub then None
                else Some (set_error NEU_ERR_PLUGIN_TAG_NOT_READY (zero_tag_value\<lparr>tv_tag := name\<rparr>)))
            | Some (value, metas) \<Rightarrow>
                let tv = zero_tag_value\<lparr>tv_tag := name, tv_datatag := tag, tv_metas := metas\<rparr>;
                    tv = tv\<lparr>tv_value := (tv_value tv)\<lparr>dv_attrs := dv_attrs (cv_value value)\<rparr>\<rparr>;
                    late = sint timestamp - sint (cv_timestamp value) in
                if dv_type (cv_value value) = NEU_TYPE_ERROR then Some (cache, Some (tv\<lparr>tv_value := cv_value value\<rparr>))
                else if is_nan_value tag (dv_value (cv_value value))
                then Some (cache, Some (set_error NEU_ERR_PLUGIN_TAG_VALUE_EXPIRED tv))
                else map_option (\<lambda>(h, tv). (cache\<lparr>dc_heap := h\<rparr>, Some tv))
                       (finish_tag fp (cache_type \<noteq> NEU_TAG_CACHE_TYPE_NEVER \<and> late > timeout \<and> timeout > 0)
                          tag value tv (dc_heap cache))) })"

fun read_report_group :: "fp_ops \<Rightarrow> cache_ops \<Rightarrow> u64 \<Rightarrow> int \<Rightarrow> neu_tag_cache_type_e \<Rightarrow> (nat \<Rightarrow> nat \<Rightarrow> u64) \<Rightarrow> nat \<Rightarrow> string \<Rightarrow>
    neu_datatag list \<Rightarrow> neu_driver_cache \<Rightarrow> (neu_driver_cache \<times> neu_resp_tag_value_meta list) option" where
  "read_report_group fp ops timestamp timeout cache_type news i grp [] cache = Some (cache, [])"
| "read_report_group fp ops timestamp timeout cache_type news i grp (tag # tags) cache =
     do { (cache, tv) \<leftarrow> read_report_tag fp ops timestamp timeout cache_type (news i) grp tag cache;
          (cache, tvs) \<leftarrow> read_report_group fp ops timestamp timeout cache_type news (Suc i) grp tags cache;
          Some (cache, (case tv of None \<Rightarrow> tvs | Some tv \<Rightarrow> tv # tvs)) }"

text \<open>The loop body that \<^verbatim>\<open>read_group\<close> and \<^verbatim>\<open>read_group_paginate\<close> share.\<close>

definition read_tag_value :: "fp_ops \<Rightarrow> cache_ops \<Rightarrow> u64 \<Rightarrow> int \<Rightarrow> neu_tag_cache_type_e \<Rightarrow> (nat \<Rightarrow> u64) \<Rightarrow> string \<Rightarrow>
    neu_datatag \<Rightarrow> neu_driver_cache \<Rightarrow> (neu_driver_cache \<times> neu_resp_tag_value_meta) option" where
  "read_tag_value fp ops timestamp timeout cache_type news grp tag cache =
     (let tv = zero_tag_value\<lparr>tv_tag := strncpy_to (NEU_TAG_NAME_LEN - 1) (dt_name tag), tv_datatag := tag\<rparr> in
      do { (cache, r) \<leftarrow> neu_driver_cache_meta_get ops news cache grp (dt_name tag) zero_cache_value;
           (case r of
              None \<Rightarrow> Some (cache, set_error NEU_ERR_PLUGIN_TAG_NOT_READY tv)
            | Some (value, metas) \<Rightarrow>
                let tv = tv\<lparr>tv_metas := metas, tv_value := (tv_value tv)\<lparr>dv_attrs := dv_attrs (cv_value value)\<rparr>\<rparr>;
                    late = sint timestamp - sint (cv_timestamp value) in
                if dv_type (cv_value value) = NEU_TYPE_ERROR then Some (cache, tv\<lparr>tv_value := cv_value value\<rparr>)
                else map_option (\<lambda>(h, tv). (cache\<lparr>dc_heap := h\<rparr>, tv))
                       (finish_tag fp (cache_type \<noteq> NEU_TAG_CACHE_TYPE_NEVER \<and> late > timeout) tag value tv (dc_heap cache))) })"

fun read_group :: "fp_ops \<Rightarrow> cache_ops \<Rightarrow> u64 \<Rightarrow> int \<Rightarrow> neu_tag_cache_type_e \<Rightarrow> (nat \<Rightarrow> nat \<Rightarrow> u64) \<Rightarrow> nat \<Rightarrow> string \<Rightarrow>
    neu_datatag list \<Rightarrow> neu_driver_cache \<Rightarrow> (neu_driver_cache \<times> neu_resp_tag_value_meta list) option" where
  "read_group fp ops timestamp timeout cache_type news i grp [] cache = Some (cache, [])"
| "read_group fp ops timestamp timeout cache_type news i grp (tag # tags) cache =
     do { (cache, tv) \<leftarrow> read_tag_value fp ops timestamp timeout cache_type (news i) grp tag cache;
          (cache, tvs) \<leftarrow> read_group fp ops timestamp timeout cache_type news (Suc i) grp tags cache;
          Some (cache, tv # tvs) }"

text \<open>A tag that is only for writing is shown as an empty string.\<close>

definition read_page_tag :: "fp_ops \<Rightarrow> cache_ops \<Rightarrow> u64 \<Rightarrow> int \<Rightarrow> neu_tag_cache_type_e \<Rightarrow> (nat \<Rightarrow> u64) \<Rightarrow> string \<Rightarrow>
    neu_datatag \<Rightarrow> neu_driver_cache \<Rightarrow> (neu_driver_cache \<times> neu_resp_tag_value_meta) option" where
  "read_page_tag fp ops timestamp timeout cache_type news grp tag cache =
     (if dt_attribute tag = NEU_ATTRIBUTE_WRITE
      then Some (cache, zero_tag_value\<lparr>tv_tag := strncpy_to (NEU_TAG_NAME_LEN - 1) (dt_name tag), tv_datatag := tag,
             tv_value := zero_dvalue\<lparr>dv_type := NEU_TYPE_STRING\<rparr>\<rparr>)
      else read_tag_value fp ops timestamp timeout cache_type news grp tag cache)"

fun read_group_paginate :: "fp_ops \<Rightarrow> cache_ops \<Rightarrow> u64 \<Rightarrow> int \<Rightarrow> neu_tag_cache_type_e \<Rightarrow> (nat \<Rightarrow> nat \<Rightarrow> u64) \<Rightarrow> nat \<Rightarrow> string \<Rightarrow>
    neu_datatag list \<Rightarrow> neu_driver_cache \<Rightarrow> (neu_driver_cache \<times> neu_resp_tag_value_meta list) option" where
  "read_group_paginate fp ops timestamp timeout cache_type news i grp [] cache = Some (cache, [])"
| "read_group_paginate fp ops timestamp timeout cache_type news i grp (tag # tags) cache =
     do { (cache, tv) \<leftarrow> read_page_tag fp ops timestamp timeout cache_type (news i) grp tag cache;
          (cache, tvs) \<leftarrow> read_group_paginate fp ops timestamp timeout cache_type news (Suc i) grp tags cache;
          Some (cache, tv # tvs) }"

section \<open>Writing and reading back\<close>

lemma le_bytes_small:
  "le_bytes 2 (le_word [a, b] :: u16) = [a, b]" "le_bytes 4 (le_word [a, b, c, d] :: u32) = [a, b, c, d]"
  by (simp_all add: byte_simps del: le_word.simps)

lemma htons_bytes: "set_value_u16 (htons (value_u16 (a # b # w))) (a # b # w) = b # a # w"
  by (simp add: set_value_u16_def value_u16_def le_bytes_htons le_bytes_small load_bytes_def store_bytes_def
      take_Cons' drop_Cons' del: le_word.simps)

lemma htonl_bytes: "set_value_u32 (htonl (value_u32 (a # b # c # d # w))) (a # b # c # d # w) = d # c # b # a # w"
  by (simp add: set_value_u32_def value_u32_def le_bytes_htonl le_bytes_small load_bytes_def store_bytes_def del: le_word.simps)

lemma ntohs_p_bytes: "neu_ntohs_p [a, b] = [b, a]"
  by (simp add: neu_ntohs_p_def neu_get_u16_def neu_set_u16_def le_bytes_ntohs le_bytes_small del: le_word.simps)

lemma swap_halves_bytes: "swap_halves (a # b # c # d # w) = b # a # d # c # w"
  by (simp add: swap_halves_def ntohs_p_bytes load_bytes_def store_bytes_def)

lemma bytes4:
  assumes "4 \<le> length (v :: bytes)"
  obtains a b c d w where "v = a # b # c # d # w"
  using assms by (auto simp: Suc_le_length_iff numeral_eq_Suc)

lemma tag_order16_twice:
  assumes "4 \<le> length v"
  shows "tag_order16 e (tag_order16 e v) = v"
  using bytes4 [OF assms] by (metis tag_order16_def htons_bytes)

lemma tag_order32_twice:
  assumes "4 \<le> length v"
  shows "tag_order32 e (tag_order32 e v) = v"
proof -
  obtain a b c d w where "v = a # b # c # d # w" using bytes4 [OF assms] .
  then show ?thesis by (simp add: tag_order32_def htonl_bytes swap_halves_bytes)
qed

lemma set_value_u64_id: "8 \<le> length v \<Longrightarrow> set_value_u64 (value_u64 v) v = v"
  by (simp add: set_value_u64_def value_u64_def byte_simps) (simp add: load_bytes_def store_bytes_def)

lemma set_value_u64_set: "8 \<le> length v \<Longrightarrow> set_value_u64 x (set_value_u64 y v) = set_value_u64 x v"
  by (simp add: set_value_u64_def store_bytes_def)

lemma value_set_u64: "8 \<le> length v \<Longrightarrow> value_u64 (set_value_u64 x v) = x"
  by (simp add: set_value_u64_def value_u64_def byte_simps)

lemma tag_order64_twice:
  assumes "8 \<le> length v"
  shows "tag_order64 e (tag_order64 e v) = v"
  using assms by (simp add: tag_order64_def Let_def value_set_u64 set_value_u64_set set_value_u64_id neu_ntohll_def)

lemma length_order [simp]:
  "4 \<le> length v \<Longrightarrow> length (tag_order16 e v) = length v" "4 \<le> length v \<Longrightarrow> length (tag_order32 e v) = length v"
  "8 \<le> length v \<Longrightarrow> length (tag_order64 e v) = length v"
proof -
  show "8 \<le> length v \<Longrightarrow> length (tag_order64 e v) = length v" by (simp add: tag_order64_def set_value_u64_def Let_def)
  assume "4 \<le> length v"
  then obtain a b c d w where "v = a # b # c # d # w" using bytes4 by blast
  then show "length (tag_order16 e v) = length v" "length (tag_order32 e v) = length v"
    by (simp_all add: tag_order16_def tag_order32_def htons_bytes htonl_bytes swap_halves_bytes)
qed

text \<open>A scalar goes through the cache as its first bytes.\<close>

definition int_types :: "neu_type_e set" where
  "int_types = {NEU_TYPE_INT8, NEU_TYPE_UINT8, NEU_TYPE_INT16, NEU_TYPE_UINT16, NEU_TYPE_INT32, NEU_TYPE_UINT32,
     NEU_TYPE_INT64, NEU_TYPE_UINT64}"

definition word_types :: "neu_type_e set" where
  "word_types = {NEU_TYPE_WORD, NEU_TYPE_DWORD, NEU_TYPE_LWORD}"

lemma number_type_simps [simp]:
  "t \<in> int_types \<union> word_types \<Longrightarrow> t \<in> plain_types" "t \<in> int_types \<union> word_types \<Longrightarrow> t \<notin> number_arrays"
  "t \<in> int_types \<union> word_types \<Longrightarrow> t \<notin> {NEU_TYPE_BYTES, NEU_TYPE_ARRAY_STRING, NEU_TYPE_PTR, NEU_TYPE_CUSTOM, NEU_TYPE_ERROR}"
  by (auto simp: int_types_def word_types_def plain_types_def number_arrays_def)

lemma found_updated_elem:
  assumes "ulist_find el_key (dc_table c) (el_key e) \<noteq> None"
  shows "ulist_find el_key (dc_table (set_cache_elem e c)) (el_key e) = Some e"
proof -
  have "find (\<lambda>x. el_key x = el_key e) xs \<noteq> None \<Longrightarrow>
      find (\<lambda>x. el_key x = el_key e) (map (\<lambda>x. if el_key x = el_key e then e else x) xs) = Some e" for xs
    by (induction xs) auto
  then show ?thesis using assms by (simp add: ulist_find_def set_cache_elem_def)
qed

definition passed_on :: "neu_type_e \<Rightarrow> neu_value_u \<Rightarrow> neu_value_u" where
  "passed_on t v = store_bytes 0 (take (scalar_size t) v) zero_value"

lemma cache_passes_number:
  assumes t: "t \<in> int_types \<union> word_types"
    and e: "ulist_find el_key (dc_table c) (to_key grp n) = Some e" "dv_type (el_value e) \<in> {NEU_TYPE_ERROR, t}"
  shows "\<exists>c1 v metas. neu_driver_cache_update False ops new c grp n ts (typed_value t w) [] = Some c1 \<and>
    neu_driver_cache_meta_get ops news c1 grp n zero_cache_value = Some (c1, Some (\<lparr>cv_value = v, cv_timestamp = ts\<rparr>, metas)) \<and>
    dv_type v = t \<and> dv_value v = passed_on t w"
proof -
  have key: "el_key e = to_key grp n" using e(1) by (auto simp: ulist_find_def find_Some_iff)
  have nt: "t \<noteq> NEU_TYPE_PTR" "t \<noteq> NEU_TYPE_CUSTOM" "t \<noteq> NEU_TYPE_ARRAY_STRING" "t \<noteq> NEU_TYPE_ERROR" "t \<noteq> NEU_TYPE_BYTES"
    "t \<notin> number_arrays" "t \<in> plain_types"
    using number_type_simps [OF t] by auto
  define a where "a = normal_attrs zero_attrs"
  define v where "v = (el_value e)\<lparr>dv_attrs := a, dv_value := w, dv_type := t\<rparr>"
  have "\<exists>ch. neu_driver_cache_update False ops new c grp n ts (typed_value t w) [] =
      Some (set_cache_elem (e\<lparr>el_timestamp := ts, el_changed := ch, el_value := v, el_metas := el_metas e\<rparr>) c)"
  proof (cases "dv_type (el_value e) = t")
    case True
    then show ?thesis using nt unfolding neu_driver_cache_update_def update_change_unfold [OF e(1)]
      by (auto simp: store_value_def value_differs_def typed_value_def v_def a_def Let_def)
  next
    case False
    then show ?thesis using nt e(2) unfolding neu_driver_cache_update_def update_change_unfold [OF e(1)]
      by (intro exI [of _ True]) (simp add: store_value_def typed_value_def v_def a_def Let_def)
  qed
  then obtain ch where upd: "neu_driver_cache_update False ops new c grp n ts (typed_value t w) [] =
      Some (set_cache_elem (e\<lparr>el_timestamp := ts, el_changed := ch, el_value := v, el_metas := el_metas e\<rparr>) c)" ..
  let ?e = "e\<lparr>el_timestamp := ts, el_changed := ch, el_value := v, el_metas := el_metas e\<rparr>"
  have "ulist_find el_key (dc_table (set_cache_elem ?e c)) (to_key grp n) = Some ?e"
    using found_updated_elem [of c ?e] e(1) key by simp
  then have "neu_driver_cache_meta_get ops news (set_cache_elem ?e c) grp n zero_cache_value =
      Some (set_cache_elem ?e c, Some (\<lparr>cv_value = v\<lparr>dv_value := passed_on t w\<rparr>, cv_timestamp = ts\<rparr>, el_metas e))"
    using nt by (simp add: neu_driver_cache_meta_get_def get_elem_def copy_value_def v_def zero_cache_value_def zero_dvalue_def
        typed_value_def passed_on_def set_cache_elem_def Let_def)
  then show ?thesis using upd by (auto simp: v_def)
qed

lemma read_passed_number:
  assumes t: "t \<in> int_types \<union> word_types" "dt_type tag = t" and plain: "\<not> f64_ne (dt_decimal tag) 0" "\<not> f64_ne (dt_bias tag) 0"
    and e: "ulist_find el_key (dc_table c) (to_key grp (dt_name tag)) = Some e" "dv_type (el_value e) \<in> {NEU_TYPE_ERROR, t}"
    and time: "0 \<le> timeout"
  shows "\<exists>c1 c2 tv. neu_driver_cache_update False ops new c grp (dt_name tag) ts (typed_value t w) [] = Some c1 \<and>
    read_tag_value fp ops ts timeout cache_type news grp tag c1 = Some (c2, tv) \<and>
    dv_type (tv_value tv) = t \<and> dv_value (tv_value tv) = read_order tag (passed_on t w)"
proof -
  obtain c1 v metas where c1: "neu_driver_cache_update False ops new c grp (dt_name tag) ts (typed_value t w) [] = Some c1"
    and get: "neu_driver_cache_meta_get ops news c1 grp (dt_name tag) zero_cache_value =
        Some (c1, Some (\<lparr>cv_value = v, cv_timestamp = ts\<rparr>, metas))"
    and v: "dv_type v = t" "dv_value v = passed_on t w"
    using cache_passes_number [OF t(1) e, of ops new ts w news] by blast
  have nt: "t \<noteq> NEU_TYPE_PTR" "t \<noteq> NEU_TYPE_ERROR" "t \<noteq> NEU_TYPE_DOUBLE"
    using t(1) by (auto simp: int_types_def word_types_def)
  show ?thesis
    using c1 nt v t(2) time plain
    by (auto simp: read_tag_value_def get finish_tag_def hand_over_def read_scale_def Let_def)
qed

lemma take_passed_on:
  "scalar_size t \<le> length v \<Longrightarrow> scalar_size t \<le> sizeof_value \<Longrightarrow> take (scalar_size t) (passed_on t v) = take (scalar_size t) v"
  "scalar_size t \<le> length v \<Longrightarrow> scalar_size t \<le> sizeof_value \<Longrightarrow> length (passed_on t v) = sizeof_value"
  by (simp_all add: passed_on_def store_bytes_def)

lemma order_cong:
  assumes "4 \<le> length v" "4 \<le> length w"
  shows "take 2 v = take 2 w \<Longrightarrow> take 2 (tag_order16 e v) = take 2 (tag_order16 e w)"
    and "take 4 v = take 4 w \<Longrightarrow> take 4 (tag_order32 e v) = take 4 (tag_order32 e w)"
proof -
  obtain a b c d v' where "v = a # b # c # d # v'" using bytes4 [OF assms(1)] .
  moreover obtain a' b' c' d' w' where "w = a' # b' # c' # d' # w'" using bytes4 [OF assms(2)] .
  ultimately show "take 2 v = take 2 w \<Longrightarrow> take 2 (tag_order16 e v) = take 2 (tag_order16 e w)"
    and "take 4 v = take 4 w \<Longrightarrow> take 4 (tag_order32 e v) = take 4 (tag_order32 e w)"
    by (simp_all add: tag_order16_def tag_order32_def htons_bytes htonl_bytes swap_halves_bytes numeral_eq_Suc)
qed

lemma tag_order64_value:
  assumes "8 \<le> length v" "8 \<le> length w" "value_u64 v = value_u64 w"
  shows "value_u64 (tag_order64 e v) = value_u64 (tag_order64 e w)"
  using assms by (simp add: tag_order64_def value_set_u64 Let_def)

lemma tag_order64_passed:
  assumes "8 \<le> length v" "scalar_size t = 8"
  shows "value_u64 (tag_order64 e (passed_on t (tag_order64 e v))) = value_u64 v"
proof -
  have "value_u64 (passed_on t (tag_order64 e v)) = value_u64 (tag_order64 e v)"
    using take_passed_on(1) [of t "tag_order64 e v"] assms by (simp add: value_u64_def load_bytes_def sizeof_value_def)
  then have "value_u64 (tag_order64 e (passed_on t (tag_order64 e v))) = value_u64 (tag_order64 e (tag_order64 e v))"
    using assms take_passed_on(2) [of t "tag_order64 e v"] by (intro tag_order64_value) (simp_all add: sizeof_value_def)
  then show ?thesis using assms by (simp add: tag_order64_twice)
qed

lemma tag_order32_passed:
  assumes "8 \<le> length v" "scalar_size t = 4"
  shows "value_u32 (tag_order32 e (passed_on t (tag_order32 e v))) = value_u32 v"
proof -
  have "take 4 (tag_order32 e (passed_on t (tag_order32 e v))) = take 4 (tag_order32 e (tag_order32 e v))"
    using assms take_passed_on [of t "tag_order32 e v"] by (intro order_cong) (simp_all add: sizeof_value_def)
  then show ?thesis using assms by (simp add: value_u32_def load_bytes_def tag_order32_twice)
qed

lemma tag_order16_passed:
  assumes "8 \<le> length v" "scalar_size t = 2"
  shows "value_u16 (tag_order16 e (passed_on t (tag_order16 e v))) = value_u16 v"
proof -
  have "take 2 (tag_order16 e (passed_on t (tag_order16 e v))) = take 2 (tag_order16 e (tag_order16 e v))"
    using assms take_passed_on [of t "tag_order16 e v"] by (intro order_cong) (simp_all add: sizeof_value_def)
  then show ?thesis using assms by (simp add: value_u16_def load_bytes_def tag_order16_twice)
qed

lemma value_u8_passed:
  assumes "8 \<le> length v" "scalar_size t = 1"
  shows "value_u8 (passed_on t (set_value_u8 x v)) = x"
  using assms by (simp add: value_u8_def load_bytes_def passed_on_def store_bytes_def set_value_u8_def)

lemma ucast_of_sint:
  fixes u :: u64
  shows "(ucast u :: u8) = word_of_int (sint u)" "(ucast u :: u16) = word_of_int (sint u)" "(ucast u :: u32) = word_of_int (sint u)"
  by (rule bit_word_eqI; auto simp: bit_simps)+

lemma small_int:
  "- 128 \<le> k \<Longrightarrow> k \<le> 127 \<Longrightarrow> sint (word_of_int k :: u8) = k"
  "0 \<le> k \<Longrightarrow> k \<le> 255 \<Longrightarrow> uint (word_of_int k :: u8) = k"
  "- 32768 \<le> k \<Longrightarrow> k \<le> 32767 \<Longrightarrow> sint (word_of_int k :: u16) = k"
  "0 \<le> k \<Longrightarrow> k \<le> 65535 \<Longrightarrow> uint (word_of_int k :: u16) = k"
  "- 2147483648 \<le> k \<Longrightarrow> k \<le> 2147483647 \<Longrightarrow> sint (word_of_int k :: u32) = k"
  "0 \<le> k \<Longrightarrow> k \<le> 4294967295 \<Longrightarrow> uint (word_of_int k :: u32) = k"
  by (simp_all add: sint_sbintrunc' signed_take_bit_int_eq_self uint_word_of_int)

lemmas cut_int = small_int [of "sint u" for u :: u64, folded ucast_of_sint]

lemma uint_u64: "uint (u :: u64) = sint u mod 2 ^ 64"
  by (simp add: uint_sint take_bit_eq_mod)

text \<open>What a driver hands to its plugin for an integer, read back in the order of the tag.\<close>

definition int_accepted :: "neu_type_e \<Rightarrow> int \<Rightarrow> bool" where
  "int_accepted t x \<longleftrightarrow> (case int_bounds t of None \<Rightarrow> True | Some (lo, hi) \<Rightarrow> lo \<le> x \<and> x \<le> hi)"

lemma fix_value_int:
  assumes t: "dt_type tag \<in> int_types" and v: "dv_type value = NEU_TYPE_INT64" "length (dv_value value) = sizeof_value"
    and x: "int_accepted (dt_type tag) (value_i64 (dv_value value))"
  shows "\<exists>out. fix_value fp new h tag NEU_TYPE_INT64 value = Some (h, out) \<and>
    value_int (dt_type tag) (read_order tag (passed_on (dt_type tag) (dv_value out))) =
      Some (if dt_type tag = NEU_TYPE_UINT64 then value_i64 (dv_value value) mod 2 ^ 64 else value_i64 (dv_value value))"
proof -
  have len: "8 \<le> length (dv_value value)" using v by (simp add: sizeof_value_def)
  have set16: "value_u16 (set_value_u16 y w) = y" if "8 \<le> length w" for y w
    using that by (simp add: value_u16_def set_value_u16_def byte_simps)
  have set32: "value_u32 (set_value_u32 y w) = y" if "8 \<le> length w" for y w
    using that by (simp add: value_u32_def set_value_u32_def byte_simps)
  have len16: "8 \<le> length (set_value_u16 y w)" and len32: "8 \<le> length (set_value_u32 z w)" if "8 \<le> length w" for y z w
    using that by (simp_all add: set_value_u16_def set_value_u32_def)
  consider "dt_type tag = NEU_TYPE_INT8" | "dt_type tag = NEU_TYPE_UINT8" | "dt_type tag = NEU_TYPE_INT16"
    | "dt_type tag = NEU_TYPE_UINT16" | "dt_type tag = NEU_TYPE_INT32" | "dt_type tag = NEU_TYPE_UINT32"
    | "dt_type tag = NEU_TYPE_INT64" | "dt_type tag = NEU_TYPE_UINT64"
    using t by (auto simp: int_types_def)
  then show ?thesis
    by cases (use x len in \<open>simp_all add: fix_value_def value_int_def read_order_def tag_order16_passed tag_order32_passed tag_order64_passed
      value_u8_passed set16 set32 int_accepted_def value_i64_def cut_int uint_u64 len16 len32 Let_def\<close>)
qed



text \<open>An instance: the number 258 in a big-endian tag of 16 bits.\<close>

definition no_fp :: fp_ops where
  "no_fp = \<lparr>fp_of_int = word_of_int, fp_to_i64 = id, fp_to_u64 = id, fp_of_f32 = ucast, fp_to_f32 = ucast,
     fp_f32_of_int = word_of_int, fp_add = (+), fp_sub = (-), fp_mul = (*), fp_div = (div), fp_lt = (<), fp_round = id,
     fp_ceil = id, fp_floor = id, fp_fabs = id, fp_flt_min_i64 = 0, fp_flt_max_i64 = 0\<rparr>"

definition big_tag :: "neu_type_e \<Rightarrow> neu_datatag" where
  "big_tag t = zero_tag\<lparr>dt_name := ''t'', dt_type := t, dt_option := opt_set_endian NEU_DATATAG_ENDIAN_B16 zero_option\<rparr>"

definition sample_number :: neu_dvalue where
  "sample_number = typed_value NEU_TYPE_INT64 (set_value_u64 258 zero_value)"

lemma sample_number:
  "dv_type sample_number = NEU_TYPE_INT64" "length (dv_value sample_number) = sizeof_value"
  "value_u64 (dv_value sample_number) = 258" "value_i64 (dv_value sample_number) = 258"
  by (simp_all add: sample_number_def typed_value_def value_set_get value_i64_def)

lemma big_tag [simp]:
  "dt_type (big_tag t) = t" "dt_name (big_tag t) = ''t''" "dt_decimal (big_tag t) = 0" "dt_bias (big_tag t) = 0"
  "opt_endian (dt_option (big_tag t)) = endian_code NEU_DATATAG_ENDIAN_B16"
  by (simp_all add: big_tag_def zero_tag_def opt_endian_def opt_set_endian_def zero_option_def sizeof_option_def byte_simps
      del: endian_code.simps)

lemma f64_zero [simp]: "\<not> f64_ne 0 0"
  by (simp add: f64_ne_def)



end
