(* ===== verification/Tag_Group.thy ===== *)
theory Tag_Group
  imports Datatag Uthash
begin

unbundle bit_operations_syntax

text \<open>
  The tag group of \<^verbatim>\<open>src/base/group.c\<close>. Its tags are in a hash table by name, which is taken
  here as the list of its elements in the order of insertion. The clock is an argument \<open>tv\<close>,
  seconds and microseconds as \<^verbatim>\<open>gettimeofday\<close> gives them, and \<open>mem i\<close> says whether the allocation
  number \<open>i\<close> of a call succeeds. The mutex makes every operation atomic.
\<close>

section \<open>Groups\<close>

record tag_elem =
  te_name :: string
  te_tag :: neu_datatag
  te_order :: u64

record neu_group =
  gr_name :: string
  gr_tags :: "tag_elem list"
  gr_next_tag_order :: u64
  gr_interval :: u32
  gr_timestamp :: u64

definition tag_order_cmp :: "tag_elem \<Rightarrow> tag_elem \<Rightarrow> int" where
  "tag_order_cmp left right =
     of_bool (te_order left > te_order right) - of_bool (te_order left < te_order right)"

definition neu_group_new :: "(nat \<Rightarrow> bool) \<Rightarrow> string \<Rightarrow> u32 \<Rightarrow> neu_group option" where
  "neu_group_new mem name interval =
     (if \<not> mem 0 then None
      else if \<not> mem 1 then None
      else Some \<lparr>gr_name = name, gr_tags = [], gr_next_tag_order = 0, gr_interval = interval, gr_timestamp = 0\<rparr>)"

definition update_timestamp :: "int \<times> int \<Rightarrow> neu_group \<Rightarrow> neu_group" where
  "update_timestamp tv grp =
     grp\<lparr>gr_timestamp := word_of_int (fst tv) * 1000 * 1000 + word_of_int (snd tv)\<rparr>"

text \<open>An array of tags copies every element that is pushed.\<close>

definition push_tag :: "neu_datatag \<Rightarrow> neu_datatag list \<Rightarrow> neu_datatag list" where
  "push_tag tag array = array @ [tag_array_copy zero_tag tag]"

definition to_array :: "tag_elem list \<Rightarrow> neu_datatag list" where
  "to_array tags = fold (\<lambda>el. push_tag (te_tag el)) tags []"

definition neu_group_set_name :: "(nat \<Rightarrow> bool) \<Rightarrow> neu_group \<Rightarrow> string option \<Rightarrow> neu_err \<times> neu_group" where
  "neu_group_set_name mem grp name =
     (case name of
        None \<Rightarrow> (NEU_ERR_EINTERNAL, grp)
      | Some name \<Rightarrow> if \<not> mem 0 then (NEU_ERR_EINTERNAL, grp) else (0, grp\<lparr>gr_name := name\<rparr>))"

definition neu_group_check_name :: "neu_group \<Rightarrow> string \<Rightarrow> neu_err" where
  "neu_group_check_name grp name =
     (if ulist_find te_name (gr_tags grp) name \<noteq> None then NEU_ERR_TAG_NAME_CONFLICT else NEU_ERR_SUCCESS)"

definition neu_group_set_interval :: "neu_group \<Rightarrow> u32 \<Rightarrow> neu_group" where
  "neu_group_set_interval grp interval = grp\<lparr>gr_interval := interval\<rparr>"

definition neu_group_update :: "int \<times> int \<Rightarrow> neu_group \<Rightarrow> u32 \<Rightarrow> neu_err \<times> neu_group" where
  "neu_group_update tv grp interval =
     (0, if gr_interval grp \<noteq> interval then update_timestamp tv (grp\<lparr>gr_interval := interval\<rparr>) else grp)"

definition neu_group_add_tag :: "(nat \<Rightarrow> bool) \<Rightarrow> int \<times> int \<Rightarrow> neu_group \<Rightarrow> neu_datatag \<Rightarrow> neu_err \<times> neu_group" where
  "neu_group_add_tag mem tv grp tag =
     (case ulist_find te_name (gr_tags grp) (dt_name tag) of
        Some _ \<Rightarrow> (NEU_ERR_TAG_NAME_CONFLICT, grp)
      | None \<Rightarrow>
          if \<not> mem 0 then (NEU_ERR_EINTERNAL, grp)
          else case (mem 1, neu_tag_dup (mem 2) tag) of
            (True, Some dup) \<Rightarrow>
              let el = \<lparr>te_name = dt_name tag, te_tag = dup, te_order = gr_next_tag_order grp\<rparr>;
                  grp = grp\<lparr>gr_next_tag_order := gr_next_tag_order grp + 1\<rparr>;
                  grp = grp\<lparr>gr_tags := ulist_add el (gr_tags grp)\<rparr>
              in (0, update_timestamp tv grp)
          | _ \<Rightarrow> (NEU_ERR_EINTERNAL, grp))"

text \<open>What is stored in an element through a pointer to it.\<close>

definition set_elem :: "tag_elem \<Rightarrow> tag_elem \<Rightarrow> tag_elem list \<Rightarrow> tag_elem list" where
  "set_elem old new tags = map (\<lambda>e. if e = old then new else e) tags"

definition neu_group_update_tag :: "int \<times> int \<Rightarrow> neu_group \<Rightarrow> neu_datatag \<Rightarrow> neu_err \<times> neu_group" where
  "neu_group_update_tag tv grp tag =
     (case ulist_find te_name (gr_tags grp) (dt_name tag) of
        None \<Rightarrow> (NEU_ERR_TAG_NOT_EXIST, grp)
      | Some el \<Rightarrow>
          let grp = grp\<lparr>gr_tags := set_elem el (el\<lparr>te_tag := tag_array_copy (te_tag el) tag\<rparr>) (gr_tags grp)\<rparr>
          in (NEU_ERR_SUCCESS, update_timestamp tv grp))"

definition neu_group_rename_tag :: "(nat \<Rightarrow> bool) \<Rightarrow> int \<times> int \<Rightarrow> neu_group \<Rightarrow> string \<Rightarrow> string \<Rightarrow> (neu_err \<times> neu_group) option" where
  "neu_group_rename_tag mem tv grp old_name new_name =
     (case ulist_find te_name (gr_tags grp) old_name of
        None \<Rightarrow> Some (NEU_ERR_TAG_NOT_EXIST, grp)
      | Some el \<Rightarrow>
          if old_name = new_name then Some (NEU_ERR_SUCCESS, grp)
          else if ulist_find te_name (gr_tags grp) new_name \<noteq> None then Some (NEU_ERR_TAG_NAME_CONFLICT, grp)
          else if \<not> mem 0 \<or> \<not> mem 1 then Some (NEU_ERR_EINTERNAL, grp)
          else case ulist_del el (gr_tags grp) of
            None \<Rightarrow> None
          | Some tags \<Rightarrow>
              let el = el\<lparr>te_name := new_name\<rparr>; el = el\<lparr>te_tag := (te_tag el)\<lparr>dt_name := new_name\<rparr>\<rparr>;
                  grp = grp\<lparr>gr_tags := ulist_add_inorder tag_order_cmp el tags\<rparr>
              in Some (NEU_ERR_SUCCESS, update_timestamp tv grp))"

definition neu_group_del_tag :: "int \<times> int \<Rightarrow> neu_group \<Rightarrow> string \<Rightarrow> (neu_err \<times> neu_group) option" where
  "neu_group_del_tag tv grp tag_name =
     (case ulist_find te_name (gr_tags grp) tag_name of
        None \<Rightarrow> Some (NEU_ERR_TAG_NOT_EXIST, grp)
      | Some el \<Rightarrow>
          case ulist_del el (gr_tags grp) of
            None \<Rightarrow> None
          | Some tags \<Rightarrow> Some (NEU_ERR_SUCCESS, update_timestamp tv (grp\<lparr>gr_tags := tags\<rparr>)))"

definition neu_group_get_tag :: "neu_group \<Rightarrow> neu_datatag list" where
  "neu_group_get_tag grp = to_array (gr_tags grp)"

definition neu_group_tag_size :: "neu_group \<Rightarrow> u16" where
  "neu_group_tag_size grp = of_nat (length (gr_tags grp))"

definition neu_group_find_tag :: "(nat \<Rightarrow> bool) \<Rightarrow> neu_group \<Rightarrow> string \<Rightarrow> neu_datatag option" where
  "neu_group_find_tag mem grp tag =
     (case ulist_find te_name (gr_tags grp) tag of None \<Rightarrow> None | Some el \<Rightarrow> neu_tag_dup (mem 0) (te_tag el))"

definition neu_group_is_change :: "neu_group \<Rightarrow> u64 \<Rightarrow> bool" where
  "neu_group_is_change grp timestamp \<longleftrightarrow> gr_timestamp grp \<noteq> timestamp"

text \<open>What the callback is given, if it is called.\<close>

definition neu_group_change_test :: "neu_group \<Rightarrow> u64 \<Rightarrow> (u64 \<times> neu_datatag list \<times> u32) option" where
  "neu_group_change_test grp timestamp =
     (if gr_timestamp grp \<noteq> timestamp
      then Some (gr_timestamp grp, to_array (gr_tags grp), gr_interval grp) else None)"

section \<open>Queries\<close>

definition is_readable :: "neu_datatag \<Rightarrow> bool" where
  "is_readable tag \<longleftrightarrow>
     neu_tag_attribute_test tag NEU_ATTRIBUTE_READ \<or> neu_tag_attribute_test tag NEU_ATTRIBUTE_SUBSCRIBE"

definition name_contains :: "string \<Rightarrow> neu_datatag \<Rightarrow> bool" where
  "name_contains name tag \<longleftrightarrow>
     strstr (dt_name tag) name \<or> (case dt_description tag of None \<Rightarrow> False | Some d \<Rightarrow> strstr d name)"

definition description_contains :: "string \<Rightarrow> neu_datatag \<Rightarrow> bool" where
  "description_contains str tag \<longleftrightarrow> (case dt_description tag of None \<Rightarrow> False | Some d \<Rightarrow> strstr d str)"

text \<open>The pointer and the length \<^verbatim>\<open>n_tagname\<close> of the array of names are a list.\<close>

record query =
  q_name :: "string option"
  q_desc :: "string option"
  q_tagnames :: "string list"

definition match_query :: "query \<Rightarrow> neu_datatag \<Rightarrow> bool" where
  "match_query q tag =
     (let filter = (case q_name q of None \<Rightarrow> True | Some name \<Rightarrow> name_contains name tag) \<and>
                   (case q_desc q of None \<Rightarrow> True | Some desc \<Rightarrow> description_contains desc tag)
      in if filter \<and> q_tagnames q \<noteq> [] then list_ex (\<lambda>name. dt_name tag = name) (q_tagnames q) else filter)"

definition is_readable_and_match_query :: "query \<Rightarrow> neu_datatag \<Rightarrow> bool" where
  "is_readable_and_match_query q tag \<longleftrightarrow> is_readable tag \<and> match_query q tag"

definition filter_tags :: "(neu_datatag \<Rightarrow> bool) \<Rightarrow> tag_elem list \<Rightarrow> neu_datatag list" where
  "filter_tags predicate tags =
     fold (\<lambda>el array. if predicate (te_tag el) then push_tag (te_tag el) array else array) tags []"

text \<open>An index that leaves the range of \<^verbatim>\<open>int\<close> is undefined: \<open>None\<close>.\<close>

definition in_int :: "int \<Rightarrow> bool" where
  "in_int i \<longleftrightarrow> - (2 ^ 31) \<le> i \<and> i < 2 ^ 31"

definition page_step :: "(neu_datatag \<Rightarrow> bool) \<Rightarrow> int \<Rightarrow> int \<Rightarrow> tag_elem \<Rightarrow>
    neu_datatag list \<times> int \<Rightarrow> neu_datatag list \<times> int" where
  "page_step predicate start_index end_index el acc =
     (let (array, count) = acc
      in if predicate (te_tag el)
         then (if count \<ge> start_index \<and> count < end_index then push_tag (te_tag el) array else array, count + 1)
         else acc)"

definition filter_tags_by_page :: "(neu_datatag \<Rightarrow> bool) \<Rightarrow> tag_elem list \<Rightarrow> int \<Rightarrow> int \<Rightarrow>
    (neu_datatag list \<times> int) option" where
  "filter_tags_by_page predicate tags current_page page_size =
     (let start_index = (current_page - 1) * page_size; end_index = start_index + page_size
      in if \<not> in_int (current_page - 1) \<or> \<not> in_int start_index \<or> \<not> in_int end_index then None
         else Some (fold (page_step predicate start_index end_index) tags ([], 0)))"

definition neu_group_query_tag :: "neu_group \<Rightarrow> string \<Rightarrow> neu_datatag list" where
  "neu_group_query_tag grp name = filter_tags (name_contains name) (gr_tags grp)"

definition neu_group_query_read_tag :: "neu_group \<Rightarrow> string option \<Rightarrow> string option \<Rightarrow> string list \<Rightarrow> neu_datatag list" where
  "neu_group_query_read_tag grp name desc tagnames =
     filter_tags (is_readable_and_match_query \<lparr>q_name = name, q_desc = desc, q_tagnames = tagnames\<rparr>) (gr_tags grp)"

definition neu_group_query_read_tag_paginate :: "neu_group \<Rightarrow> string option \<Rightarrow> string option \<Rightarrow> int \<Rightarrow> int \<Rightarrow>
    (neu_datatag list \<times> int) option" where
  "neu_group_query_read_tag_paginate grp name desc current_page page_size =
     filter_tags_by_page (match_query \<lparr>q_name = name, q_desc = desc, q_tagnames = []\<rparr>) (gr_tags grp)
       current_page page_size"

definition neu_group_get_read_tag :: "neu_group \<Rightarrow> neu_datatag list" where
  "neu_group_get_read_tag grp = filter_tags is_readable (gr_tags grp)"

section \<open>A group as a list of tags\<close>

text \<open>
  The invariant: names are distinct, an element and its tag have the same name, and the elements
  are in the order of their numbers.
\<close>

definition tags_inv :: "neu_group \<Rightarrow> bool" where
  "tags_inv g \<longleftrightarrow> distinct (map te_name (gr_tags g)) \<and> (\<forall>e \<in> set (gr_tags g). te_name e = dt_name (te_tag e)) \<and>
     sorted_wrt (\<lambda>a b. te_order a < te_order b) (gr_tags g) \<and> (\<forall>e \<in> set (gr_tags g). te_order e < gr_next_tag_order g)"

definition group_abs :: "neu_group \<Rightarrow> neu_datatag list" where
  "group_abs g = map te_tag (gr_tags g)"

datatype group_op =
    Add_tag neu_datatag | Update_tag neu_datatag | Rename_tag string string | Del_tag string
  | Update_interval u32

definition group_step :: "(nat \<Rightarrow> bool) \<Rightarrow> int \<times> int \<Rightarrow> group_op \<Rightarrow> neu_group \<Rightarrow> (neu_err \<times> neu_group) option" where
  "group_step mem tv op g =
     (case op of
        Add_tag tag \<Rightarrow> Some (neu_group_add_tag mem tv g tag)
      | Update_tag tag \<Rightarrow> Some (neu_group_update_tag tv g tag)
      | Rename_tag old_name new_name \<Rightarrow> neu_group_rename_tag mem tv g old_name new_name
      | Del_tag name \<Rightarrow> neu_group_del_tag tv g name
      | Update_interval interval \<Rightarrow> Some (neu_group_update tv g interval))"

text \<open>The specification: a list of tags with distinct names.\<close>

definition spec_step :: "bool \<Rightarrow> group_op \<Rightarrow> neu_datatag list \<Rightarrow> neu_err \<times> neu_datatag list" where
  "spec_step memory op ts =
     (case op of
        Add_tag tag \<Rightarrow>
          if dt_name tag \<in> dt_name ` set ts then (NEU_ERR_TAG_NAME_CONFLICT, ts)
          else if \<not> memory then (NEU_ERR_EINTERNAL, ts)
          else (NEU_ERR_SUCCESS, ts @ [tag_array_copy zero_tag tag])
      | Update_tag tag \<Rightarrow>
          if dt_name tag \<notin> dt_name ` set ts then (NEU_ERR_TAG_NOT_EXIST, ts)
          else (NEU_ERR_SUCCESS, map (\<lambda>t. if dt_name t = dt_name tag then tag_array_copy t tag else t) ts)
      | Rename_tag old_name new_name \<Rightarrow>
          if old_name \<notin> dt_name ` set ts then (NEU_ERR_TAG_NOT_EXIST, ts)
          else if old_name = new_name then (NEU_ERR_SUCCESS, ts)
          else if new_name \<in> dt_name ` set ts then (NEU_ERR_TAG_NAME_CONFLICT, ts)
          else if \<not> memory then (NEU_ERR_EINTERNAL, ts)
          else (NEU_ERR_SUCCESS, map (\<lambda>t. if dt_name t = old_name then t\<lparr>dt_name := new_name\<rparr> else t) ts)
      | Del_tag name \<Rightarrow>
          if name \<notin> dt_name ` set ts then (NEU_ERR_TAG_NOT_EXIST, ts)
          else (NEU_ERR_SUCCESS, filter (\<lambda>t. dt_name t \<noteq> name) ts)
      | Update_interval _ \<Rightarrow> (NEU_ERR_SUCCESS, ts))"

fun group_run :: "((nat \<Rightarrow> bool) \<times> (int \<times> int) \<times> group_op) list \<Rightarrow> neu_group \<Rightarrow> (neu_err list \<times> neu_group) option" where
  "group_run [] g = Some ([], g)"
| "group_run ((mem, tv, op) # ops) g =
     (case group_step mem tv op g of
        None \<Rightarrow> None
      | Some (rc, g) \<Rightarrow> map_option (\<lambda>(rcs, g). (rc # rcs, g)) (group_run ops g))"

text \<open>A call finds memory when the allocations it makes succeed: three for adding, two for renaming.\<close>

definition has_memory :: "(nat \<Rightarrow> bool) \<Rightarrow> group_op \<Rightarrow> bool" where
  "has_memory mem op = (case op of Add_tag _ \<Rightarrow> mem 0 \<and> mem 1 \<and> mem 2 | _ \<Rightarrow> mem 0 \<and> mem 1)"

fun spec_run :: "((nat \<Rightarrow> bool) \<times> (int \<times> int) \<times> group_op) list \<Rightarrow> neu_datatag list \<Rightarrow> neu_err list \<times> neu_datatag list" where
  "spec_run [] ts = ([], ts)"
| "spec_run ((mem, tv, op) # ops) ts =
     (let (rc, ts) = spec_step (has_memory mem op) op ts; (rcs, ts) = spec_run ops ts in (rc # rcs, ts))"

lemma find_tag_elem:
  assumes "tags_inv g"
  shows "ulist_find te_name (gr_tags g) n = None \<longleftrightarrow> n \<notin> dt_name ` set (group_abs g)"
    and "ulist_find te_name (gr_tags g) n = Some el \<longleftrightarrow> el \<in> set (gr_tags g) \<and> te_name el = n"
  using assms ulist.find_None [of te_name "gr_tags g" n] ulist.find_Some [of te_name "gr_tags g" n el]
  by (auto simp: tags_inv_def group_abs_def image_iff)

lemma elem_unique:
  assumes "tags_inv g" and "el \<in> set (gr_tags g)" and "e \<in> set (gr_tags g)"
  shows "e = el \<longleftrightarrow> te_name e = te_name el"
proof -
  have "inj_on te_name (set (gr_tags g))" using assms(1) by (simp add: tags_inv_def distinct_map)
  then show ?thesis using assms(2,3) by (auto dest: inj_onD)
qed

lemma names_kept:
  assumes "tags_inv g" and "\<And>e. e \<in> set (gr_tags g) \<Longrightarrow> te_name (f e) = te_name e \<and> te_order (f e) = te_order e \<and>
    dt_name (te_tag (f e)) = te_name e"
  shows "tags_inv (g\<lparr>gr_tags := map f (gr_tags g)\<rparr>)"
proof -
  have "map te_name (map f (gr_tags g)) = map te_name (gr_tags g)" using assms(2) by simp
  then show ?thesis
    using assms by (auto simp: tags_inv_def sorted_wrt_map simp del: map_map elim!: sorted_wrt_mono_rel [rotated])
qed

lemma tags_inv_timestamp [simp]: "tags_inv (update_timestamp tv g) = tags_inv g" "group_abs (update_timestamp tv g) = group_abs g"
  "gr_next_tag_order (update_timestamp tv g) = gr_next_tag_order g" "gr_tags (update_timestamp tv g) = gr_tags g"
  by (simp_all add: update_timestamp_def tags_inv_def group_abs_def)

lemma tag_array_copy_name [simp]: "dt_name (tag_array_copy t s) = dt_name s"
  by (simp add: tag_array_copy_def)

lemma add_refines:
  assumes inv: "tags_inv g" and room: "gr_next_tag_order g \<noteq> - 1"
  shows "\<exists>rc g'. neu_group_add_tag mem tv g tag = (rc, g') \<and> tags_inv g' \<and>
    (rc, group_abs g') = spec_step (has_memory mem (Add_tag tag)) (Add_tag tag) (group_abs g) \<and>
    unat (gr_next_tag_order g') \<le> Suc (unat (gr_next_tag_order g))"
proof (cases "ulist_find te_name (gr_tags g) (dt_name tag)")
  case None
  then have new: "dt_name tag \<notin> dt_name ` set (group_abs g)" using find_tag_elem(1) [OF inv] by simp
  let ?el = "\<lparr>te_name = dt_name tag, te_tag = tag_array_copy zero_tag tag, te_order = gr_next_tag_order g\<rparr>"
  have "1 + gr_next_tag_order g \<noteq> 0" using room by (metis add.commute eq_neg_iff_add_eq_0)
  then have suc: "unat (gr_next_tag_order g + 1) = Suc (unat (gr_next_tag_order g))"
    using unatSuc by (metis add.commute)
  then have less: "gr_next_tag_order g < gr_next_tag_order g + 1" by (simp add: word_less_nat_alt)
  have "tags_inv (g\<lparr>gr_next_tag_order := gr_next_tag_order g + 1, gr_tags := gr_tags g @ [?el]\<rparr>)"
    using inv new less by (auto simp: tags_inv_def sorted_wrt_append group_abs_def image_iff dest: less_trans)
  then show ?thesis
    using None new suc
    by (auto simp: neu_group_add_tag_def spec_step_def has_memory_def neu_tag_dup_def ulist_add_def Let_def inv
        group_abs_def split: bool.split)
next
  case (Some el)
  with find_tag_elem(1) [OF inv, of "dt_name tag"] inv show ?thesis by (simp add: neu_group_add_tag_def spec_step_def)
qed

lemma update_refines:
  assumes inv: "tags_inv g"
  shows "\<exists>rc g'. neu_group_update_tag tv g tag = (rc, g') \<and> tags_inv g' \<and>
    (rc, group_abs g') = spec_step m (Update_tag tag) (group_abs g) \<and> gr_next_tag_order g' = gr_next_tag_order g"
proof (cases "ulist_find te_name (gr_tags g) (dt_name tag)")
  case None
  with find_tag_elem(1) [OF inv, of "dt_name tag"] None inv show ?thesis by (simp add: neu_group_update_tag_def spec_step_def)
next
  case (Some el)
  then have el: "el \<in> set (gr_tags g)" "te_name el = dt_name tag" using find_tag_elem(2) [OF inv] by simp_all
  let ?f = "\<lambda>e. if e = el then el\<lparr>te_tag := tag_array_copy (te_tag el) tag\<rparr> else e"
  have "tags_inv (g\<lparr>gr_tags := map ?f (gr_tags g)\<rparr>)"
    by (rule names_kept [OF inv]) (use el inv in \<open>auto simp: tags_inv_def\<close>)
  moreover have "map te_tag (map ?f (gr_tags g)) =
      map (\<lambda>t. if dt_name t = dt_name tag then tag_array_copy t tag else t) (map te_tag (gr_tags g))"
    using elem_unique [OF inv el(1)] el(2) inv by (auto simp: tags_inv_def)
  moreover have "dt_name tag \<in> dt_name ` set (group_abs g)"
    using Some find_tag_elem(1) [OF inv, of "dt_name tag"] by auto
  ultimately show ?thesis using Some
    by (simp add: neu_group_update_tag_def spec_step_def set_elem_def group_abs_def)
qed

lemma del_refines:
  assumes inv: "tags_inv g"
  shows "\<exists>rc g'. neu_group_del_tag tv g name = Some (rc, g') \<and> tags_inv g' \<and>
    (rc, group_abs g') = spec_step m (Del_tag name) (group_abs g) \<and> gr_next_tag_order g' = gr_next_tag_order g"
proof (cases "ulist_find te_name (gr_tags g) name")
  case None
  with find_tag_elem(1) [OF inv, of name] None inv show ?thesis by (simp add: neu_group_del_tag_def spec_step_def)
next
  case (Some el)
  then have el: "el \<in> set (gr_tags g)" "te_name el = name" using find_tag_elem(2) [OF inv] by simp_all
  have r: "remove1 el (gr_tags g) = filter (\<lambda>e. te_name e \<noteq> name) (gr_tags g)"
  proof -
    have "distinct (gr_tags g)" using inv by (simp add: tags_inv_def distinct_map)
    then have "remove1 el (gr_tags g) = filter (\<lambda>e. el \<noteq> e) (gr_tags g)"
      by (simp add: distinct_remove1_removeAll removeAll_filter_not_eq)
    also have "\<dots> = filter (\<lambda>e. te_name e \<noteq> name) (gr_tags g)"
      by (rule filter_cong [OF refl]) (use elem_unique [OF inv el(1)] el(2) in auto)
    finally show ?thesis .
  qed
  have "tags_inv (g\<lparr>gr_tags := filter (\<lambda>e. te_name e \<noteq> name) (gr_tags g)\<rparr>)"
    using inv by (auto simp: tags_inv_def distinct_map_filter sorted_wrt_filter)
  moreover have "map te_tag (filter (\<lambda>e. te_name e \<noteq> name) (gr_tags g)) =
      filter (\<lambda>t. dt_name t \<noteq> name) (map te_tag (gr_tags g))"
    using inv by (auto simp: tags_inv_def filter_map comp_def intro!: arg_cong [where f = "map te_tag"] filter_cong)
  moreover have "name \<in> dt_name ` set (group_abs g)"
    using Some find_tag_elem(1) [OF inv, of name] by auto
  ultimately show ?thesis using Some el(1) r
    by (simp add: neu_group_del_tag_def spec_step_def ulist_del_def group_abs_def)
qed

lemma insert_back:
  assumes "sorted_wrt (\<lambda>a b. te_order a < te_order b) xs" and "el \<in> set xs" and "te_order el' = te_order el"
  shows "insert_before tag_order_cmp el' (remove1 el xs) = map (\<lambda>e. if e = el then el' else e) xs"
  using assms(1,2)
proof (induction xs)
  case (Cons x xs)
  show ?case
  proof (cases "x = el")
    case True
    have "el \<notin> set xs" using Cons.prems True by auto
    then have "map (\<lambda>e. if e = el then el' else e) xs = xs" by (auto intro: map_idI)
    then show ?thesis using Cons.prems True assms(3) by (cases xs) (auto simp: tag_order_cmp_def)
  next
    case False
    then have "te_order x < te_order el'" using Cons.prems assms(3) by auto
    then show ?thesis using Cons False by (simp add: tag_order_cmp_def)
  qed
qed simp

lemma rename_inv:
  assumes inv: "tags_inv g" and el: "el \<in> set (gr_tags g)" and new: "new \<notin> dt_name ` set (group_abs g)"
  shows "tags_inv (g\<lparr>gr_tags :=
    map (\<lambda>e. if e = el then el\<lparr>te_name := new, te_tag := (te_tag el)\<lparr>dt_name := new\<rparr>\<rparr> else e) (gr_tags g)\<rparr>)"
proof -
  let ?f = "\<lambda>e. if e = el then el\<lparr>te_name := new, te_tag := (te_tag el)\<lparr>dt_name := new\<rparr>\<rparr> else e"
  have "inj_on te_name (set (gr_tags g))" "distinct (gr_tags g)"
    using inv by (simp_all add: tags_inv_def distinct_map)
  moreover have "te_name e \<noteq> new" if "e \<in> set (gr_tags g)" for e
    using new inv that by (auto simp: tags_inv_def group_abs_def)
  ultimately have "distinct (map te_name (map ?f (gr_tags g)))"
    by (auto simp: distinct_map inj_on_def)
  then show ?thesis using inv
    by (auto simp: tags_inv_def sorted_wrt_map simp del: map_map elim!: sorted_wrt_mono_rel [rotated])
qed

lemma rename_refines:
  assumes inv: "tags_inv g"
  shows "\<exists>rc g'. neu_group_rename_tag mem tv g old new = Some (rc, g') \<and> tags_inv g' \<and>
    (rc, group_abs g') = spec_step (has_memory mem (Rename_tag old new)) (Rename_tag old new) (group_abs g) \<and>
    gr_next_tag_order g' = gr_next_tag_order g"
proof (cases "ulist_find te_name (gr_tags g) old")
  case None
  with find_tag_elem(1) [OF inv, of old] None inv show ?thesis by (simp add: neu_group_rename_tag_def spec_step_def)
next
  case (Some el)
  then have el: "el \<in> set (gr_tags g)" "te_name el = old" using find_tag_elem(2) [OF inv] by simp_all
  have old: "old \<in> dt_name ` set (group_abs g)" using Some find_tag_elem(1) [OF inv, of old] by auto
  show ?thesis
  proof (cases "old = new \<or> ulist_find te_name (gr_tags g) new \<noteq> None \<or> \<not> mem 0 \<or> \<not> mem 1")
    case True
    then show ?thesis using Some inv old find_tag_elem(1) [OF inv, of new]
      by (auto simp: neu_group_rename_tag_def spec_step_def has_memory_def)
  next
    case False
    let ?el = "el\<lparr>te_name := new, te_tag := (te_tag el)\<lparr>dt_name := new\<rparr>\<rparr>"
    let ?f = "\<lambda>e. if e = el then ?el else e"
    have new: "new \<notin> dt_name ` set (group_abs g)" using False find_tag_elem(1) [OF inv, of new] by simp
    have ins: "insert_before tag_order_cmp ?el (remove1 el (gr_tags g)) = map ?f (gr_tags g)"
      by (rule insert_back) (use inv el in \<open>auto simp: tags_inv_def\<close>)
    have "tags_inv (g\<lparr>gr_tags := map ?f (gr_tags g)\<rparr>)"
      by (rule rename_inv [OF inv el(1) new])
    moreover have "map te_tag (map ?f (gr_tags g)) =
        map (\<lambda>t. if dt_name t = old then t\<lparr>dt_name := new\<rparr> else t) (map te_tag (gr_tags g))"
      using elem_unique [OF inv el(1)] el(2) inv by (auto simp: tags_inv_def)
    ultimately show ?thesis using Some False el(1) old new ins
      by (simp add: neu_group_rename_tag_def spec_step_def has_memory_def ulist_del_def ulist_add_inorder_def group_abs_def)
  qed
qed

lemma step_refines:
  assumes inv: "tags_inv g" and room: "gr_next_tag_order g \<noteq> - 1"
  shows "\<exists>rc g'. group_step mem tv op g = Some (rc, g') \<and> tags_inv g' \<and>
    (rc, group_abs g') = spec_step (has_memory mem op) op (group_abs g) \<and>
    unat (gr_next_tag_order g') \<le> Suc (unat (gr_next_tag_order g))"
proof (cases op)
  case (Add_tag tag)
  then show ?thesis using add_refines [OF inv room, of mem tv tag] by (simp add: group_step_def)
next
  case (Update_tag tag)
  then show ?thesis using update_refines [OF inv, of tv tag] by (fastforce simp: group_step_def)
next
  case (Rename_tag old new)
  then show ?thesis using rename_refines [OF inv, of mem tv old new] by (fastforce simp: group_step_def)
next
  case (Del_tag name)
  then show ?thesis using del_refines [OF inv, of tv name] by (fastforce simp: group_step_def)
next
  case (Update_interval interval)
  then show ?thesis using inv
    by (simp add: group_step_def neu_group_update_def spec_step_def tags_inv_def group_abs_def)
qed

lemma run_refines:
  assumes "tags_inv g" and "unat (gr_next_tag_order g) + length ops < 2 ^ 64"
  shows "\<exists>g'. group_run ops g = Some (fst (spec_run ops (group_abs g)), g') \<and> tags_inv g' \<and>
    group_abs g' = snd (spec_run ops (group_abs g))"
  using assms
proof (induction ops arbitrary: g)
  case (Cons x ops)
  obtain mem tv op where x: "x = (mem, tv, op)" by (cases x)
  have "gr_next_tag_order g \<noteq> - 1" using Cons.prems(2) by (auto simp: unsigned_minus_1_eq_mask mask_eq_exp_minus_1)
  from step_refines [OF Cons.prems(1) this] obtain rc g' where g': "group_step mem tv op g = Some (rc, g')"
    "tags_inv g'" "spec_step (has_memory mem op) op (group_abs g) = (rc, group_abs g')"
    "unat (gr_next_tag_order g') \<le> Suc (unat (gr_next_tag_order g))" by metis
  have "unat (gr_next_tag_order g') + length ops < 2 ^ 64" using Cons.prems(2) g'(4) by simp
  from Cons.IH [OF g'(2) this] show ?case by (auto simp: x g' split: prod.split)
qed simp

section \<open>Queries and pages\<close>

lemma filter_tags_eq: "filter_tags p tags = map (tag_array_copy zero_tag) (filter p (map te_tag tags))"
proof -
  have "fold (\<lambda>el array. if p (te_tag el) then push_tag (te_tag el) array else array) tags array =
      array @ map (tag_array_copy zero_tag) (filter p (map te_tag tags))" for array
    by (induction tags arbitrary: array) (simp_all add: push_tag_def)
  then show ?thesis by (simp add: filter_tags_def)
qed

lemma page_fold:
  assumes "s \<le> e"
  shows "fold (page_step p s e) tags (array, c) =
    (array @ take (nat (e - c) - nat (s - c)) (drop (nat (s - c)) (filter_tags p tags)),
     c + int (length (filter_tags p tags)))"
proof (induction tags arbitrary: array c)
  case (Cons t tags)
  let ?ms = "filter_tags p tags"
  show ?case
  proof (cases "p (te_tag t)")
    case True
    consider "c < s" | "s \<le> c" "c < e" | "e \<le> c" "s \<le> c" using assms by linarith
    then show ?thesis
    proof cases
      case 1
      then have "nat (s - c) = Suc (nat (s - (c + 1)))" "nat (e - c) = Suc (nat (e - (c + 1)))"
        using assms by simp_all
      then show ?thesis using True 1 Cons by (simp add: page_step_def filter_tags_eq)
    next
      case 2
      then have "nat (s - c) = 0" "nat (s - (c + 1)) = 0" "nat (e - c) = Suc (nat (e - (c + 1)))" by simp_all
      then show ?thesis using True 2 Cons by (simp add: page_step_def filter_tags_eq push_tag_def)
    next
      case 3
      then show ?thesis using True Cons by (simp add: page_step_def filter_tags_eq)
    qed
  next
    case False
    then show ?thesis using Cons by (simp add: page_step_def filter_tags_eq)
  qed
qed (simp add: filter_tags_eq)

lemma page_slice:
  assumes "Suc i * k < 2 ^ 31" and k: "0 < k"
  shows "filter_tags_by_page p tags (int i + 1) (int k) =
    Some (take k (drop (i * k) (filter_tags p tags)), int (length (filter_tags p tags)))"
proof -
  have s: "int i * int k + int k < 2 ^ 31"
    using assms by (metis add.commute mult_Suc of_nat_add of_nat_less_numeral_power_cancel_iff of_nat_mult)
  have "0 \<le> int i * int k" by simp
  with s have "in_int (int i * int k)" "in_int (int i * int k + int k)" unfolding in_int_def by linarith+
  moreover have "int i \<le> int i * int k" using k by (simp add: mult_le_cancel_left1)
  then have "in_int (int i)" using s by (simp add: in_int_def)
  ultimately show ?thesis
    using page_fold [of "int i * int k" "int i * int k + int k" p tags "[]" 0]
    by (simp add: filter_tags_by_page_def Let_def nat_mult_distrib nat_add_distrib)
qed

lemma concat_slices: "length ms \<le> n * k \<Longrightarrow> concat (map (\<lambda>i. take k (drop (i * k) ms)) [0..<n]) = ms"
proof -
  have "concat (map (\<lambda>i. take k (drop (i * k) ms)) [0..<n]) = take (n * k) ms" for n
    by (induction n) (simp_all add: take_add [symmetric] add.commute)
  then show "length ms \<le> n * k \<Longrightarrow> ?thesis" by simp
qed

lemma to_array_eq: "to_array tags = map (\<lambda>el. tag_array_copy zero_tag (te_tag el)) tags"
proof -
  have "fold (\<lambda>el. push_tag (te_tag el)) tags array = array @ map (\<lambda>el. tag_array_copy zero_tag (te_tag el)) tags" for array
    by (induction tags arbitrary: array) (simp_all add: push_tag_def)
  then show ?thesis by (simp add: to_array_def)
qed

lemma find_tag_abs:
  assumes "tags_inv g"
  shows "neu_group_find_tag mem g name =
    (if mem 0 then map_option (tag_array_copy zero_tag) (find (\<lambda>t. dt_name t = name) (group_abs g)) else None)"
proof -
  have "find (\<lambda>t. dt_name t = name) (map te_tag xs) = map_option te_tag (find (\<lambda>e. te_name e = name) xs)"
    if "\<forall>e \<in> set xs. te_name e = dt_name (te_tag e)" for xs
    using that by (induction xs) simp_all
  from this [of "gr_tags g"] show ?thesis
    using assms by (simp add: neu_group_find_tag_def ulist_find_def group_abs_def tags_inv_def neu_tag_dup_def split: option.split)
qed

text \<open>
  C3: A group behaves as an ordered list of tags with distinct names: after any sequence of
  additions, updates, renamings, deletions and changes of the interval, with memory or
  without, the return codes and the tags are those of the specification. A renamed tag stays
  where it was, a failed call changes nothing, and the lookup by name agrees with the list.
\<close>

theorem neu_group_refines:
  assumes "neu_group_new mem name interval = Some g" and "length ops < 2 ^ 64"
  shows "\<exists>g'. group_run ops g = Some (fst (spec_run ops []), g') \<and>
    neu_group_get_tag g' = map (tag_array_copy zero_tag) (snd (spec_run ops [])) \<and>
    distinct (map dt_name (snd (spec_run ops []))) \<and>
    (\<forall>n. neu_group_find_tag (\<lambda>i. True) g' n =
       map_option (tag_array_copy zero_tag) (find (\<lambda>t. dt_name t = n) (snd (spec_run ops []))))"
proof -
  have g: "tags_inv g" "gr_next_tag_order g = 0" "group_abs g = []"
    using assms(1) by (auto simp: neu_group_new_def tags_inv_def group_abs_def split: if_splits)
  from run_refines [OF g(1)] g assms(2) obtain g' where g': "group_run ops g = Some (fst (spec_run ops []), g')"
    "tags_inv g'" "group_abs g' = snd (spec_run ops [])" by auto
  have "map te_name (gr_tags g') = map dt_name (group_abs g')" "distinct (map te_name (gr_tags g'))"
    using g'(2) by (simp_all add: tags_inv_def group_abs_def)
  then have "distinct (map dt_name (snd (spec_run ops [])))" using g'(3) by simp
  moreover have "neu_group_get_tag g' = map (tag_array_copy zero_tag) (snd (spec_run ops []))"
    by (simp add: neu_group_get_tag_def to_array_eq group_abs_def g'(3) [symmetric])
  ultimately show ?thesis using g' find_tag_abs [OF g'(2)] by simp
qed

text \<open>
  C28: Reading the pages of a query one after the other gives every tag that matches, once and
  in order; each page has at most the size asked for and reports the total.
\<close>

theorem paginate_partitions:
  fixes page_size pages :: nat and g :: neu_group and name desc :: "string option"
  defines "page i \<equiv> neu_group_query_read_tag_paginate g name desc (int i + 1) (int page_size)"
    and "matching \<equiv> filter_tags (match_query \<lparr>q_name = name, q_desc = desc, q_tagnames = []\<rparr>) (gr_tags g)"
  assumes "0 < page_size" and "pages * page_size < 2 ^ 31" and "length matching \<le> pages * page_size"
  shows "(\<forall>i < pages. \<exists>array. page i = Some (array, int (length matching)) \<and> length array \<le> page_size) \<and>
    concat (map (\<lambda>i. fst (the (page i))) [0..<pages]) = matching"
proof -
  have slice: "page i = Some (take page_size (drop (i * page_size) matching), int (length matching))" if "i < pages" for i
  proof -
    have "Suc i * page_size \<le> pages * page_size" using that by (simp only: mult_le_mono1 Suc_leI)
    then have "Suc i * page_size < 2 ^ 31" using assms(4) by linarith
    from page_slice [OF this assms(3)] show ?thesis
      by (simp add: page_def matching_def neu_group_query_read_tag_paginate_def)
  qed
  then have "map (\<lambda>i. fst (the (page i))) [0..<pages] = map (\<lambda>i. take page_size (drop (i * page_size) matching)) [0..<pages]"
    by simp
  then have "concat (map (\<lambda>i. fst (the (page i))) [0..<pages]) = matching"
    by (simp only: concat_slices [OF assms(5)])
  then show ?thesis using slice by simp
qed

section \<open>Instances\<close>

theorem neu_group_refines_witness:
  "neu_group_new (\<lambda>i. True) ''g'' 100 =
     Some \<lparr>gr_name = ''g'', gr_tags = [], gr_next_tag_order = 0, gr_interval = 100, gr_timestamp = 0\<rparr> \<and>
   length [(\<lambda>i. True, (1, 0), Add_tag zero_tag), (\<lambda>i. True, (2, 0), Rename_tag '''' ''t'')] < 2 ^ 64 \<and>
   (\<exists>g'. group_run [(\<lambda>i. True, (1, 0), Add_tag zero_tag), (\<lambda>i. True, (2, 0), Rename_tag '''' ''t'')]
       \<lparr>gr_name = ''g'', gr_tags = [], gr_next_tag_order = 0, gr_interval = 100, gr_timestamp = 0\<rparr> = Some ([0, 0], g'))"
  using neu_group_refines [where mem = "\<lambda>i. True" and name = "''g''" and interval = 100 and
      g = "\<lparr>gr_name = ''g'', gr_tags = [], gr_next_tag_order = 0, gr_interval = 100, gr_timestamp = 0\<rparr>" and
      ops = "[(\<lambda>i. True, (1, 0), Add_tag zero_tag), (\<lambda>i. True, (2, 0), Rename_tag '''' ''t'')]"]
  by (auto simp: neu_group_new_def spec_step_def has_memory_def zero_tag_def)

definition sample_group :: neu_group where
  "sample_group =
     \<lparr>gr_name = ''g'', gr_tags = [\<lparr>te_name = '''', te_tag = zero_tag, te_order = 0\<rparr>,
        \<lparr>te_name = ''b'', te_tag = zero_tag\<lparr>dt_name := ''b''\<rparr>, te_order = 1\<rparr>],
      gr_next_tag_order = 2, gr_interval = 100, gr_timestamp = 1\<rparr>"

theorem paginate_partitions_witness:
  "(0::nat) < 1 \<and> 2 * 1 < (2::nat) ^ 31 \<and>
   map dt_name (concat (map (\<lambda>i. fst (the (neu_group_query_read_tag_paginate sample_group None None (int i + 1) (int 1)))) [0..<2])) =
     ['''', ''b'']"
proof -
  have names: "map dt_name (filter_tags (match_query \<lparr>q_name = None, q_desc = None, q_tagnames = []\<rparr>) (gr_tags sample_group)) =
      ['''', ''b'']" (is "map dt_name ?matching = _")
    by (simp add: sample_group_def filter_tags_eq match_query_def tag_array_copy_def zero_tag_def)
  from arg_cong [OF this, of length] have "length ?matching = 2" by simp
  then show ?thesis
    using names paginate_partitions [where g = sample_group and name = None and desc = None and page_size = 1 and pages = 2]
    by (simp del: upt_rec_numeral)
qed

end
