(* ===== verification/Driver.thy ===== *)
theory Driver
  imports Driver_Value Tag_Group
begin

unbundle bit_operations_syntax

text \<open>
  Driver nodes, \<^verbatim>\<open>src/adapter/driver/driver.c\<close>: groups of tags with their timers, tag operations,
  writing, reading and subscriptions. The driver runs any plugin; the functions of the plugin
  are the record \<open>intf\<close>, over its own state \<open>'p\<close> and the data \<open>'u\<close> it attaches to a group. A call
  of the plugin returns the callbacks it makes, in order. Structures that are reached through
  pointers from several places (groups, timers) carry a number for their address, taken from
  \<open>ad_next\<close>. What leaves the node (messages, changes of the stored configuration) is appended
  to \<open>ad_out\<close>. \<open>None\<close> is undefined behaviour: a failed assertion, a null pointer or an error of
  the cache. Each call is one step; tracing, metrics and logs are left out.
\<close>

section \<open>Messages\<close>

text \<open>The type of a message is the constructor of its body.\<close>

record neu_reqresp_head =
  rh_ctx :: u64
  rh_sender :: string
  rh_receiver :: string

definition neu_msg_exchange :: "neu_reqresp_head \<Rightarrow> neu_reqresp_head" where
  "neu_msg_exchange header =
     header\<lparr>rh_sender := strncpy_to (NEU_NODE_NAME_LEN - 1) (rh_receiver header),
            rh_receiver := strncpy_to (NEU_NODE_NAME_LEN - 1) (rh_sender header)\<rparr>"

record neu_resp_group_info =
  gi_name :: string
  gi_tag_count :: u16
  gi_interval :: u32

record neu_resp_add_tag =
  ra_index :: u16
  ra_error :: neu_err
  ra_results :: "(u16 \<times> neu_err) list"

record neu_resp_read_group_paginate =
  rp_driver :: string
  rp_group :: string
  rp_current_page :: int
  rp_page_size :: int
  rp_is_error :: bool
  rp_total_count :: int
  rp_tags :: "neu_resp_tag_value_meta list"

datatype resp_body =
    Body_error neu_err
  | Body_read_group string string "neu_resp_tag_value_meta list"
  | Body_read_group_paginate neu_resp_read_group_paginate
  | Body_write_tags "(string \<times> string \<times> neu_err) list"
  | Body_scan_tags neu_err
  | Body_test_read_tag neu_err
  | Body_add_tag neu_resp_add_tag
  | Body_add_gtag neu_resp_add_tag
  | Body_update_tag neu_resp_add_tag
  | Body_rename_tag neu_err
  | Body_update_driver_group string string string neu_err
  | Body_node_rename string string neu_err
  | Body_get_group "neu_resp_group_info list"
  | Body_get_tag "neu_datatag list"
  | Body_get_node_setting string string
  | Body_node_uninit string
  | Body_driver_action neu_err

record neu_reqresp_trans_data =
  td_driver :: string
  td_group :: string
  td_tags :: "neu_resp_tag_value_meta list"

datatype neu_node_running_state_e =
    NEU_NODE_RUNNING_STATE_INIT | NEU_NODE_RUNNING_STATE_READY
  | NEU_NODE_RUNNING_STATE_RUNNING | NEU_NODE_RUNNING_STATE_STOPPED

text \<open>Addresses of the sockets between the nodes: the name after the leading zero byte.\<close>

type_synonym sockaddr_un = string

datatype node_out =
    Response neu_reqresp_head resp_body
  | Responseto sockaddr_un neu_reqresp_trans_data
  | Store_add_group string string u32
  | Store_update_group string string string u32
  | Store_del_group string string
  | Store_add_tags string string "neu_datatag list"
  | Store_update_tag string string neu_datatag
  | Store_rename_tag string string string string
  | Store_del_tag string string string
  | Store_state string neu_node_running_state_e
  | Store_setting string string

section \<open>Nodes\<close>

datatype neu_na_type_e = NEU_NA_TYPE_DRIVER | NEU_NA_TYPE_APP

text \<open>The functions timers call; \<open>group\<close> of a timer is the address of its group, 0 of \<open>Try_connect\<close>.\<close>

datatype timer_cb = Read_callback | Report_callback | Write_callback | Try_connect

record neu_event_timer =
  tm_id :: nat
  tm_cb :: timer_cb
  tm_group :: nat
  tm_second :: u32
  tm_millisecond :: u32

record neu_plugin_tag_value =
  ptv_tag :: neu_datatag
  ptv_value :: neu_value_u
  ptv_type :: "neu_type_e option"

datatype to_be_write_tag =
    Wt_single neu_reqresp_head neu_datatag neu_value_u
  | Wt_multi neu_reqresp_head "neu_plugin_tag_value list"

record sub_app =
  sa_app :: string
  sa_addr :: sockaddr_un

text \<open>\<open>pg_user_data\<close> is there when the plugin has set \<^verbatim>\<open>group_free\<close>, which removes it.\<close>

record 'u neu_plugin_group =
  pg_group_name :: string
  pg_interval :: u32
  pg_tags :: "neu_datatag list"
  pg_user_data :: "'u option"

record 'u group_t =
  g_addr :: nat
  g_name :: string
  g_timestamp :: u64
  g_group :: neu_group
  g_wt_tags :: "to_be_write_tag list"
  g_report :: "nat option"
  g_read :: "nat option"
  g_write :: "nat option"
  g_apps :: "sub_app list"
  g_grp :: "'u neu_plugin_group"

record ('p, 'u) neu_adapter =
  ad_name :: string
  ad_setting :: "string option"
  ad_state :: neu_node_running_state_e
  ad_type :: neu_na_type_e
  ad_plugin :: 'p
  ad_timer_connect :: "nat option"
  ad_next :: nat
  ad_timers :: "neu_event_timer list"
  ad_out :: "node_out list"
  dr_cache :: neu_driver_cache
  dr_tag_cnt :: u64
  dr_groups :: "'u group_t list"

text \<open>The callbacks a plugin makes.\<close>

datatype plugin_cb =
    Cb_update string "string option" neu_dvalue "neu_tag_meta list"
  | Cb_update_im string "string option" neu_dvalue "neu_tag_meta list"
  | Cb_update_im_f_m string "string option" neu_dvalue "neu_tag_meta list"
  | Cb_write_response neu_reqresp_head neu_err
  | Cb_write_responses neu_reqresp_head "(string \<times> string \<times> neu_err) list"
  | Cb_test_read_tag_response neu_reqresp_head neu_err
  | Cb_scan_tags_response neu_reqresp_head neu_err

record ('p, 'u) neu_plugin_intf_funs =
  pi_connected :: "'p \<Rightarrow> bool"
  pi_start :: "'p \<Rightarrow> 'p \<times> neu_err"
  pi_stop :: "'p \<Rightarrow> 'p \<times> neu_err"
  pi_setting :: "'p \<Rightarrow> string \<Rightarrow> 'p \<times> neu_err"
  pi_init :: "'p \<Rightarrow> bool \<Rightarrow> 'p \<times> neu_err"
  pi_uninit :: "'p \<Rightarrow> 'p \<times> neu_err"
  pi_try_connect :: "('p \<Rightarrow> 'p \<times> neu_err) option"
  pi_validate_tag :: "'p \<Rightarrow> neu_datatag \<Rightarrow> 'p \<times> neu_datatag \<times> neu_err"
  pi_add_tags :: "('p \<Rightarrow> string \<Rightarrow> neu_datatag list \<Rightarrow> 'p \<times> neu_err) option"
  pi_load_tags :: "('p \<Rightarrow> string \<Rightarrow> neu_datatag list \<Rightarrow> 'p \<times> neu_err) option"
  pi_del_tags :: "('p \<Rightarrow> int \<Rightarrow> 'p \<times> neu_err) option"
  pi_group_timer :: "'p \<Rightarrow> 'u neu_plugin_group \<Rightarrow> 'p \<times> 'u neu_plugin_group \<times> plugin_cb list"
  pi_group_sync :: "('p \<Rightarrow> 'u neu_plugin_group \<Rightarrow> 'p \<times> 'u neu_plugin_group \<times> plugin_cb list) option"
  pi_write_tag :: "'p \<Rightarrow> neu_reqresp_head \<Rightarrow> neu_datatag \<Rightarrow> neu_value_u \<Rightarrow> 'p \<times> plugin_cb list"
  pi_write_tags :: "('p \<Rightarrow> neu_reqresp_head \<Rightarrow> neu_plugin_tag_value list \<Rightarrow> 'p \<times> plugin_cb list) option"
  pi_test_read_tag :: "('p \<Rightarrow> neu_reqresp_head \<Rightarrow> neu_datatag \<Rightarrow> 'p \<times> plugin_cb list) option"
  pi_scan_tags :: "('p \<Rightarrow> neu_reqresp_head \<Rightarrow> string \<Rightarrow> string \<Rightarrow> 'p \<times> plugin_cb list) option"
  pi_action :: "('p \<Rightarrow> string \<Rightarrow> 'p \<times> neu_err) option"

text \<open>
  What a step takes from its surroundings: floating point and JSON operations, whether the
  allocations of a call succeed, the wall clock of the groups, \<^verbatim>\<open>global_timestamp\<close>, the addresses
  of new memory blocks, the cache type of the module, the switch \<^verbatim>\<open>sub_filter_err\<close>, whether the
  database stores the new name of a tag, and whether a log category can be made.
\<close>

record env =
  en_fp :: fp_ops
  en_ops :: cache_ops
  en_mem :: "nat \<Rightarrow> bool"
  en_tv :: "int \<times> int"
  en_now :: u64
  en_news :: "nat \<Rightarrow> nat \<Rightarrow> u64"
  en_cache_type :: neu_tag_cache_type_e
  en_sub_filter_err :: bool
  en_stored :: bool
  en_log :: bool

definition emit :: "node_out \<Rightarrow> ('p, 'u) neu_adapter \<Rightarrow> ('p, 'u) neu_adapter" where
  "emit x d = d\<lparr>ad_out := ad_out d @ [x]\<rparr>"

definition respond :: "neu_reqresp_head \<Rightarrow> resp_body \<Rightarrow> ('p, 'u) neu_adapter \<Rightarrow> ('p, 'u) neu_adapter" where
  "respond req body d = emit (Response (neu_msg_exchange req) body) d"

section \<open>Timers\<close>

definition neu_event_add_timer :: "timer_cb \<Rightarrow> nat \<Rightarrow> u32 \<Rightarrow> u32 \<Rightarrow> ('p, 'u) neu_adapter \<Rightarrow> nat \<times> ('p, 'u) neu_adapter" where
  "neu_event_add_timer cb grp second millisecond d =
     (ad_next d, d\<lparr>ad_next := Suc (ad_next d), ad_timers := ad_timers d @
        [\<lparr>tm_id = ad_next d, tm_cb = cb, tm_group = grp, tm_second = second, tm_millisecond = millisecond\<rparr>]\<rparr>)"

definition neu_event_del_timer :: "nat \<Rightarrow> ('p, 'u) neu_adapter \<Rightarrow> ('p, 'u) neu_adapter" where
  "neu_event_del_timer t d = d\<lparr>ad_timers := filter (\<lambda>x. tm_id x \<noteq> t) (ad_timers d)\<rparr>"

text \<open>What is stored in a group through a pointer to it.\<close>

definition set_group :: "'u group_t \<Rightarrow> ('p, 'u) neu_adapter \<Rightarrow> ('p, 'u) neu_adapter" where
  "set_group g d = d\<lparr>dr_groups := map (\<lambda>x. if g_addr x = g_addr g then g else x) (dr_groups d)\<rparr>"

definition start_group_timer :: "'u group_t \<Rightarrow> ('p, 'u) neu_adapter \<Rightarrow> 'u group_t \<times> ('p, 'u) neu_adapter" where
  "start_group_timer grp d =
     (let interval = gr_interval (g_group grp);
          (t1, d) = neu_event_add_timer Read_callback (g_addr grp) (interval div 1000) (interval mod 1000) d;
          (t2, d) = neu_event_add_timer Report_callback (g_addr grp) (interval div 1000) (interval mod 1000) d;
          (t3, d) = neu_event_add_timer Write_callback (g_addr grp) 0 3 d
      in (grp\<lparr>g_read := Some t1, g_report := Some t2, g_write := Some t3\<rparr>, d))"

definition del_if :: "nat option \<Rightarrow> ('p, 'u) neu_adapter \<Rightarrow> ('p, 'u) neu_adapter" where
  "del_if t d = (case t of None \<Rightarrow> d | Some t \<Rightarrow> neu_event_del_timer t d)"

definition stop_group_timer :: "'u group_t \<Rightarrow> ('p, 'u) neu_adapter \<Rightarrow> 'u group_t \<times> ('p, 'u) neu_adapter" where
  "stop_group_timer grp d =
     (let d = del_if (g_report grp) d; d = del_if (g_read grp) d; d = del_if (g_write grp) d
      in (grp\<lparr>g_report := None, g_read := None, g_write := None\<rparr>, d))"

fun start_timers :: "'u group_t list \<Rightarrow> ('p, 'u) neu_adapter \<Rightarrow> ('p, 'u) neu_adapter" where
  "start_timers [] d = d"
| "start_timers (g # gs) d = (let (g, d) = start_group_timer g d in start_timers gs (set_group g d))"

definition neu_adapter_driver_start_group_timer :: "('p, 'u) neu_adapter \<Rightarrow> ('p, 'u) neu_adapter" where
  "neu_adapter_driver_start_group_timer d = start_timers (dr_groups d) d"

fun stop_timers :: "'u group_t list \<Rightarrow> ('p, 'u) neu_adapter \<Rightarrow> ('p, 'u) neu_adapter" where
  "stop_timers [] d = d"
| "stop_timers (g # gs) d = (let (g, d) = stop_group_timer g d in stop_timers gs (set_group g d))"

definition neu_adapter_driver_stop_group_timer :: "('p, 'u) neu_adapter \<Rightarrow> ('p, 'u) neu_adapter" where
  "neu_adapter_driver_stop_group_timer d = stop_timers (dr_groups d) d"

definition neu_adapter_driver_try_connect :: "('p, 'u) neu_plugin_intf_funs \<Rightarrow> ('p, 'u) neu_adapter \<Rightarrow> neu_err \<times> ('p, 'u) neu_adapter" where
  "neu_adapter_driver_try_connect intf d =
     (if dr_tag_cnt d > 0 then (0, d)
      else if ad_state d \<noteq> NEU_NODE_RUNNING_STATE_RUNNING then (0, d)
      else if pi_connected intf (ad_plugin d) then (0, d)
      else case pi_try_connect intf of
        None \<Rightarrow> (0, d)
      | Some f \<Rightarrow> let (p, rc) = f (ad_plugin d) in (rc, d\<lparr>ad_plugin := p\<rparr>))"

section \<open>Groups\<close>

definition NEU_GROUP_INTERVAL_LIMIT :: u32 where "NEU_GROUP_INTERVAL_LIMIT = 30"
definition NEU_TAG_ADDRESS_LEN :: nat where "NEU_TAG_ADDRESS_LEN = 128"
definition NEU_TAG_DESCRIPTION_LEN :: nat where "NEU_TAG_DESCRIPTION_LEN = 256"
definition NEU_TAG_FLOAG_PRECISION_MAX :: u8 where "NEU_TAG_FLOAG_PRECISION_MAX = 17"
definition NEU_DRIVER_TAG_CACHE_EXPIRE_TIME :: u32 where "NEU_DRIVER_TAG_CACHE_EXPIRE_TIME = 60"

definition find_group :: "('p, 'u) neu_adapter \<Rightarrow> string \<Rightarrow> 'u group_t option" where
  "find_group d name = ulist_find g_name (dr_groups d) name"

definition new_group :: "nat \<Rightarrow> string \<Rightarrow> u32 \<Rightarrow> neu_group \<Rightarrow> 'u group_t" where
  "new_group addr name interval grp =
     \<lparr>g_addr = addr, g_name = name, g_timestamp = 0, g_group = grp, g_wt_tags = [], g_report = None, g_read = None,
      g_write = None, g_apps = [],
      g_grp = \<lparr>pg_group_name = name, pg_interval = interval, pg_tags = neu_group_get_tag grp, pg_user_data = None\<rparr>\<rparr>"

text \<open>A failed allocation of the group leaves a null pointer that is used at once.\<close>

definition neu_adapter_driver_add_group :: "env \<Rightarrow> string \<Rightarrow> u32 \<Rightarrow> ('p, 'u) neu_adapter \<Rightarrow>
    (neu_err \<times> ('p, 'u) neu_adapter) option" where
  "neu_adapter_driver_add_group en name interval d =
     (case find_group d name of
        Some _ \<Rightarrow> Some (NEU_ERR_GROUP_EXIST, d)
      | None \<Rightarrow>
          do { grp \<leftarrow> neu_group_new (en_mem en) name interval;
               let g = new_group (ad_next d) name interval grp;
               let d = d\<lparr>ad_next := Suc (ad_next d)\<rparr>;
               let (g, d) = (if ad_state d = NEU_NODE_RUNNING_STATE_RUNNING then start_group_timer g d else (g, d));
               Some (NEU_ERR_SUCCESS, d\<lparr>dr_groups := ulist_add g (dr_groups d)\<rparr>) })"

text \<open>
  Renaming a group takes it out of the table and adds it again; its entries in the cache keep
  the old name. A null \<open>new_name\<close> is \<open>None\<close>.
\<close>

definition rename_group :: "env \<Rightarrow> 'u group_t \<Rightarrow> string \<Rightarrow> ('p, 'u) neu_adapter \<Rightarrow>
    (neu_err \<times> 'u group_t \<times> ('p, 'u) neu_adapter) option" where
  "rename_group en g new_name d =
     (let g = g\<lparr>g_grp := (g_grp g)\<lparr>pg_user_data := None\<rparr>\<rparr>;
          (rc, grp) = neu_group_set_name (\<lambda>i. en_mem en (2 + i)) (g_group g) (Some new_name) in
      if en_mem en 0 \<and> en_mem en 1 \<and> rc = 0
      then do { gs \<leftarrow> (if g_addr g \<in> g_addr ` set (dr_groups d)
                       then Some (filter (\<lambda>x. g_addr x \<noteq> g_addr g) (dr_groups d)) else None);
                let g = g\<lparr>g_group := grp, g_name := new_name, g_grp := (g_grp g)\<lparr>pg_group_name := new_name\<rparr>\<rparr>;
                Some (0, g, d\<lparr>dr_groups := ulist_add g gs\<rparr>) }
      else Some (NEU_ERR_EINTERNAL, g, d))"

definition neu_adapter_driver_update_group :: "env \<Rightarrow> string \<Rightarrow> string option \<Rightarrow> u32 \<Rightarrow> ('p, 'u) neu_adapter \<Rightarrow>
    (neu_err \<times> ('p, 'u) neu_adapter) option" where
  "neu_adapter_driver_update_group en name new_name interval d =
     (case find_group d name of
        None \<Rightarrow> Some (NEU_ERR_GROUP_NOT_EXIST, d)
      | Some g \<Rightarrow>
          if new_name = Some '''' then Some (NEU_ERR_EINTERNAL, d)
          else if (case new_name of None \<Rightarrow> False | Some n \<Rightarrow> name \<noteq> n \<and> find_group d n \<noteq> None)
          then Some (NEU_ERR_GROUP_EXIST, d)
          else if new_name = None \<and> gr_interval (g_group g) = interval then Some (0, d)
          else
            let running = (ad_state d = NEU_NODE_RUNNING_STATE_RUNNING);
                (g, d) = (if running then stop_group_timer g d else (g, d));
                interval = (if interval < NEU_GROUP_INTERVAL_LIMIT then gr_interval (g_group g) else interval) in
            do { (ret, g, d) \<leftarrow> (case new_name of
                     Some n \<Rightarrow> if name \<noteq> n then rename_group en g n d else Some (0, g, d)
                   | None \<Rightarrow> Some (0, g, d));
                 let g = g\<lparr>g_timestamp := en_now en, g_grp := (g_grp g)\<lparr>pg_interval := interval\<rparr>,
                           g_group := neu_group_set_interval (g_group g) interval\<rparr>;
                 let (g, d) = (if running then start_group_timer g d else (g, d));
                 Some (ret, set_group g d) })"

definition neu_adapter_driver_try_del_tag :: "('p, 'u) neu_plugin_intf_funs \<Rightarrow> int \<Rightarrow> ('p, 'u) neu_adapter \<Rightarrow>
    neu_err \<times> ('p, 'u) neu_adapter" where
  "neu_adapter_driver_try_del_tag intf n_tag d =
     (case pi_del_tags intf of
        None \<Rightarrow> (0, d)
      | Some f \<Rightarrow> let (p, rc) = f (ad_plugin d) n_tag in (rc, d\<lparr>ad_plugin := p\<rparr>))"

fun cache_del_tags :: "string \<Rightarrow> neu_datatag list \<Rightarrow> neu_driver_cache \<Rightarrow> neu_driver_cache option" where
  "cache_del_tags grp [] cache = Some cache"
| "cache_del_tags grp (t # ts) cache = Option.bind (neu_driver_cache_del cache grp (dt_name t)) (cache_del_tags grp ts)"

text \<open>The writes that are still pending are dropped with the group.\<close>

definition neu_adapter_driver_del_group :: "('p, 'u) neu_plugin_intf_funs \<Rightarrow> string \<Rightarrow> ('p, 'u) neu_adapter \<Rightarrow>
    (neu_err \<times> ('p, 'u) neu_adapter) option" where
  "neu_adapter_driver_del_group intf name d =
     (case find_group d name of
        None \<Rightarrow> Some (NEU_ERR_GROUP_NOT_EXIST, d)
      | Some g \<Rightarrow>
          do { gs \<leftarrow> ulist_del g (dr_groups d);
               let d = d\<lparr>dr_groups := gs\<rparr>;
               let d = snd (neu_adapter_driver_try_del_tag intf (uint (neu_group_tag_size (g_group g))) d);
               let d = (if ad_state d = NEU_NODE_RUNNING_STATE_RUNNING then snd (stop_group_timer g d) else d);
               cache \<leftarrow> cache_del_tags name (pg_tags (g_grp g)) (dr_cache d);
               Some (NEU_ERR_SUCCESS, d\<lparr>dr_cache := cache, dr_tag_cnt := dr_tag_cnt d - ucast (neu_group_tag_size (g_group g))\<rparr>) })"

definition neu_adapter_driver_group_count :: "('p, 'u) neu_adapter \<Rightarrow> u16" where
  "neu_adapter_driver_group_count d = of_nat (length (dr_groups d))"

definition neu_adapter_driver_new_group_count :: "('p, 'u) neu_adapter \<Rightarrow> string list \<Rightarrow> u16" where
  "neu_adapter_driver_new_group_count d groups = of_nat (length (filter (\<lambda>n. find_group d n = None) groups))"

definition neu_adapter_driver_group_exist :: "('p, 'u) neu_adapter \<Rightarrow> string \<Rightarrow> neu_err" where
  "neu_adapter_driver_group_exist d name = (if find_group d name \<noteq> None then NEU_ERR_SUCCESS else NEU_ERR_GROUP_NOT_EXIST)"

definition neu_adapter_driver_get_group :: "('p, 'u) neu_adapter \<Rightarrow> string \<Rightarrow> neu_resp_group_info list" where
  "neu_adapter_driver_get_group d filtr =
     map (\<lambda>el. \<lparr>gi_name = strncpy_to NEU_GROUP_NAME_LEN (g_name el), gi_tag_count = neu_group_tag_size (g_group el),
                gi_interval = gr_interval (g_group el)\<rparr>)
       (filter (\<lambda>el. length filtr = 0 \<or> strstr (g_name el) filtr) (dr_groups d))"

section \<open>Tags\<close>

definition neu_adapter_driver_try_add_tag :: "('p, 'u) neu_plugin_intf_funs \<Rightarrow> string \<Rightarrow> neu_datatag list \<Rightarrow> ('p, 'u) neu_adapter \<Rightarrow>
    neu_err \<times> ('p, 'u) neu_adapter" where
  "neu_adapter_driver_try_add_tag intf grp tags d =
     (case pi_add_tags intf of
        None \<Rightarrow> (0, d)
      | Some f \<Rightarrow> let (p, rc) = f (ad_plugin d) grp tags in (rc, d\<lparr>ad_plugin := p\<rparr>))"

definition neu_adapter_driver_load_tag :: "('p, 'u) neu_plugin_intf_funs \<Rightarrow> string \<Rightarrow> neu_datatag list \<Rightarrow> ('p, 'u) neu_adapter \<Rightarrow>
    neu_err \<times> ('p, 'u) neu_adapter" where
  "neu_adapter_driver_load_tag intf grp tags d =
     (case pi_load_tags intf of
        None \<Rightarrow> (0, d)
      | Some f \<Rightarrow> let (p, rc) = f (ad_plugin d) grp tags in (rc, d\<lparr>ad_plugin := p\<rparr>))"

definition call_validate :: "('p, 'u) neu_plugin_intf_funs \<Rightarrow> neu_datatag \<Rightarrow> ('p, 'u) neu_adapter \<Rightarrow>
    neu_err \<times> neu_datatag \<times> ('p, 'u) neu_adapter" where
  "call_validate intf tag d = (let (p, tag, rc) = pi_validate_tag intf (ad_plugin d) tag in (rc, tag, d\<lparr>ad_plugin := p\<rparr>))"

definition parse_option :: "neu_datatag \<Rightarrow> neu_datatag" where
  "parse_option tag = tag\<lparr>dt_option := snd (neu_datatag_parse_addr_option tag (dt_option tag))\<rparr>"

definition bias_types :: "neu_type_e set" where
  "bias_types = {NEU_TYPE_INT8, NEU_TYPE_UINT8, NEU_TYPE_INT16, NEU_TYPE_UINT16, NEU_TYPE_INT32, NEU_TYPE_UINT32,
     NEU_TYPE_INT64, NEU_TYPE_UINT64, NEU_TYPE_FLOAT, NEU_TYPE_DOUBLE}"

text \<open>The description of a tag that reaches the driver is never null; the tag may be changed.\<close>

definition strlen_or_null :: "string option \<Rightarrow> nat option" where
  "strlen_or_null s = map_option length s"

definition neu_adapter_driver_validate_tag :: "('p, 'u) neu_plugin_intf_funs \<Rightarrow> neu_datatag \<Rightarrow> ('p, 'u) neu_adapter \<Rightarrow>
    (neu_err \<times> neu_datatag \<times> ('p, 'u) neu_adapter) option" where
  "neu_adapter_driver_validate_tag intf tag d =
     (if length (dt_name tag) \<ge> NEU_TAG_NAME_LEN then Some (NEU_ERR_TAG_NAME_TOO_LONG, tag, d)
      else if length (dt_address tag) \<ge> NEU_TAG_ADDRESS_LEN then Some (NEU_ERR_TAG_ADDRESS_TOO_LONG, tag, d)
      else case strlen_or_null (dt_description tag) of
        None \<Rightarrow> None
      | Some n \<Rightarrow>
          if n \<ge> NEU_TAG_DESCRIPTION_LEN then Some (NEU_ERR_TAG_DESCRIPTION_TOO_LONG, tag, d)
          else if dt_precision tag > NEU_TAG_FLOAG_PRECISION_MAX then Some (NEU_ERR_TAG_PRECISION_INVALID, tag, d)
          else if f64_ne (dt_bias tag) 0 \<and> dt_type tag \<notin> bias_types then Some (NEU_ERR_TAG_BIAS_INVALID, tag, d)
          else let (ret, tag, d) = call_validate intf tag d in
               if ret \<noteq> NEU_ERR_SUCCESS then Some (ret, tag, d) else Some (NEU_ERR_SUCCESS, parse_option tag, d))"

definition neu_adapter_driver_check_tag :: "('p, 'u) neu_adapter \<Rightarrow> string \<Rightarrow> neu_datatag \<Rightarrow> neu_err" where
  "neu_adapter_driver_check_tag d grp tag =
     (case find_group d grp of
        None \<Rightarrow> NEU_ERR_SUCCESS
      | Some g \<Rightarrow> if neu_group_check_name (g_group g) (dt_name tag) \<noteq> NEU_ERR_SUCCESS then NEU_ERR_TAG_NAME_CONFLICT
                 else NEU_ERR_SUCCESS)"

text \<open>
  The interval of a group that is created on the way is cut to 16 bits. The result of the
  plugin's check is not used. The tag of the caller is changed too and returned.
\<close>

definition neu_adapter_driver_add_tag :: "env \<Rightarrow> ('p, 'u) neu_plugin_intf_funs \<Rightarrow> string \<Rightarrow> neu_datatag \<Rightarrow> u16 \<Rightarrow> ('p, 'u) neu_adapter \<Rightarrow>
    (neu_err \<times> neu_datatag \<times> ('p, 'u) neu_adapter) option" where
  "neu_adapter_driver_add_tag en intf grp tag interval d =
     (let tag = parse_option tag; (_, tag, d) = call_validate intf tag d in
      do { d \<leftarrow> (if find_group d grp = None
                 then do { (_, d) \<leftarrow> neu_adapter_driver_add_group en grp (ucast interval) d;
                           Some (emit (Store_add_group (ad_name d) grp (ucast interval)) d) }
                 else Some d);
           g \<leftarrow> find_group d grp;
           let (ret, g') = neu_group_add_tag (\<lambda>i. en_mem en (2 + i)) (en_tv en) (g_group g) tag;
           let d = set_group (g\<lparr>g_group := g'\<rparr>) d;
           Some (ret, tag, if ret = NEU_ERR_SUCCESS then d\<lparr>dr_tag_cnt := dr_tag_cnt d + 1\<rparr> else d) })"

definition neu_adapter_driver_del_tag :: "env \<Rightarrow> ('p, 'u) neu_plugin_intf_funs \<Rightarrow> string \<Rightarrow> string \<Rightarrow> ('p, 'u) neu_adapter \<Rightarrow>
    (neu_err \<times> ('p, 'u) neu_adapter) option" where
  "neu_adapter_driver_del_tag en intf grp tag d =
     (case find_group d grp of
        None \<Rightarrow> Some (NEU_ERR_GROUP_NOT_EXIST, d)
      | Some g \<Rightarrow>
          do { (ret, g') \<leftarrow> neu_group_del_tag (en_tv en) (g_group g) tag;
               let d = set_group (g\<lparr>g_group := g'\<rparr>) d;
               if ret = NEU_ERR_SUCCESS
               then let d = snd (neu_adapter_driver_try_del_tag intf 1 d) in Some (ret, d\<lparr>dr_tag_cnt := dr_tag_cnt d - 1\<rparr>)
               else Some (ret, d) })"

definition neu_adapter_driver_update_tag :: "env \<Rightarrow> ('p, 'u) neu_plugin_intf_funs \<Rightarrow> string \<Rightarrow> neu_datatag \<Rightarrow> ('p, 'u) neu_adapter \<Rightarrow>
    (neu_err \<times> neu_datatag \<times> ('p, 'u) neu_adapter) option" where
  "neu_adapter_driver_update_tag en intf grp tag d =
     (if length (dt_name tag) \<ge> NEU_TAG_NAME_LEN then Some (NEU_ERR_TAG_NAME_TOO_LONG, tag, d)
      else if length (dt_address tag) > NEU_TAG_ADDRESS_LEN then Some (NEU_ERR_TAG_ADDRESS_TOO_LONG, tag, d)
      else case strlen_or_null (dt_description tag) of
        None \<Rightarrow> None
      | Some n \<Rightarrow>
          if n > NEU_TAG_DESCRIPTION_LEN then Some (NEU_ERR_TAG_DESCRIPTION_TOO_LONG, tag, d)
          else if dt_precision tag > NEU_TAG_FLOAG_PRECISION_MAX then Some (NEU_ERR_TAG_PRECISION_INVALID, tag, d)
          else let (ret, tag, d) = call_validate intf tag d in
               if ret \<noteq> NEU_ERR_SUCCESS then Some (ret, tag, d)
               else let tag = parse_option tag in
                    case find_group d grp of
                      None \<Rightarrow> Some (NEU_ERR_GROUP_NOT_EXIST, tag, d)
                    | Some g \<Rightarrow> let (ret, g') = neu_group_update_tag (en_tv en) (g_group g) tag
                                in Some (ret, tag, set_group (g\<lparr>g_group := g'\<rparr>) d))"

definition neu_adapter_driver_rename_tag :: "env \<Rightarrow> string \<Rightarrow> string \<Rightarrow> string \<Rightarrow> ('p, 'u) neu_adapter \<Rightarrow>
    (neu_err \<times> ('p, 'u) neu_adapter) option" where
  "neu_adapter_driver_rename_tag en grp old_name new_name d =
     (if length new_name \<ge> NEU_TAG_NAME_LEN then Some (NEU_ERR_TAG_NAME_TOO_LONG, d)
      else case find_group d grp of
        None \<Rightarrow> Some (NEU_ERR_GROUP_NOT_EXIST, d)
      | Some g \<Rightarrow>
          do { (ret, g') \<leftarrow> neu_group_rename_tag (en_mem en) (en_tv en) (g_group g) old_name new_name;
               let d = set_group (g\<lparr>g_group := g'\<rparr>) d;
               if ret = NEU_ERR_SUCCESS
               then map_option (\<lambda>c. (ret, d\<lparr>dr_cache := c\<rparr>)) (neu_driver_cache_rename (dr_cache d) grp old_name new_name)
               else Some (ret, d) })"

definition neu_adapter_driver_get_tag :: "('p, 'u) neu_adapter \<Rightarrow> string \<Rightarrow> neu_err \<times> neu_datatag list" where
  "neu_adapter_driver_get_tag d grp =
     (case find_group d grp of
        None \<Rightarrow> (NEU_ERR_GROUP_NOT_EXIST, [])
      | Some g \<Rightarrow> (NEU_ERR_SUCCESS, neu_group_get_tag (g_group g)))"

definition neu_adapter_driver_query_tag :: "('p, 'u) neu_adapter \<Rightarrow> string \<Rightarrow> string \<Rightarrow> neu_err \<times> neu_datatag list" where
  "neu_adapter_driver_query_tag d grp name =
     (case find_group d grp of
        None \<Rightarrow> (NEU_ERR_GROUP_NOT_EXIST, [])
      | Some g \<Rightarrow> (NEU_ERR_SUCCESS, if length name > 0 then neu_group_query_tag (g_group g) name
                                   else neu_group_get_tag (g_group g)))"

text \<open>A tag with a scale is reported as a double.\<close>

definition neu_adapter_driver_get_value_tag :: "('p, 'u) neu_adapter \<Rightarrow> string \<Rightarrow> neu_datatag list" where
  "neu_adapter_driver_get_value_tag d grp =
     (let (ret, tags) = neu_adapter_driver_get_tag d grp in
      if ret = NEU_ERR_SUCCESS
      then map (\<lambda>t. if f64_ne (dt_decimal t) 0 \<and> dt_type t \<in> bias_types - {NEU_TYPE_DOUBLE}
                    then t\<lparr>dt_type := NEU_TYPE_DOUBLE\<rparr> else t) tags
      else [])"

definition neu_adapter_driver_get_read_tag :: "('p, 'u) neu_adapter \<Rightarrow> string \<Rightarrow> neu_datatag list option" where
  "neu_adapter_driver_get_read_tag d grp = map_option (\<lambda>g. neu_group_get_read_tag (g_group g)) (find_group d grp)"

definition neu_adapter_driver_get_ptag :: "(nat \<Rightarrow> bool) \<Rightarrow> ('p, 'u) neu_adapter \<Rightarrow> string \<Rightarrow> string \<Rightarrow> neu_datatag list option" where
  "neu_adapter_driver_get_ptag mem d grp tag =
     (case find_group d grp of
        None \<Rightarrow> None
      | Some g \<Rightarrow> map_option (\<lambda>t. push_tag t []) (neu_group_find_tag mem (g_group g) tag))"

section \<open>Values reported by the plugin\<close>

text \<open>\<open>new\<close> is the address of the block a value gets in the cache, \<open>news\<close> those of the copies.\<close>

definition cache_update :: "env \<Rightarrow> u64 \<Rightarrow> string \<Rightarrow> string \<Rightarrow> neu_dvalue \<Rightarrow> neu_tag_meta list \<Rightarrow> ('p, 'u) neu_adapter \<Rightarrow>
    ('p, 'u) neu_adapter option" where
  "cache_update en new grp tag value metas d =
     map_option (\<lambda>c. d\<lparr>dr_cache := c\<rparr>)
       (neu_driver_cache_update (en_sub_filter_err en) (en_ops en) new (dr_cache d) grp tag (en_now en) value metas)"

fun cache_update_all :: "env \<Rightarrow> (nat \<Rightarrow> u64) \<Rightarrow> nat \<Rightarrow> string \<Rightarrow> neu_datatag list \<Rightarrow> neu_dvalue \<Rightarrow> ('p, 'u) neu_adapter \<Rightarrow>
    ('p, 'u) neu_adapter option" where
  "cache_update_all en news i grp [] value d = Some d"
| "cache_update_all en news i grp (t # ts) value d =
     Option.bind (cache_update en (news i) grp (dt_name t) value [] d) (cache_update_all en news (Suc i) grp ts value)"

text \<open>An error without a tag is an error of all the tags of the group; any other value needs a tag.\<close>

definition update_with_meta :: "env \<Rightarrow> (nat \<Rightarrow> u64) \<Rightarrow> string \<Rightarrow> string option \<Rightarrow> neu_dvalue \<Rightarrow> neu_tag_meta list \<Rightarrow>
    ('p, 'u) neu_adapter \<Rightarrow> ('p, 'u) neu_adapter option" where
  "update_with_meta en news grp tag value metas d =
     (case tag of
        None \<Rightarrow>
          if dv_type value = NEU_TYPE_ERROR
          then (case find_group d grp of
                  None \<Rightarrow> Some d
                | Some g \<Rightarrow> cache_update_all en news 0 grp (neu_group_get_read_tag (g_group g)) value d)
          else None
      | Some tag \<Rightarrow> cache_update en (news 0) grp tag value metas d)"

text \<open>The same message goes to every application that has subscribed to the group.\<close>

definition report_to :: "sockaddr_un list \<Rightarrow> neu_reqresp_trans_data \<Rightarrow> ('p, 'u) neu_adapter \<Rightarrow> ('p, 'u) neu_adapter" where
  "report_to addrs data d = (if td_tags data = [] then d else fold (\<lambda>a. emit (Responseto a data)) addrs d)"

definition report_now :: "env \<Rightarrow> (nat \<Rightarrow> nat \<Rightarrow> u64) \<Rightarrow> 'u group_t \<Rightarrow> string \<Rightarrow> string \<Rightarrow> ('p, 'u) neu_adapter \<Rightarrow>
    ('p, 'u) neu_adapter option" where
  "report_now en news g grp tag d =
     (case neu_adapter_driver_get_ptag (en_mem en) d grp tag of
        None \<Rightarrow> Some d
      | Some tags \<Rightarrow>
          do { (cache, tvs) \<leftarrow> read_report_group (en_fp en) (en_ops en) (en_now en) 0 (en_cache_type en) news 0 grp tags (dr_cache d);
               Some (report_to (map sa_addr (g_apps g)) \<lparr>td_driver = ad_name d, td_group = grp, td_tags = tvs\<rparr>
                       (d\<lparr>dr_cache := cache\<rparr>)) })"

definition update_im_any :: "bool \<Rightarrow> env \<Rightarrow> u64 \<Rightarrow> (nat \<Rightarrow> nat \<Rightarrow> u64) \<Rightarrow> string \<Rightarrow> string option \<Rightarrow> neu_dvalue \<Rightarrow> neu_tag_meta list \<Rightarrow>
    ('p, 'u) neu_adapter \<Rightarrow> ('p, 'u) neu_adapter option" where
  "update_im_any always en new news grp tag value metas d =
     (case tag of
        None \<Rightarrow> Some d
      | Some tag \<Rightarrow>
          case find_group d grp of
            None \<Rightarrow> Some d
          | Some g \<Rightarrow>
              do { (cache, changed) \<leftarrow> neu_driver_cache_update_change (en_sub_filter_err en) (en_ops en) new (dr_cache d) grp tag
                       (en_now en) value metas always;
                   let d = d\<lparr>dr_cache := cache\<rparr>;
                   if dv_type value = NEU_TYPE_ERROR then Some d
                   else if \<not> always \<and> \<not> changed then Some d
                   else report_now en news g grp tag d })"

definition update_im_f_m :: "env \<Rightarrow> u64 \<Rightarrow> (nat \<Rightarrow> nat \<Rightarrow> u64) \<Rightarrow> string \<Rightarrow> string option \<Rightarrow> neu_dvalue \<Rightarrow> neu_tag_meta list \<Rightarrow>
    ('p, 'u) neu_adapter \<Rightarrow> ('p, 'u) neu_adapter option" where
  "update_im_f_m = update_im_any False"

definition update_im :: "env \<Rightarrow> u64 \<Rightarrow> (nat \<Rightarrow> nat \<Rightarrow> u64) \<Rightarrow> string \<Rightarrow> string option \<Rightarrow> neu_dvalue \<Rightarrow> neu_tag_meta list \<Rightarrow>
    ('p, 'u) neu_adapter \<Rightarrow> ('p, 'u) neu_adapter option" where
  "update_im = update_im_any True"

definition write_response :: "neu_reqresp_head \<Rightarrow> neu_err \<Rightarrow> ('p, 'u) neu_adapter \<Rightarrow> ('p, 'u) neu_adapter" where
  "write_response req error d = respond req (Body_error error) d"

definition write_responses :: "neu_reqresp_head \<Rightarrow> (string \<times> string \<times> neu_err) list \<Rightarrow> ('p, 'u) neu_adapter \<Rightarrow>
    ('p, 'u) neu_adapter" where
  "write_responses req resps d =
     respond req (Body_write_tags (map (\<lambda>(g, t, e). (strncpy_to (NEU_GROUP_NAME_LEN - 1) g,
       strncpy_to (NEU_TAG_NAME_LEN - 1) t, e)) resps)) d"

definition scan_tags_response :: "neu_reqresp_head \<Rightarrow> neu_err \<Rightarrow> ('p, 'u) neu_adapter \<Rightarrow> ('p, 'u) neu_adapter" where
  "scan_tags_response req error d = respond req (Body_scan_tags error) d"

definition test_read_tag_response :: "neu_reqresp_head \<Rightarrow> neu_err \<Rightarrow> ('p, 'u) neu_adapter \<Rightarrow> ('p, 'u) neu_adapter" where
  "test_read_tag_response req error d = respond req (Body_test_read_tag error) d"

text \<open>A callback takes its block addresses from \<open>en_news en n\<close> and following.\<close>

fun run_cb :: "env \<Rightarrow> nat \<Rightarrow> plugin_cb \<Rightarrow> ('p, 'u) neu_adapter \<Rightarrow> ('p, 'u) neu_adapter option" where
  "run_cb en n (Cb_update grp tag value metas) d = update_with_meta en (en_news en n) grp tag value metas d"
| "run_cb en n (Cb_update_im grp tag value metas) d =
     update_im en (en_news en n 0) (\<lambda>i j. en_news en n (Suc j)) grp tag value metas d"
| "run_cb en n (Cb_update_im_f_m grp tag value metas) d =
     update_im_f_m en (en_news en n 0) (\<lambda>i j. en_news en n (Suc j)) grp tag value metas d"
| "run_cb en n (Cb_write_response req e) d = Some (write_response req e d)"
| "run_cb en n (Cb_write_responses req es) d = Some (write_responses req es d)"
| "run_cb en n (Cb_test_read_tag_response req e) d = Some (test_read_tag_response req e d)"
| "run_cb en n (Cb_scan_tags_response req e) d = Some (scan_tags_response req e d)"

fun run_cbs :: "env \<Rightarrow> nat \<Rightarrow> plugin_cb list \<Rightarrow> ('p, 'u) neu_adapter \<Rightarrow> ('p, 'u) neu_adapter option" where
  "run_cbs en n [] d = Some d"
| "run_cbs en n (cb # cbs) d = Option.bind (run_cb en n cb d) (run_cbs en (Suc n) cbs)"

section \<open>Timer callbacks\<close>

fun cache_add_tags :: "string \<Rightarrow> neu_datatag list \<Rightarrow> neu_driver_cache \<Rightarrow> neu_driver_cache" where
  "cache_add_tags grp [] cache = cache"
| "cache_add_tags grp (t # ts) cache = cache_add_tags grp ts
     (neu_driver_cache_add cache grp (dt_name t) ((error_dvalue NEU_ERR_PLUGIN_TAG_NOT_READY)\<lparr>dv_precision := dt_precision t\<rparr>))"

definition group_change :: "'u group_t \<Rightarrow> u64 \<Rightarrow> neu_datatag list \<Rightarrow> ('p, 'u) neu_adapter \<Rightarrow> ('p, 'u) neu_adapter option" where
  "group_change g timestamp tags d =
     do { cache \<leftarrow> cache_del_tags (g_name g) (pg_tags (g_grp g)) (dr_cache d);
          let cache = cache_add_tags (g_name g) tags cache;
          let grp = \<lparr>pg_group_name = g_name g, pg_interval = gr_interval (g_group g), pg_tags = tags, pg_user_data = None\<rparr>;
          Some (set_group (g\<lparr>g_timestamp := timestamp, g_grp := grp\<rparr>) (d\<lparr>dr_cache := cache\<rparr>)) }"

text \<open>The timers call with the address of the group, which must still be there.\<close>

definition group_at :: "('p, 'u) neu_adapter \<Rightarrow> nat \<Rightarrow> 'u group_t option" where
  "group_at d addr = ulist_find g_addr (dr_groups d) addr"

definition poll_plugin :: "env \<Rightarrow> ('p \<Rightarrow> 'u neu_plugin_group \<Rightarrow> 'p \<times> 'u neu_plugin_group \<times> plugin_cb list) \<Rightarrow> 'u group_t \<Rightarrow>
    ('p, 'u) neu_adapter \<Rightarrow> ('p, 'u) neu_adapter option" where
  "poll_plugin en f g d =
     (let (p, grp, cbs) = f (ad_plugin d) (g_grp g)
      in run_cbs en 0 cbs (set_group (g\<lparr>g_grp := grp\<rparr>) (d\<lparr>ad_plugin := p\<rparr>)))"

definition read_callback :: "env \<Rightarrow> ('p, 'u) neu_plugin_intf_funs \<Rightarrow> nat \<Rightarrow> ('p, 'u) neu_adapter \<Rightarrow> ('p, 'u) neu_adapter option" where
  "read_callback en intf addr d =
     do { g \<leftarrow> group_at d addr;
          if ad_state d \<noteq> NEU_NODE_RUNNING_STATE_RUNNING then Some d
          else do { d \<leftarrow> (if neu_group_is_change (g_group g) (g_timestamp g)
                          then (case neu_group_change_test (g_group g) (g_timestamp g) of
                                  None \<Rightarrow> Some d
                                | Some (timestamp, tags, interval) \<Rightarrow> group_change g timestamp tags d)
                          else Some d);
                    g \<leftarrow> group_at d addr;
                    if pg_tags (g_grp g) \<noteq> [] then poll_plugin en (pi_group_timer intf) g d else Some d } }"

fun write_pending :: "env \<Rightarrow> ('p, 'u) neu_plugin_intf_funs \<Rightarrow> to_be_write_tag list \<Rightarrow> ('p, 'u) neu_adapter \<Rightarrow> ('p, 'u) neu_adapter option" where
  "write_pending en intf [] d = Some d"
| "write_pending en intf (w # ws) d =
     do { (p, cbs) \<leftarrow> (case w of
              Wt_single req tag v \<Rightarrow> Some (pi_write_tag intf (ad_plugin d) req tag v)
            | Wt_multi req tvs \<Rightarrow> map_option (\<lambda>f. f (ad_plugin d) req tvs) (pi_write_tags intf));
          d \<leftarrow> run_cbs en 0 cbs (d\<lparr>ad_plugin := p\<rparr>);
          write_pending en intf ws d }"

definition write_callback :: "env \<Rightarrow> ('p, 'u) neu_plugin_intf_funs \<Rightarrow> nat \<Rightarrow> ('p, 'u) neu_adapter \<Rightarrow> ('p, 'u) neu_adapter option" where
  "write_callback en intf addr d =
     do { g \<leftarrow> group_at d addr;
          if ad_state d \<noteq> NEU_NODE_RUNNING_STATE_RUNNING then Some d
          else write_pending en intf (g_wt_tags g) (set_group (g\<lparr>g_wt_tags := []\<rparr>) d) }"

text \<open>
  The age at which a value expires, computed in 32 bits and then signed; a block of the cache
  is taken from \<open>en_news\<close>.
\<close>

definition expire_time :: "neu_group \<Rightarrow> int" where
  "expire_time grp = uint (gr_interval grp * NEU_DRIVER_TAG_CACHE_EXPIRE_TIME)"

definition report_callback :: "env \<Rightarrow> nat \<Rightarrow> ('p, 'u) neu_adapter \<Rightarrow> ('p, 'u) neu_adapter option" where
  "report_callback en addr d =
     do { g \<leftarrow> group_at d addr;
          if ad_state d \<noteq> NEU_NODE_RUNNING_STATE_RUNNING then Some d
          else do { tags \<leftarrow> neu_adapter_driver_get_read_tag d (g_name g);
                    (cache, tvs) \<leftarrow> read_report_group (en_fp en) (en_ops en) (en_now en) (expire_time (g_group g))
                        (en_cache_type en) (en_news en) 0 (g_name g) tags (dr_cache d);
                    Some (report_to (map sa_addr (g_apps g))
                      \<lparr>td_driver = ad_name d, td_group = g_name g, td_tags = tvs\<rparr> (d\<lparr>dr_cache := cache\<rparr>)) } }"

definition report_to_app :: "env \<Rightarrow> 'u group_t \<Rightarrow> sockaddr_un \<Rightarrow> ('p, 'u) neu_adapter \<Rightarrow> ('p, 'u) neu_adapter option" where
  "report_to_app en g dst d =
     do { tags \<leftarrow> neu_adapter_driver_get_read_tag d (g_name g);
          (cache, tvs) \<leftarrow> read_group (en_fp en) (en_ops en) (en_now en) (expire_time (g_group g))
              (en_cache_type en) (en_news en) 0 (g_name g) tags (dr_cache d);
          Some (report_to [dst] \<lparr>td_driver = ad_name d, td_group = g_name g, td_tags = tvs\<rparr> (d\<lparr>dr_cache := cache\<rparr>)) }"

section \<open>Subscriptions\<close>

record neu_req_subscribe =
  rs_app :: string
  rs_group :: string
  rs_port :: u16

definition neu_adapter_driver_subscribe :: "env \<Rightarrow> neu_req_subscribe \<Rightarrow> ('p, 'u) neu_adapter \<Rightarrow> ('p, 'u) neu_adapter option" where
  "neu_adapter_driver_subscribe en req d =
     (case find_group d (rs_group req) of
        None \<Rightarrow> Some d
      | Some g \<Rightarrow>
          if list_ex (\<lambda>a. sa_app a = rs_app req) (g_apps g) then Some d
          else let app = \<lparr>sa_app = strncpy_to (NEU_NODE_NAME_LEN - 1) (rs_app req),
                          sa_addr = ''neuron-'' @ show_nat (unat (rs_port req))\<rparr>;
                   g = g\<lparr>g_apps := g_apps g @ [app]\<rparr>
               in report_to_app en g (sa_addr app) (set_group g d))"

fun remove_app :: "string \<Rightarrow> sub_app list \<Rightarrow> sub_app list" where
  "remove_app app [] = []"
| "remove_app app (a # as) = (if sa_app a = app then as else a # remove_app app as)"

definition neu_adapter_driver_unsubscribe :: "string \<Rightarrow> string \<Rightarrow> ('p, 'u) neu_adapter \<Rightarrow> ('p, 'u) neu_adapter" where
  "neu_adapter_driver_unsubscribe grp app d =
     (case find_group d grp of
        None \<Rightarrow> d
      | Some g \<Rightarrow> set_group (g\<lparr>g_apps := remove_app app (g_apps g)\<rparr>) d)"

section \<open>Write requests\<close>

record neu_req_write_tag =
  wq_group :: string
  wq_tag :: string
  wq_value :: neu_dvalue

text \<open>
  The conversion that the three handlers have in common: an integer for a floating point tag
  becomes a double, then scale, type and byte order.
\<close>

definition convert_write :: "env \<Rightarrow> u64 \<Rightarrow> heap \<Rightarrow> neu_datatag \<Rightarrow> neu_dvalue \<Rightarrow> (heap \<times> neu_dvalue) option" where
  "convert_write en new h tag value =
     (let fp = en_fp en;
          value = (if dt_type tag \<in> {NEU_TYPE_FLOAT, NEU_TYPE_DOUBLE} \<and> dv_type value = NEU_TYPE_INT64
                   then value\<lparr>dv_value := set_value_u64 (fp_of_int fp (value_i64 (dv_value value))) (dv_value value)\<rparr> else value);
          value = (if f64_ne (dt_decimal tag) 0
                   then value\<lparr>dv_value := cal_decimal fp (dt_type tag) (dv_type value) (dv_value value) (dt_decimal tag)\<rparr> else value)
      in fix_value fp new h tag (dv_type value) value)"

definition value_check :: "env \<Rightarrow> neu_datatag \<Rightarrow> neu_dvalue \<Rightarrow> neu_err" where
  "value_check en tag value =
     is_value_in_range (en_fp en) (dt_type tag) (value_i64 (dv_value value)) (value_u64 (dv_value value)) (dv_type value)
       (dt_decimal tag)"

definition store_write_tag :: "'u group_t \<Rightarrow> to_be_write_tag \<Rightarrow> ('p, 'u) neu_adapter \<Rightarrow> ('p, 'u) neu_adapter" where
  "store_write_tag g wtag d = set_group (g\<lparr>g_wt_tags := g_wt_tags g @ [wtag]\<rparr>) d"

definition set_heap :: "heap \<Rightarrow> ('p, 'u) neu_adapter \<Rightarrow> ('p, 'u) neu_adapter" where
  "set_heap h d = d\<lparr>dr_cache := (dr_cache d)\<lparr>dc_heap := h\<rparr>\<rparr>"

definition neu_adapter_driver_write_tag :: "env \<Rightarrow> neu_reqresp_head \<Rightarrow> neu_req_write_tag \<Rightarrow> ('p, 'u) neu_adapter \<Rightarrow>
    (neu_err \<times> ('p, 'u) neu_adapter) option" where
  "neu_adapter_driver_write_tag en req cmd d =
     (let refuse = (\<lambda>e. Some (e, write_response req e d)) in
      if ad_state d \<noteq> NEU_NODE_RUNNING_STATE_RUNNING then refuse NEU_ERR_PLUGIN_NOT_RUNNING
      else case find_group d (wq_group cmd) of
        None \<Rightarrow> refuse NEU_ERR_GROUP_NOT_EXIST
      | Some g \<Rightarrow>
          case neu_group_find_tag (en_mem en) (g_group g) (wq_tag cmd) of
            None \<Rightarrow> refuse NEU_ERR_TAG_NOT_EXIST
          | Some tag \<Rightarrow>
              if dt_attribute tag AND NEU_ATTRIBUTE_WRITE \<noteq> NEU_ATTRIBUTE_WRITE then refuse NEU_ERR_PLUGIN_TAG_NOT_ALLOW_WRITE
              else if value_check en tag (wq_value cmd) \<noteq> NEU_ERR_SUCCESS then refuse (value_check en tag (wq_value cmd))
              else do { (h, value) \<leftarrow> convert_write en (en_news en 0 0) (dc_heap (dr_cache d)) tag (wq_value cmd);
                        dup \<leftarrow> neu_tag_dup (en_mem en 1) tag;
                        Some (NEU_ERR_SUCCESS, store_write_tag g (Wt_single req dup (dv_value value)) (set_heap h d)) })"

text \<open>
  The loop over the tags of a request: the converted values, and the last error. A tag that is
  not writable leaves out its value and sets the error to that of the value check, which is
  success when the value is in range. A failed copy of a tag is a null pointer in the array.
\<close>

fun collect_writes :: "env \<Rightarrow> nat \<Rightarrow> ('u group_t \<times> string \<times> neu_dvalue) list \<Rightarrow> neu_err \<Rightarrow> heap \<Rightarrow>
    (neu_err \<times> neu_plugin_tag_value list \<times> heap) option" where
  "collect_writes en i [] value_err h = Some (value_err, [], h)"
| "collect_writes en i ((g, name, value) # ws) value_err h =
     (case neu_group_find_tag (en_mem en) (g_group g) name of
        None \<Rightarrow> collect_writes en (Suc i) ws NEU_ERR_TAG_NOT_EXIST h
      | Some tag \<Rightarrow>
          if neu_tag_attribute_test tag NEU_ATTRIBUTE_WRITE \<and> value_check en tag value = NEU_ERR_SUCCESS
          then do { (h, value) \<leftarrow> convert_write en (en_news en i 0) h tag value;
                    dup \<leftarrow> neu_tag_dup (en_mem en 1) tag;
                    (value_err, tvs, h) \<leftarrow> collect_writes en (Suc i) ws value_err h;
                    Some (value_err, \<lparr>ptv_tag = dup, ptv_value = dv_value value, ptv_type = Some (dv_type value)\<rparr> # tvs, h) }
          else collect_writes en (Suc i) ws (value_check en tag value) h)"

fun free_values :: "neu_plugin_tag_value list \<Rightarrow> heap \<Rightarrow> heap option" where
  "free_values [] h = Some h"
| "free_values (tv # tvs) h =
     Option.bind (case ptv_type tv of None \<Rightarrow> Some h | Some t \<Rightarrow> neu_free_dvalue (typed_value t (ptv_value tv)) h) (free_values tvs)"

definition neu_adapter_driver_write_tags :: "env \<Rightarrow> ('p, 'u) neu_plugin_intf_funs \<Rightarrow> neu_reqresp_head \<Rightarrow> string \<Rightarrow>
    (string \<times> neu_dvalue) list \<Rightarrow> ('p, 'u) neu_adapter \<Rightarrow> (neu_err \<times> ('p, 'u) neu_adapter) option" where
  "neu_adapter_driver_write_tags en intf req grp tags d =
     (let refuse = (\<lambda>e d. Some (e, write_response req e d)) in
      if ad_state d \<noteq> NEU_NODE_RUNNING_STATE_RUNNING then refuse NEU_ERR_PLUGIN_NOT_RUNNING d
      else if pi_write_tags intf = None then refuse NEU_ERR_PLUGIN_NOT_SUPPORT_WRITE_TAGS d
      else case find_group d grp of
        None \<Rightarrow> refuse NEU_ERR_GROUP_NOT_EXIST d
      | Some g \<Rightarrow>
          do { (value_err, tvs, h) \<leftarrow> collect_writes en 0 (map (\<lambda>(t, v). (g, t, v)) tags) NEU_ERR_SUCCESS (dc_heap (dr_cache d));
               if value_err \<noteq> NEU_ERR_SUCCESS
               then do { h \<leftarrow> free_values tvs h; refuse value_err (set_heap h d) }
               else if length tvs \<noteq> length tags
               then do { h \<leftarrow> free_values tvs h; refuse NEU_ERR_TAG_NOT_EXIST (set_heap h d) }
               else Some (NEU_ERR_SUCCESS, store_write_tag g (Wt_multi req tvs) (set_heap h d)) })"

text \<open>
  Several groups at once: all must exist, the values go to the queue of the first. The type of a
  value is not passed on: the member is left zero, which is not one of the types.
\<close>

definition neu_adapter_driver_write_gtags :: "env \<Rightarrow> ('p, 'u) neu_plugin_intf_funs \<Rightarrow> neu_reqresp_head \<Rightarrow>
    (string \<times> (string \<times> neu_dvalue) list) list \<Rightarrow> ('p, 'u) neu_adapter \<Rightarrow> (neu_err \<times> ('p, 'u) neu_adapter) option" where
  "neu_adapter_driver_write_gtags en intf req groups d =
     (let refuse = (\<lambda>e d. Some (e, write_response req e d)) in
      if ad_state d \<noteq> NEU_NODE_RUNNING_STATE_RUNNING then refuse NEU_ERR_PLUGIN_NOT_RUNNING d
      else if pi_write_tags intf = None then refuse NEU_ERR_PLUGIN_NOT_SUPPORT_WRITE_TAGS d
      else case those (map (\<lambda>(g, ts). find_group d g) groups) of
        None \<Rightarrow> refuse NEU_ERR_GROUP_NOT_EXIST d
      | Some gs \<Rightarrow>
          do { (value_err, tvs, h) \<leftarrow> collect_writes en 0 (concat (map (\<lambda>(g, (_, ts)). map (\<lambda>(t, v). (g, t, v)) ts) (zip gs groups)))
                 NEU_ERR_SUCCESS (dc_heap (dr_cache d));
               if value_err \<noteq> NEU_ERR_SUCCESS then refuse value_err (set_heap h d)
               else if length tvs \<noteq> sum_list (map (\<lambda>(g, ts). length ts) groups) then refuse NEU_ERR_TAG_NOT_EXIST (set_heap h d)
               else (case gs of
                       [] \<Rightarrow> None
                     | g # _ \<Rightarrow> Some (NEU_ERR_SUCCESS,
                         store_write_tag g (Wt_multi req (map (\<lambda>tv. tv\<lparr>ptv_type := None\<rparr>) tvs)) (set_heap h d))) })"

section \<open>Read requests\<close>

definition error_value :: "neu_err \<Rightarrow> bool \<Rightarrow> neu_datatag \<Rightarrow> neu_resp_tag_value_meta" where
  "error_value e with_tag tag =
     set_error e (zero_tag_value\<lparr>tv_tag := strncpy_to (NEU_TAG_NAME_LEN - 1) (dt_name tag),
       tv_datatag := (if with_tag then tag else zero_tag)\<rparr>)"

text \<open>A synchronous read stops the timers, polls the plugin, reads the cache and starts the timers again.\<close>

definition read_sync :: "env \<Rightarrow> ('p \<Rightarrow> 'u neu_plugin_group \<Rightarrow> 'p \<times> 'u neu_plugin_group \<times> plugin_cb list) \<Rightarrow>
    (neu_driver_cache \<Rightarrow> (neu_driver_cache \<times> neu_resp_tag_value_meta list) option) \<Rightarrow> 'u group_t \<Rightarrow> ('p, 'u) neu_adapter \<Rightarrow>
    (neu_resp_tag_value_meta list \<times> ('p, 'u) neu_adapter) option" where
  "read_sync en sync rd g d =
     do { let (g, d) = stop_group_timer g d;
          d \<leftarrow> poll_plugin en sync g (set_group g d);
          (cache, tvs) \<leftarrow> rd (dr_cache d);
          g \<leftarrow> group_at d (g_addr g);
          let (g, d) = start_group_timer g (d\<lparr>dr_cache := cache\<rparr>);
          Some (tvs, set_group g d) }"

definition read_values :: "bool \<Rightarrow> env \<Rightarrow> ('p, 'u) neu_plugin_intf_funs \<Rightarrow> bool \<Rightarrow> neu_datatag list \<Rightarrow>
    (neu_driver_cache \<Rightarrow> (neu_driver_cache \<times> neu_resp_tag_value_meta list) option) \<Rightarrow> 'u group_t \<Rightarrow> ('p, 'u) neu_adapter \<Rightarrow>
    (neu_resp_tag_value_meta list \<times> ('p, 'u) neu_adapter) option" where
  "read_values with_tag en intf sync tags rd g d =
     (if ad_state d \<noteq> NEU_NODE_RUNNING_STATE_RUNNING then Some (map (error_value NEU_ERR_PLUGIN_NOT_RUNNING with_tag) tags, d)
      else if sync
      then (case pi_group_sync intf of
              None \<Rightarrow> Some (map (error_value NEU_ERR_PLUGIN_NOT_SUPPORT_READ_SYNC with_tag) tags, d)
            | Some f \<Rightarrow> read_sync en f rd g d)
      else map_option (\<lambda>(cache, tvs). (tvs, d\<lparr>dr_cache := cache\<rparr>)) (rd (dr_cache d)))"

record neu_req_read_group =
  rg_driver :: string
  rg_group :: string
  rg_sync :: bool
  rg_name :: "string option"
  rg_desc :: "string option"
  rg_tags :: "string list"

definition neu_adapter_driver_read_group :: "env \<Rightarrow> ('p, 'u) neu_plugin_intf_funs \<Rightarrow> neu_reqresp_head \<Rightarrow> neu_req_read_group \<Rightarrow>
    ('p, 'u) neu_adapter \<Rightarrow> ('p, 'u) neu_adapter option" where
  "neu_adapter_driver_read_group en intf req cmd d =
     (case find_group d (rg_group cmd) of
        None \<Rightarrow> Some (respond req (Body_error NEU_ERR_GROUP_NOT_EXIST) d)
      | Some g \<Rightarrow>
          do { let tags = neu_group_query_read_tag (g_group g) (rg_name cmd) (rg_desc cmd) (rg_tags cmd);
               (tvs, d) \<leftarrow> read_values False en intf (rg_sync cmd) tags
                 (read_group (en_fp en) (en_ops en) (en_now en) (expire_time (g_group g)) (en_cache_type en) (en_news en) 0
                    (rg_group cmd) tags) g d;
               Some (respond req (Body_read_group (rg_driver cmd) (rg_group cmd) tvs) d) })"

record neu_req_read_group_paginate = neu_req_read_group +
  rg_current_page :: int
  rg_page_size :: int
  rg_is_error :: bool

definition neu_adapter_driver_read_group_paginate :: "env \<Rightarrow> ('p, 'u) neu_plugin_intf_funs \<Rightarrow> neu_reqresp_head \<Rightarrow>
    neu_req_read_group_paginate \<Rightarrow> ('p, 'u) neu_adapter \<Rightarrow> ('p, 'u) neu_adapter option" where
  "neu_adapter_driver_read_group_paginate en intf req cmd d =
     (case find_group d (rg_group cmd) of
        None \<Rightarrow> Some (respond req (Body_error NEU_ERR_GROUP_NOT_EXIST) d)
      | Some g \<Rightarrow>
          do { (tags, total) \<leftarrow> (if \<not> rg_is_error cmd \<and> rg_current_page cmd > 0 \<and> rg_page_size cmd > 0
                 then neu_group_query_read_tag_paginate (g_group g) (rg_name cmd) (rg_desc cmd) (rg_current_page cmd) (rg_page_size cmd)
                 else let tags = neu_group_query_read_tag (g_group g) (rg_name cmd) (rg_desc cmd) [] in Some (tags, int (length tags)));
               (tvs, d) \<leftarrow> read_values True en intf (rg_sync cmd) tags
                 (read_group_paginate (en_fp en) (en_ops en) (en_now en) (expire_time (g_group g)) (en_cache_type en) (en_news en) 0
                    (rg_group cmd) tags) g d;
               Some (respond req (Body_read_group_paginate
                 \<lparr>rp_driver = rg_driver cmd, rp_group = rg_group cmd, rp_current_page = rg_current_page cmd,
                  rp_page_size = rg_page_size cmd, rp_is_error = rg_is_error cmd, rp_total_count = total, rp_tags = tvs\<rparr>) d) })"

section \<open>Other requests\<close>

definition neu_adapter_driver_scan_tags :: "env \<Rightarrow> ('p, 'u) neu_plugin_intf_funs \<Rightarrow> neu_reqresp_head \<Rightarrow> string \<Rightarrow> string \<Rightarrow>
    ('p, 'u) neu_adapter \<Rightarrow> ('p, 'u) neu_adapter option" where
  "neu_adapter_driver_scan_tags en intf req ident ctx d =
     (if ad_state d \<noteq> NEU_NODE_RUNNING_STATE_RUNNING then Some (scan_tags_response req NEU_ERR_PLUGIN_NOT_RUNNING d)
      else case pi_scan_tags intf of
        None \<Rightarrow> Some (scan_tags_response req NEU_ERR_PLUGIN_NOT_SUPPORT_SCAN_TAGS d)
      | Some f \<Rightarrow> let (p, cbs) = f (ad_plugin d) req ident ctx in run_cbs en 0 cbs (d\<lparr>ad_plugin := p\<rparr>))"

text \<open>The members the request does not have are left uninitialised in the tag; they are not passed on here.\<close>

definition neu_adapter_driver_test_read_tag :: "env \<Rightarrow> ('p, 'u) neu_plugin_intf_funs \<Rightarrow> neu_reqresp_head \<Rightarrow> string \<Rightarrow> neu_datatag \<Rightarrow>
    ('p, 'u) neu_adapter \<Rightarrow> ('p, 'u) neu_adapter option" where
  "neu_adapter_driver_test_read_tag en intf req grp datatag d =
     (if ad_state d \<noteq> NEU_NODE_RUNNING_STATE_RUNNING then Some (test_read_tag_response req NEU_ERR_PLUGIN_NOT_RUNNING d)
      else case pi_test_read_tag intf of
        None \<Rightarrow> Some (test_read_tag_response req NEU_ERR_PLUGIN_NOT_SUPPORT_TEST_READ_TAG d)
      | Some f \<Rightarrow>
          let stop = (case find_group d grp of None \<Rightarrow> None | Some g \<Rightarrow> if neu_group_tag_size (g_group g) > 0 then Some g else None);
              d = (case stop of None \<Rightarrow> d | Some g \<Rightarrow> let (g, d) = stop_group_timer g d in set_group g d);
              (p, cbs) = f (ad_plugin d) req datatag in
          do { d \<leftarrow> run_cbs en 0 cbs (d\<lparr>ad_plugin := p\<rparr>);
               (case stop of
                  None \<Rightarrow> Some d
                | Some g \<Rightarrow> do { g \<leftarrow> group_at d (g_addr g);
                                let (g, d) = start_group_timer g d;
                                Some (set_group g d) }) })"

definition neu_adapter_driver_cmd :: "('p, 'u) neu_plugin_intf_funs \<Rightarrow> string \<Rightarrow> ('p, 'u) neu_adapter \<Rightarrow> neu_err \<times> ('p, 'u) neu_adapter" where
  "neu_adapter_driver_cmd intf cmd d =
     (if ad_state d \<noteq> NEU_NODE_RUNNING_STATE_RUNNING then (NEU_ERR_PLUGIN_NOT_RUNNING, d)
      else case pi_action intf of
        None \<Rightarrow> (NEU_ERR_PLUGIN_NOT_SUPPORT_EXE_ACTION, d)
      | Some f \<Rightarrow> let (p, rc) = f (ad_plugin d) cmd in (rc, d\<lparr>ad_plugin := p\<rparr>))"

section \<open>Shutting a driver down\<close>

fun uninit_groups :: "('p, 'u) neu_plugin_intf_funs \<Rightarrow> 'u group_t list \<Rightarrow> ('p, 'u) neu_adapter \<Rightarrow> ('p, 'u) neu_adapter option" where
  "uninit_groups intf [] d = Some d"
| "uninit_groups intf (el # els) d =
     do { gs \<leftarrow> ulist_del el (dr_groups d);
          let d = snd (neu_adapter_driver_try_del_tag intf (uint (neu_group_tag_size (g_group el))) (d\<lparr>dr_groups := gs\<rparr>));
          uninit_groups intf els (snd (stop_group_timer el d)) }"

definition neu_adapter_driver_uninit :: "('p, 'u) neu_plugin_intf_funs \<Rightarrow> ('p, 'u) neu_adapter \<Rightarrow> ('p, 'u) neu_adapter option" where
  "neu_adapter_driver_uninit intf d = uninit_groups intf (dr_groups d) d"

end
