(* ===== verification/Adapter.thy ===== *)
theory Adapter
  imports Driver
begin

unbundle bit_operations_syntax

text \<open>
  The nodes of the gateway, \<^verbatim>\<open>src/adapter/adapter.c\<close>: the life cycle of a node (settings, start,
  stop, renaming, shutdown) and the handlers of the messages it receives in \<^verbatim>\<open>adapter_loop\<close>. What
  a handler stores in the database is in the output of the node. The notifications for the
  monitor and the handlers for certificates and files are left out.
\<close>

section \<open>Life cycle\<close>

definition neu_adapter_start :: "('p, 'u) neu_plugin_intf_funs \<Rightarrow> ('p, 'u) neu_adapter \<Rightarrow> neu_err \<times> ('p, 'u) neu_adapter" where
  "neu_adapter_start intf d =
     (if ad_state d = NEU_NODE_RUNNING_STATE_INIT then (NEU_ERR_NODE_NOT_READY, d)
      else if ad_state d = NEU_NODE_RUNNING_STATE_RUNNING then (NEU_ERR_NODE_IS_RUNNING, d)
      else let (p, error) = pi_start intf (ad_plugin d); d = d\<lparr>ad_plugin := p\<rparr> in
           if error = NEU_ERR_SUCCESS
           then let d = d\<lparr>ad_state := NEU_NODE_RUNNING_STATE_RUNNING\<rparr>;
                    d = emit (Store_state (ad_name d) (ad_state d)) d in
                if ad_type d = NEU_NA_TYPE_DRIVER
                then let d = neu_adapter_driver_start_group_timer d;
                         (t, d) = neu_event_add_timer Try_connect 0 5 0 d
                     in (error, d\<lparr>ad_timer_connect := Some t\<rparr>)
                else (error, d)
           else (error, d))"

definition neu_adapter_start_single :: "('p, 'u) neu_plugin_intf_funs \<Rightarrow> ('p, 'u) neu_adapter \<Rightarrow> neu_err \<times> ('p, 'u) neu_adapter" where
  "neu_adapter_start_single intf d =
     (let d = d\<lparr>ad_state := NEU_NODE_RUNNING_STATE_RUNNING\<rparr>; (p, error) = pi_start intf (ad_plugin d)
      in (error, d\<lparr>ad_plugin := p\<rparr>))"

definition neu_adapter_stop :: "('p, 'u) neu_plugin_intf_funs \<Rightarrow> ('p, 'u) neu_adapter \<Rightarrow> neu_err \<times> ('p, 'u) neu_adapter" where
  "neu_adapter_stop intf d =
     (if ad_state d \<in> {NEU_NODE_RUNNING_STATE_INIT, NEU_NODE_RUNNING_STATE_READY} then (NEU_ERR_NODE_NOT_RUNNING, d)
      else if ad_state d = NEU_NODE_RUNNING_STATE_STOPPED then (NEU_ERR_NODE_IS_STOPED, d)
      else let (p, error) = pi_stop intf (ad_plugin d); d = d\<lparr>ad_plugin := p\<rparr> in
           if error = NEU_ERR_SUCCESS
           then let d = d\<lparr>ad_state := NEU_NODE_RUNNING_STATE_STOPPED\<rparr>;
                    d = emit (Store_state (ad_name d) (ad_state d)) d;
                    d = (if ad_type d = NEU_NA_TYPE_DRIVER then neu_adapter_driver_stop_group_timer d else d)
                in (error, (del_if (ad_timer_connect d) d)\<lparr>ad_timer_connect := None\<rparr>)
           else (error, d))"

definition neu_adapter_set_setting :: "('p, 'u) neu_plugin_intf_funs \<Rightarrow> string \<Rightarrow> ('p, 'u) neu_adapter \<Rightarrow>
    neu_err \<times> ('p, 'u) neu_adapter" where
  "neu_adapter_set_setting intf setting d =
     (let (p, rv) = pi_setting intf (ad_plugin d) setting; d = d\<lparr>ad_plugin := p\<rparr> in
      if rv = 0
      then let d = d\<lparr>ad_setting := Some setting\<rparr> in
           if ad_state d = NEU_NODE_RUNNING_STATE_INIT
           then (rv, snd (neu_adapter_start intf (d\<lparr>ad_state := NEU_NODE_RUNNING_STATE_READY\<rparr>))) else (rv, d)
      else (NEU_ERR_NODE_SETTING_INVALID, d))"

definition neu_adapter_get_setting :: "('p, 'u) neu_adapter \<Rightarrow> (neu_err, string) sum" where
  "neu_adapter_get_setting d = (case ad_setting d of Some s \<Rightarrow> Inr s | None \<Rightarrow> Inl NEU_ERR_NODE_SETTING_NOT_FOUND)"

text \<open>The timers of the groups are stopped and started again, whether the node is running or not.\<close>

definition neu_adapter_rename :: "env \<Rightarrow> string \<Rightarrow> ('p, 'u) neu_adapter \<Rightarrow> neu_err \<times> ('p, 'u) neu_adapter" where
  "neu_adapter_rename en new_name d =
     (if \<not> en_mem en 0 then (NEU_ERR_EINTERNAL, d)
      else if \<not> en_log en then (NEU_ERR_EINTERNAL, d)
      else let d = (if ad_type d = NEU_NA_TYPE_DRIVER then neu_adapter_driver_stop_group_timer d else d);
               d = d\<lparr>ad_name := new_name\<rparr>
           in (0, if ad_type d = NEU_NA_TYPE_DRIVER then neu_adapter_driver_start_group_timer d else d))"

text \<open>The cache is destroyed with the driver.\<close>

definition neu_adapter_uninit :: "('p, 'u) neu_plugin_intf_funs \<Rightarrow> ('p, 'u) neu_adapter \<Rightarrow> ('p, 'u) neu_adapter option" where
  "neu_adapter_uninit intf d =
     do { d \<leftarrow> (if ad_type d = NEU_NA_TYPE_DRIVER then neu_adapter_driver_uninit intf d else Some d);
          let d = d\<lparr>ad_plugin := fst (pi_uninit intf (ad_plugin d))\<rparr>;
          if ad_type d = NEU_NA_TYPE_DRIVER
          then do { let d = (del_if (ad_timer_connect d) d)\<lparr>ad_timer_connect := None\<rparr>;
                    h \<leftarrow> neu_driver_cache_destroy (dr_cache d);
                    Some (d\<lparr>dr_cache := neu_driver_cache_new h\<rparr>) }
          else Some d }"

section \<open>Adding tags to several groups\<close>

record neu_gdatatag =
  gd_group :: string
  gd_interval :: u32
  gd_tags :: "neu_datatag list"

definition NEU_DEFAULT_GROUP_INTERVAL :: u16 where "NEU_DEFAULT_GROUP_INTERVAL = 100"

definition zero_add_tag :: neu_resp_add_tag where
  "zero_add_tag = \<lparr>ra_index = 0, ra_error = 0, ra_results = []\<rparr>"

text \<open>The tags are changed in place: the checked tags come back, or the first error.\<close>

fun validate_tags :: "('p, 'u) neu_plugin_intf_funs \<Rightarrow> neu_datatag list \<Rightarrow> ('p, 'u) neu_adapter \<Rightarrow>
    (neu_err \<times> neu_datatag list \<times> ('p, 'u) neu_adapter) option" where
  "validate_tags intf [] d = Some (0, [], d)"
| "validate_tags intf (t # ts) d =
     do { (rc, t, d) \<leftarrow> neu_adapter_driver_validate_tag intf t d;
          if rc \<noteq> 0 then Some (rc, t # ts, d)
          else do { (rc, ts, d) \<leftarrow> validate_tags intf ts d; Some (rc, t # ts, d) } }"

fun validate_groups :: "('p, 'u) neu_plugin_intf_funs \<Rightarrow> neu_gdatatag list \<Rightarrow> ('p, 'u) neu_adapter \<Rightarrow>
    (neu_err \<times> neu_gdatatag list \<times> ('p, 'u) neu_adapter) option" where
  "validate_groups intf [] d = Some (0, [], d)"
| "validate_groups intf (g # gs) d =
     do { (rc, ts, d) \<leftarrow> validate_tags intf (gd_tags g) d;
          let g = g\<lparr>gd_tags := ts\<rparr>;
          if rc \<noteq> 0 then Some (rc, g # gs, d)
          else do { (rc, gs, d) \<leftarrow> validate_groups intf gs d; Some (rc, g # gs, d) } }"

definition neu_adapter_validate_gtags :: "('p, 'u) neu_plugin_intf_funs \<Rightarrow> neu_gdatatag list \<Rightarrow> ('p, 'u) neu_adapter \<Rightarrow>
    (neu_err \<times> neu_gdatatag list \<times> ('p, 'u) neu_adapter) option" where
  "neu_adapter_validate_gtags intf groups d =
     (if uint (neu_adapter_driver_new_group_count d (map gd_group groups)) + uint (neu_adapter_driver_group_count d)
           > int NEU_GROUP_MAX_PER_NODE
      then Some (NEU_ERR_GROUP_MAX_GROUPS, groups, d)
      else validate_groups intf groups d)"

text \<open>The tags of the groups before the one that was refused are given back.\<close>

definition give_back :: "('p, 'u) neu_plugin_intf_funs \<Rightarrow> neu_gdatatag list \<Rightarrow> ('p, 'u) neu_adapter \<Rightarrow> ('p, 'u) neu_adapter" where
  "give_back intf groups d = fold (\<lambda>g d. snd (neu_adapter_driver_try_del_tag intf (int (length (gd_tags g))) d)) groups d"

fun try_add_groups :: "('p, 'u) neu_plugin_intf_funs \<Rightarrow> neu_gdatatag list \<Rightarrow> neu_gdatatag list \<Rightarrow> ('p, 'u) neu_adapter \<Rightarrow>
    neu_err \<times> ('p, 'u) neu_adapter" where
  "try_add_groups intf before [] d = (0, d)"
| "try_add_groups intf before (g # gs) d =
     (let (rc, d) = neu_adapter_driver_try_add_tag intf (gd_group g) (gd_tags g) d in
      if rc \<noteq> 0 then (rc, give_back intf before d) else try_add_groups intf (before @ [g]) gs d)"

definition neu_adapter_try_add_gtags :: "('p, 'u) neu_plugin_intf_funs \<Rightarrow> neu_gdatatag list \<Rightarrow> ('p, 'u) neu_adapter \<Rightarrow>
    neu_err \<times> ('p, 'u) neu_adapter" where
  "neu_adapter_try_add_gtags intf groups d = try_add_groups intf [] groups d"

fun add_tags :: "env \<Rightarrow> ('p, 'u) neu_plugin_intf_funs \<Rightarrow> string \<Rightarrow> u16 \<Rightarrow> neu_datatag list \<Rightarrow> neu_datatag list \<Rightarrow> ('p, 'u) neu_adapter \<Rightarrow>
    (neu_err \<times> neu_datatag list \<times> nat \<times> ('p, 'u) neu_adapter) option" where
  "add_tags en intf grp interval before [] d = Some (0, before, length before, d)"
| "add_tags en intf grp interval before (t # ts) d =
     do { (rc, t, d) \<leftarrow> neu_adapter_driver_add_tag en intf grp t interval d;
          if rc \<noteq> 0 then Some (rc, before @ t # ts, length before, d)
          else add_tags en intf grp interval (before @ [t]) ts d }"

fun del_tags :: "env \<Rightarrow> ('p, 'u) neu_plugin_intf_funs \<Rightarrow> string \<Rightarrow> neu_datatag list \<Rightarrow> ('p, 'u) neu_adapter \<Rightarrow>
    ('p, 'u) neu_adapter option" where
  "del_tags en intf grp [] d = Some d"
| "del_tags en intf grp (t # ts) d =
     Option.bind (neu_adapter_driver_del_tag en intf grp (dt_name t) d) (\<lambda>(_, d). del_tags en intf grp ts d)"

fun del_groups_tags :: "env \<Rightarrow> ('p, 'u) neu_plugin_intf_funs \<Rightarrow> neu_gdatatag list \<Rightarrow> ('p, 'u) neu_adapter \<Rightarrow>
    ('p, 'u) neu_adapter option" where
  "del_groups_tags en intf [] d = Some d"
| "del_groups_tags en intf (g # gs) d = Option.bind (del_tags en intf (gd_group g) (gd_tags g) d) (del_groups_tags en intf gs)"

text \<open>
  A tag that cannot be added takes back all tags added before, of this group and of the groups
  before; the groups that were created stay.
\<close>

fun add_groups :: "env \<Rightarrow> ('p, 'u) neu_plugin_intf_funs \<Rightarrow> neu_gdatatag list \<Rightarrow> neu_gdatatag list \<Rightarrow> ('p, 'u) neu_adapter \<Rightarrow>
    (neu_err \<times> neu_gdatatag list \<times> ('p, 'u) neu_adapter) option" where
  "add_groups en intf before [] d = Some (0, before, d)"
| "add_groups en intf before (g # gs) d =
     do { (_, d) \<leftarrow> neu_adapter_driver_add_group en (gd_group g) (gd_interval g) d;
          let d = emit (Store_add_group (ad_name d) (gd_group g) (gd_interval g)) d;
          (rc, ts, i, d) \<leftarrow> add_tags en intf (gd_group g) (ucast (gd_interval g)) [] (gd_tags g) d;
          let g = g\<lparr>gd_tags := ts\<rparr>;
          if rc \<noteq> 0
          then do { d \<leftarrow> del_groups_tags en intf before d;
                    d \<leftarrow> del_tags en intf (gd_group g) (take i ts) d;
                    let d = snd (neu_adapter_driver_try_del_tag intf (int (length ts) - int i) d);
                    Some (rc, before @ g # gs, give_back intf gs d) }
          else add_groups en intf (before @ [g]) gs d }"

definition neu_adapter_add_gtags :: "env \<Rightarrow> ('p, 'u) neu_plugin_intf_funs \<Rightarrow> neu_gdatatag list \<Rightarrow> ('p, 'u) neu_adapter \<Rightarrow>
    (neu_err \<times> neu_gdatatag list \<times> ('p, 'u) neu_adapter) option" where
  "neu_adapter_add_gtags en intf groups d = add_groups en intf [] groups d"

section \<open>Messages\<close>

datatype ctl = NEU_ADAPTER_CTL_START | NEU_ADAPTER_CTL_STOP

datatype adapter_req =
    NEU_REQ_SUBSCRIBE_GROUP neu_req_subscribe
  | NEU_REQ_UNSUBSCRIBE_GROUP string string
  | NEU_REQ_READ_GROUP neu_req_read_group
  | NEU_REQ_READ_GROUP_PAGINATE neu_req_read_group_paginate
  | NEU_REQ_WRITE_TAG neu_req_write_tag
  | NEU_REQ_WRITE_TAGS string "(string \<times> neu_dvalue) list"
  | NEU_REQ_WRITE_GTAGS "(string \<times> (string \<times> neu_dvalue) list) list"
  | NEU_REQ_NODE_SETTING string
  | NEU_REQ_GET_NODE_SETTING
  | NEU_REQ_GET_GROUP string
  | NEU_REQ_GET_TAG string string
  | NEU_REQ_ADD_GROUP string string u32
  | NEU_REQ_UPDATE_DRIVER_GROUP string string string u32
  | NEU_REQ_DEL_GROUP string string
  | NEU_REQ_NODE_CTL ctl
  | NEU_REQ_NODE_RENAME string string
  | NEU_REQ_DEL_TAG string string "string list"
  | NEU_REQ_ADD_TAG string string "neu_datatag list"
  | NEU_REQ_ADD_GTAG string "neu_gdatatag list"
  | NEU_REQ_UPDATE_TAG string string "neu_datatag list"
  | NEU_REQ_RENAME_TAG string string string string
  | NEU_REQ_NODE_UNINIT
  | NEU_REQ_SCAN_TAGS string string
  | NEU_REQ_TEST_READ_TAG string neu_datatag
  | NEU_REQ_DRIVER_ACTION string

definition is_driver :: "('p, 'u) neu_adapter \<Rightarrow> bool" where
  "is_driver d \<longleftrightarrow> ad_type d = NEU_NA_TYPE_DRIVER"

definition not_allowed :: "neu_reqresp_head \<Rightarrow> ('p, 'u) neu_adapter \<Rightarrow> ('p, 'u) neu_adapter option" where
  "not_allowed req d = Some (respond req (Body_error NEU_ERR_GROUP_NOT_ALLOW) d)"

text \<open>What \<^verbatim>\<open>adapter_storage_add_tags\<close> passes on.\<close>

definition adapter_storage_add_tags :: "string \<Rightarrow> string \<Rightarrow> neu_datatag list \<Rightarrow> ('p, 'u) neu_adapter \<Rightarrow> ('p, 'u) neu_adapter" where
  "adapter_storage_add_tags node grp tags d = (if tags = [] then d else emit (Store_add_tags node grp tags) d)"

fun dedup_results :: "(u16 \<times> neu_err) list \<Rightarrow> (u16 \<times> neu_err) list" where
  "dedup_results [] = []"
| "dedup_results (r # rs) = r # dedup_results (filter (\<lambda>x. fst x \<noteq> fst r) rs)"

definition dedup_add_tag_results_by_index :: "neu_resp_add_tag \<Rightarrow> neu_resp_add_tag" where
  "dedup_add_tag_results_by_index resp = resp\<lparr>ra_results := dedup_results (ra_results resp)\<rparr>"

definition neu_resp_add_tag_result :: "neu_resp_add_tag \<Rightarrow> nat \<Rightarrow> neu_err \<Rightarrow> neu_resp_add_tag" where
  "neu_resp_add_tag_result resp i e =
     resp\<lparr>ra_results := ra_results resp @ [(of_nat i, e)], ra_index := of_nat i, ra_error := e\<rparr>"

definition refused :: "neu_resp_add_tag \<Rightarrow> bool" where
  "refused resp \<longleftrightarrow> ra_error resp \<noteq> 0 \<or> ra_results resp \<noteq> [] \<or> ra_index resp \<noteq> 0"

section \<open>Handlers for groups and tags\<close>

definition handle_add_group :: "env \<Rightarrow> neu_reqresp_head \<Rightarrow> string \<Rightarrow> u32 \<Rightarrow> ('p, 'u) neu_adapter \<Rightarrow> ('p, 'u) neu_adapter option" where
  "handle_add_group en req grp interval d =
     do { (e, d) \<leftarrow> (if interval < NEU_GROUP_INTERVAL_LIMIT then Some (NEU_ERR_GROUP_PARAMETER_INVALID, d)
                     else if is_driver d then neu_adapter_driver_add_group en grp interval d
                     else Some (NEU_ERR_GROUP_NOT_ALLOW, d));
          let d = (if e = NEU_ERR_SUCCESS then emit (Store_add_group (ad_name d) grp interval) d else d);
          Some (respond req (Body_error e) d) }"

definition handle_update_group :: "env \<Rightarrow> neu_reqresp_head \<Rightarrow> string \<Rightarrow> string \<Rightarrow> string \<Rightarrow> u32 \<Rightarrow> ('p, 'u) neu_adapter \<Rightarrow>
    ('p, 'u) neu_adapter option" where
  "handle_update_group en req driver grp new_name interval d =
     do { (e, d) \<leftarrow> (if is_driver d then neu_adapter_driver_update_group en grp (Some new_name) interval d
                     else Some (NEU_ERR_GROUP_NOT_ALLOW, d));
          let d = (if e = NEU_ERR_SUCCESS then emit (Store_update_group (ad_name d) grp new_name interval) d else d);
          Some (respond req (Body_update_driver_group driver grp new_name e) d) }"

definition handle_del_group :: "('p, 'u) neu_plugin_intf_funs \<Rightarrow> neu_reqresp_head \<Rightarrow> string \<Rightarrow> string \<Rightarrow> ('p, 'u) neu_adapter \<Rightarrow>
    ('p, 'u) neu_adapter option" where
  "handle_del_group intf req driver grp d =
     do { (e, d) \<leftarrow> neu_adapter_driver_del_group intf grp d;
          let d = (if e = NEU_ERR_SUCCESS then emit (Store_del_group driver grp) d else d);
          Some (respond req (Body_error e) d) }"

text \<open>The loop over the tags to delete stops at the first that is not there.\<close>

fun del_named :: "env \<Rightarrow> ('p, 'u) neu_plugin_intf_funs \<Rightarrow> string \<Rightarrow> string \<Rightarrow> string list \<Rightarrow> ('p, 'u) neu_adapter \<Rightarrow>
    (neu_err \<times> ('p, 'u) neu_adapter) option" where
  "del_named en intf driver grp [] d = Some (0, d)"
| "del_named en intf driver grp (t # ts) d =
     do { (ret, d) \<leftarrow> neu_adapter_driver_del_tag en intf grp t d;
          if ret = 0 then del_named en intf driver grp ts (emit (Store_del_tag driver grp t) d) else Some (ret, d) }"

definition handle_del_tag :: "env \<Rightarrow> ('p, 'u) neu_plugin_intf_funs \<Rightarrow> neu_reqresp_head \<Rightarrow> string \<Rightarrow> string \<Rightarrow> string list \<Rightarrow>
    ('p, 'u) neu_adapter \<Rightarrow> ('p, 'u) neu_adapter option" where
  "handle_del_tag en intf req driver grp tags d =
     do { (e, d) \<leftarrow> del_named en intf driver grp tags d; Some (respond req (Body_error e) d) }"

text \<open>The checks of a request to add tags: every tag is looked at, every conflict is noted.\<close>

fun check_new_tags :: "('p, 'u) neu_plugin_intf_funs \<Rightarrow> string \<Rightarrow> neu_datatag list \<Rightarrow> neu_datatag list \<Rightarrow> neu_resp_add_tag \<Rightarrow>
    ('p, 'u) neu_adapter \<Rightarrow> (neu_resp_add_tag \<times> neu_datatag list \<times> ('p, 'u) neu_adapter) option" where
  "check_new_tags intf grp before [] resp d = Some (resp, before, d)"
| "check_new_tags intf grp before (t # ts) resp d =
     do { let i = length before;
          let resp = fold (\<lambda>k resp. if dt_name t = dt_name k then neu_resp_add_tag_result resp i NEU_ERR_TAG_NAME_CONFLICT else resp)
                       before resp;
          (ret, t, d) \<leftarrow> neu_adapter_driver_validate_tag intf t d;
          let resp = (if ret \<noteq> 0 then neu_resp_add_tag_result resp i ret else resp);
          let ret = neu_adapter_driver_check_tag d grp t;
          let resp = (if ret \<noteq> 0 then neu_resp_add_tag_result resp i ret else resp);
          check_new_tags intf grp (before @ [t]) ts resp d }"

fun add_all_tags :: "env \<Rightarrow> ('p, 'u) neu_plugin_intf_funs \<Rightarrow> string \<Rightarrow> neu_datatag list \<Rightarrow> neu_datatag list \<Rightarrow> ('p, 'u) neu_adapter \<Rightarrow>
    (neu_datatag list \<times> ('p, 'u) neu_adapter) option" where
  "add_all_tags en intf grp before [] d = Some (before, d)"
| "add_all_tags en intf grp before (t # ts) d =
     do { (_, t, d) \<leftarrow> neu_adapter_driver_add_tag en intf grp t NEU_DEFAULT_GROUP_INTERVAL d;
          add_all_tags en intf grp (before @ [t]) ts d }"

definition handle_add_tag :: "env \<Rightarrow> ('p, 'u) neu_plugin_intf_funs \<Rightarrow> neu_reqresp_head \<Rightarrow> string \<Rightarrow> string \<Rightarrow> neu_datatag list \<Rightarrow>
    ('p, 'u) neu_adapter \<Rightarrow> ('p, 'u) neu_adapter option" where
  "handle_add_tag en intf req driver grp tags d =
     do { (resp, tags, d) \<leftarrow> (if is_driver d then check_new_tags intf grp [] tags zero_add_tag d
              else Some (neu_resp_add_tag_result zero_add_tag 0 NEU_ERR_GROUP_NOT_ALLOW, tags, d));
          let answer = (\<lambda>resp. respond req (Body_add_tag (dedup_add_tag_results_by_index resp)));
          if refused resp then Some (answer resp d)
          else do { let (ret, d) = neu_adapter_driver_try_add_tag intf grp tags d;
                    let resp = (if ret \<noteq> 0 then resp\<lparr>ra_error := ret\<rparr> else resp);
                    if refused resp then Some (answer resp d)
                    else do { (tags, d) \<leftarrow> add_all_tags en intf grp [] tags d;
                              Some (answer resp (adapter_storage_add_tags driver grp tags d)) } } }"

definition count_index :: "neu_gdatatag list \<Rightarrow> u16" where
  "count_index groups = of_nat (length (concat (map gd_tags groups)))"

definition handle_add_gtag :: "env \<Rightarrow> ('p, 'u) neu_plugin_intf_funs \<Rightarrow> neu_reqresp_head \<Rightarrow> string \<Rightarrow> neu_gdatatag list \<Rightarrow>
    ('p, 'u) neu_adapter \<Rightarrow> ('p, 'u) neu_adapter option" where
  "handle_add_gtag en intf req driver groups d =
     (let failed = (\<lambda>e d. Some (respond req (Body_add_gtag (zero_add_tag\<lparr>ra_error := e\<rparr>)) d)) in
      if \<not> is_driver d then failed NEU_ERR_GROUP_NOT_ALLOW d
      else do { (rc, groups, d) \<leftarrow> neu_adapter_validate_gtags intf groups d;
                if rc \<noteq> 0 then failed rc d
                else do { let (rc, d) = neu_adapter_try_add_gtags intf groups d;
                          if rc \<noteq> 0 then failed rc d
                          else do { (rc, groups, d) \<leftarrow> neu_adapter_add_gtags en intf groups d;
                                    if rc \<noteq> 0 then failed rc d
                                    else Some (respond req (Body_add_gtag (zero_add_tag\<lparr>ra_index := count_index groups\<rparr>))
                                      (fold (\<lambda>g. adapter_storage_add_tags driver (gd_group g) (gd_tags g)) groups d)) } } })"

fun update_tags :: "env \<Rightarrow> ('p, 'u) neu_plugin_intf_funs \<Rightarrow> string \<Rightarrow> string \<Rightarrow> nat \<Rightarrow> neu_datatag list \<Rightarrow> ('p, 'u) neu_adapter \<Rightarrow>
    (neu_resp_add_tag \<times> nat \<times> ('p, 'u) neu_adapter) option" where
  "update_tags en intf driver grp i [] d = Some (zero_add_tag, i, d)"
| "update_tags en intf driver grp i (t # ts) d =
     do { (ret, t, d) \<leftarrow> neu_adapter_driver_validate_tag intf t d;
          if ret \<noteq> 0 then Some (neu_resp_add_tag_result zero_add_tag i ret, i, d)
          else do { (ret, t, d) \<leftarrow> neu_adapter_driver_update_tag en intf grp t d;
                    if ret \<noteq> 0 then Some (neu_resp_add_tag_result zero_add_tag i ret, i, d)
                    else update_tags en intf driver grp (Suc i) ts (emit (Store_update_tag driver grp t) d) } }"

definition handle_update_tag :: "env \<Rightarrow> ('p, 'u) neu_plugin_intf_funs \<Rightarrow> neu_reqresp_head \<Rightarrow> string \<Rightarrow> string \<Rightarrow> neu_datatag list \<Rightarrow>
    ('p, 'u) neu_adapter \<Rightarrow> ('p, 'u) neu_adapter option" where
  "handle_update_tag en intf req driver grp tags d =
     do { (resp, n, d) \<leftarrow> (if is_driver d then update_tags en intf driver grp 0 tags d
              else Some (neu_resp_add_tag_result zero_add_tag 0 NEU_ERR_GROUP_NOT_ALLOW, 0, d));
          Some (respond req (Body_update_tag (resp\<lparr>ra_index := of_nat n\<rparr>)) d) }"

text \<open>When the database refuses the new name, the tag is renamed back.\<close>

definition handle_rename_tag :: "env \<Rightarrow> neu_reqresp_head \<Rightarrow> string \<Rightarrow> string \<Rightarrow> string \<Rightarrow> string \<Rightarrow> ('p, 'u) neu_adapter \<Rightarrow>
    ('p, 'u) neu_adapter option" where
  "handle_rename_tag en req driver grp old_name new_name d =
     do { (e, d) \<leftarrow> (if is_driver d then neu_adapter_driver_rename_tag en grp old_name new_name d
                     else Some (NEU_ERR_GROUP_NOT_ALLOW, d));
          (e, d) \<leftarrow> (if e \<noteq> 0 then Some (e, d)
                    else if en_stored en then Some (e, emit (Store_rename_tag driver grp old_name new_name) d)
                    else do { (_, d) \<leftarrow> neu_adapter_driver_rename_tag en grp new_name old_name d;
                              Some (NEU_ERR_EINTERNAL, d) });
          Some (respond req (Body_rename_tag e) d) }"

section \<open>The loop\<close>

definition handle_setting :: "('p, 'u) neu_plugin_intf_funs \<Rightarrow> neu_reqresp_head \<Rightarrow> string \<Rightarrow> ('p, 'u) neu_adapter \<Rightarrow> ('p, 'u) neu_adapter" where
  "handle_setting intf req setting d =
     (let (e, d) = neu_adapter_set_setting intf setting d;
          d = (if e = NEU_ERR_SUCCESS then emit (Store_setting (ad_name d) setting) d else d)
      in respond req (Body_error e) d)"

definition handle_get_setting :: "neu_reqresp_head \<Rightarrow> ('p, 'u) neu_adapter \<Rightarrow> ('p, 'u) neu_adapter" where
  "handle_get_setting req d =
     (case neu_adapter_get_setting d of
        Inl e \<Rightarrow> respond req (Body_error e) d
      | Inr s \<Rightarrow> respond req (Body_get_node_setting (strncpy_to (NEU_NODE_NAME_LEN - 1) (ad_name d)) s) d)"

definition handle_get_tag :: "neu_reqresp_head \<Rightarrow> string \<Rightarrow> string \<Rightarrow> ('p, 'u) neu_adapter \<Rightarrow> ('p, 'u) neu_adapter" where
  "handle_get_tag req grp name d =
     (let (e, tags) = (if is_driver d then neu_adapter_driver_query_tag d grp name else (NEU_ERR_GROUP_NOT_ALLOW, []))
      in if e \<noteq> NEU_ERR_SUCCESS then respond req (Body_error e) d else respond req (Body_get_tag tags) d)"

definition handle_ctl :: "('p, 'u) neu_plugin_intf_funs \<Rightarrow> neu_reqresp_head \<Rightarrow> ctl \<Rightarrow> ('p, 'u) neu_adapter \<Rightarrow> ('p, 'u) neu_adapter" where
  "handle_ctl intf req c d =
     (let (e, d) = (case c of NEU_ADAPTER_CTL_START \<Rightarrow> neu_adapter_start intf d | NEU_ADAPTER_CTL_STOP \<Rightarrow> neu_adapter_stop intf d)
      in respond req (Body_error e) d)"

text \<open>The answer to a renaming carries the new name as its sender, whether it succeeded or not.\<close>

definition handle_rename :: "env \<Rightarrow> neu_reqresp_head \<Rightarrow> string \<Rightarrow> string \<Rightarrow> ('p, 'u) neu_adapter \<Rightarrow> ('p, 'u) neu_adapter" where
  "handle_rename en req node new_name d =
     (let (e, d) = neu_adapter_rename en new_name d
      in emit (Response (req\<lparr>rh_receiver := rh_sender req, rh_sender := new_name\<rparr>) (Body_node_rename node new_name e)) d)"

definition handle_uninit :: "('p, 'u) neu_plugin_intf_funs \<Rightarrow> neu_reqresp_head \<Rightarrow> ('p, 'u) neu_adapter \<Rightarrow> ('p, 'u) neu_adapter option" where
  "handle_uninit intf req d =
     do { d \<leftarrow> neu_adapter_uninit intf d;
          Some (emit (Response ((neu_msg_exchange req)\<lparr>rh_sender := ad_name d\<rparr>) (Body_node_uninit (ad_name d))) d) }"

text \<open>
  Applications pass what they are sent to their plugin, whose handler is the argument \<open>request\<close>.
  Scans, tests and actions are passed to the driver without a look at the type of the node: for
  an application that is the use of memory that is not there.
\<close>

definition pass_on :: "('p \<Rightarrow> neu_reqresp_head \<Rightarrow> adapter_req \<Rightarrow> 'p) \<Rightarrow> neu_reqresp_head \<Rightarrow> adapter_req \<Rightarrow> ('p, 'u) neu_adapter \<Rightarrow>
    ('p, 'u) neu_adapter option" where
  "pass_on request req m d = Some (d\<lparr>ad_plugin := request (ad_plugin d) req m\<rparr>)"

definition adapter_loop :: "env \<Rightarrow> ('p, 'u) neu_plugin_intf_funs \<Rightarrow> ('p \<Rightarrow> neu_reqresp_head \<Rightarrow> adapter_req \<Rightarrow> 'p) \<Rightarrow>
    neu_reqresp_head \<Rightarrow> adapter_req \<Rightarrow> ('p, 'u) neu_adapter \<Rightarrow> ('p, 'u) neu_adapter option" where
  "adapter_loop en intf request req m d =
     (case m of
        NEU_REQ_SUBSCRIBE_GROUP cmd \<Rightarrow> if is_driver d then neu_adapter_driver_subscribe en cmd d else pass_on request req m d
      | NEU_REQ_UNSUBSCRIBE_GROUP grp app \<Rightarrow>
          if is_driver d then Some (neu_adapter_driver_unsubscribe grp app d) else pass_on request req m d
      | NEU_REQ_READ_GROUP cmd \<Rightarrow> if is_driver d then neu_adapter_driver_read_group en intf req cmd d else not_allowed req d
      | NEU_REQ_READ_GROUP_PAGINATE cmd \<Rightarrow>
          if is_driver d then neu_adapter_driver_read_group_paginate en intf req cmd d else not_allowed req d
      | NEU_REQ_WRITE_TAG cmd \<Rightarrow>
          if is_driver d then map_option snd (neu_adapter_driver_write_tag en req cmd d) else not_allowed req d
      | NEU_REQ_WRITE_TAGS grp tags \<Rightarrow>
          if is_driver d then map_option snd (neu_adapter_driver_write_tags en intf req grp tags d) else not_allowed req d
      | NEU_REQ_WRITE_GTAGS groups \<Rightarrow>
          if is_driver d then map_option snd (neu_adapter_driver_write_gtags en intf req groups d) else not_allowed req d
      | NEU_REQ_NODE_SETTING setting \<Rightarrow> Some (handle_setting intf req setting d)
      | NEU_REQ_GET_NODE_SETTING \<Rightarrow> Some (handle_get_setting req d)
      | NEU_REQ_GET_GROUP filtr \<Rightarrow>
          if is_driver d then Some (respond req (Body_get_group (neu_adapter_driver_get_group d filtr)) d) else not_allowed req d
      | NEU_REQ_GET_TAG grp name \<Rightarrow> Some (handle_get_tag req grp name d)
      | NEU_REQ_ADD_GROUP driver grp interval \<Rightarrow> handle_add_group en req grp interval d
      | NEU_REQ_UPDATE_DRIVER_GROUP driver grp new_name interval \<Rightarrow> handle_update_group en req driver grp new_name interval d
      | NEU_REQ_DEL_GROUP driver grp \<Rightarrow>
          if is_driver d then handle_del_group intf req driver grp d else pass_on request req m d
      | NEU_REQ_NODE_CTL c \<Rightarrow> Some (handle_ctl intf req c d)
      | NEU_REQ_NODE_RENAME node new_name \<Rightarrow> Some (handle_rename en req node new_name d)
      | NEU_REQ_DEL_TAG driver grp tags \<Rightarrow>
          if is_driver d then handle_del_tag en intf req driver grp tags d else pass_on request req m d
      | NEU_REQ_ADD_TAG driver grp tags \<Rightarrow> handle_add_tag en intf req driver grp tags d
      | NEU_REQ_ADD_GTAG driver groups \<Rightarrow> handle_add_gtag en intf req driver groups d
      | NEU_REQ_UPDATE_TAG driver grp tags \<Rightarrow> handle_update_tag en intf req driver grp tags d
      | NEU_REQ_RENAME_TAG driver grp old_name new_name \<Rightarrow> handle_rename_tag en req driver grp old_name new_name d
      | NEU_REQ_NODE_UNINIT \<Rightarrow> handle_uninit intf req d
      | NEU_REQ_SCAN_TAGS ident ctx \<Rightarrow> if is_driver d then neu_adapter_driver_scan_tags en intf req ident ctx d else None
      | NEU_REQ_TEST_READ_TAG grp tag \<Rightarrow> if is_driver d then neu_adapter_driver_test_read_tag en intf req grp tag d else None
      | NEU_REQ_DRIVER_ACTION cmd \<Rightarrow>
          if is_driver d then Some (respond req (Body_driver_action 0) (snd (neu_adapter_driver_cmd intf cmd d))) else None)"

section \<open>Creating a node\<close>

text \<open>
  What is stored of a driver: its groups in order, each with its tags when they could be read.
  \<open>-1\<close> as the interval of a tag that is loaded is 65535; the group is there already.
\<close>

type_synonym stored_group = "string \<times> u32 \<times> neu_datatag list option"

fun load_tags :: "env \<Rightarrow> ('p, 'u) neu_plugin_intf_funs \<Rightarrow> string \<Rightarrow> neu_datatag list \<Rightarrow> ('p, 'u) neu_adapter \<Rightarrow>
    ('p, 'u) neu_adapter option" where
  "load_tags en intf grp [] d = Some d"
| "load_tags en intf grp (t # ts) d =
     do { (_, t, d) \<leftarrow> neu_adapter_driver_add_tag en intf grp t (- 1) d;
          load_tags en intf grp ts (snd (neu_adapter_driver_load_tag intf grp [t] d)) }"

fun load_groups :: "env \<Rightarrow> ('p, 'u) neu_plugin_intf_funs \<Rightarrow> stored_group list \<Rightarrow> ('p, 'u) neu_adapter \<Rightarrow> ('p, 'u) neu_adapter option" where
  "load_groups en intf [] d = Some d"
| "load_groups en intf ((name, interval, tags) # gs) d =
     do { (_, d) \<leftarrow> neu_adapter_driver_add_group en name interval d;
          d \<leftarrow> (case tags of None \<Rightarrow> Some d | Some tags \<Rightarrow> load_tags en intf name tags d);
          load_groups en intf gs d }"

definition adapter_load_group_and_tag :: "env \<Rightarrow> ('p, 'u) neu_plugin_intf_funs \<Rightarrow> stored_group list option \<Rightarrow> ('p, 'u) neu_adapter \<Rightarrow>
    ('p, 'u) neu_adapter option" where
  "adapter_load_group_and_tag en intf group_infos d =
     (case group_infos of None \<Rightarrow> Some d | Some gs \<Rightarrow> load_groups en intf gs d)"

definition neu_adapter_driver_create :: "heap \<Rightarrow> string \<Rightarrow> neu_na_type_e \<Rightarrow> 'p \<Rightarrow> ('p, 'u) neu_adapter" where
  "neu_adapter_driver_create h name typ plugin =
     \<lparr>ad_name = name, ad_setting = None, ad_state = NEU_NODE_RUNNING_STATE_INIT, ad_type = typ, ad_plugin = plugin,
      ad_timer_connect = None, ad_next = 1, ad_timers = [], ad_out = [], dr_cache = neu_driver_cache_new h,
      dr_tag_cnt = 0, dr_groups = []\<rparr>"

definition adapter_load_setting :: "('p, 'u) neu_plugin_intf_funs \<Rightarrow> string option \<Rightarrow> ('p, 'u) neu_adapter \<Rightarrow> ('p, 'u) neu_adapter" where
  "adapter_load_setting intf setting d =
     (case setting of
        None \<Rightarrow> d
      | Some s \<Rightarrow>
          let (p, rv) = pi_setting intf (ad_plugin d) s; d = d\<lparr>ad_plugin := p\<rparr> in
          if rv = 0 then d\<lparr>ad_setting := Some s, ad_state := NEU_NODE_RUNNING_STATE_READY\<rparr> else d)"

text \<open>
  \<open>setting\<close> and \<open>groups\<close> are what the database has for the node. A node whose plugin cannot be
  initialised is destroyed again.
\<close>

definition neu_adapter_create :: "env \<Rightarrow> ('p, 'u) neu_plugin_intf_funs \<Rightarrow> heap \<Rightarrow> string \<Rightarrow> neu_na_type_e \<Rightarrow> 'p \<Rightarrow> bool \<Rightarrow>
    string option \<Rightarrow> stored_group list option \<Rightarrow> (neu_err, ('p, 'u) neu_adapter) sum option" where
  "neu_adapter_create en intf h name typ plugin load setting groups =
     do { let (p, init_rv) = pi_init intf plugin load;
          let d = adapter_load_setting intf setting (neu_adapter_driver_create h name typ p);
          d \<leftarrow> (if typ = NEU_NA_TYPE_DRIVER then adapter_load_group_and_tag en intf groups d else Some d);
          let d = emit (Store_state (ad_name d) (ad_state d)) d;
          Some (if init_rv \<noteq> 0 then Inl init_rv else Inr d) }"

end
