(* ===== verification/Node_Ok.thy ===== *)
theory Node_Ok
  imports Adapter
begin

text \<open>
  What holds of a node in every state it can reach: group names and addresses are distinct, the
  count of tags is right, and the live timers are exactly those of the groups of a running
  driver, so that no timer calls with a group that is gone.
\<close>

section \<open>Timers and groups\<close>

definition timer :: "nat option \<Rightarrow> timer_cb \<Rightarrow> nat \<Rightarrow> u32 \<Rightarrow> u32 \<Rightarrow> neu_event_timer multiset" where
  "timer t cb grp s ms =
     (case t of None \<Rightarrow> {#}
      | Some t \<Rightarrow> {#\<lparr>tm_id = t, tm_cb = cb, tm_group = grp, tm_second = s, tm_millisecond = ms\<rparr>#})"

definition timers_of :: "'u group_t \<Rightarrow> neu_event_timer multiset" where
  "timers_of g =
     (let i = gr_interval (g_group g) in
      timer (g_read g) Read_callback (g_addr g) (i div 1000) (i mod 1000) +
      timer (g_report g) Report_callback (g_addr g) (i div 1000) (i mod 1000) +
      timer (g_write g) Write_callback (g_addr g) 0 3)"

definition timers_on :: "'u group_t \<Rightarrow> bool" where
  "timers_on g \<longleftrightarrow> g_read g \<noteq> None \<and> g_report g \<noteq> None \<and> g_write g \<noteq> None"

definition timers_off :: "'u group_t \<Rightarrow> bool" where
  "timers_off g \<longleftrightarrow> g_read g = None \<and> g_report g = None \<and> g_write g = None"

text \<open>The groups whose addresses are in \<open>S\<close> have their timers, the others have none.\<close>

definition timed :: "nat set \<Rightarrow> ('p, 'u) neu_adapter \<Rightarrow> bool" where
  "timed S d \<longleftrightarrow>
     distinct (map g_addr (dr_groups d)) \<and> (\<forall>g \<in> set (dr_groups d). g_addr g < ad_next d) \<and>
     (\<forall>g \<in> set (dr_groups d). if g_addr g \<in> S then timers_on g else timers_off g) \<and>
     mset (ad_timers d) = sum_list (map timers_of (dr_groups d)) + timer (ad_timer_connect d) Try_connect 0 5 0 \<and>
     distinct (map tm_id (ad_timers d)) \<and> (\<forall>t \<in> set (ad_timers d). tm_id t < ad_next d)"

lemma timers_off_of [simp]: "timers_off g \<Longrightarrow> timers_of g = {#}"
  by (simp add: timers_off_def timers_of_def timer_def)

text \<open>A list of groups around the one with a given address.\<close>

lemma groups_split:
  assumes "distinct (map g_addr gs)" "a \<in> g_addr ` set gs"
  obtains xs g ys where "gs = xs @ g # ys" "g_addr g = a" "a \<notin> g_addr ` set xs" "a \<notin> g_addr ` set ys"
    "\<And>g'. g_addr g' = a \<Longrightarrow> map (\<lambda>x. if g_addr x = a then g' else x) gs = xs @ g' # ys"
proof -
  obtain g where g: "g \<in> set gs" "g_addr g = a" using assms(2) by auto
  then obtain xs ys where gs: "gs = xs @ g # ys" by (auto dest: split_list)
  have nin: "a \<notin> g_addr ` set xs" "a \<notin> g_addr ` set ys" using assms(1) gs g(2) by auto
  have "map (\<lambda>x. if g_addr x = a then g' else x) zs = zs" if "a \<notin> g_addr ` set zs" for zs g'
    using that by (induction zs) auto
  note same = this [OF nin(1)] this [OF nin(2)]
  show thesis by (rule that [OF gs g(2) nin]) (simp add: gs g(2) same)
qed

lemma start_group_timer_eq:
  "start_group_timer g d =
     (g\<lparr>g_read := Some (ad_next d), g_report := Some (Suc (ad_next d)), g_write := Some (Suc (Suc (ad_next d)))\<rparr>,
      d\<lparr>ad_next := Suc (Suc (Suc (ad_next d))), ad_timers := ad_timers d @
        [\<lparr>tm_id = ad_next d, tm_cb = Read_callback, tm_group = g_addr g,
          tm_second = gr_interval (g_group g) div 1000, tm_millisecond = gr_interval (g_group g) mod 1000\<rparr>,
         \<lparr>tm_id = Suc (ad_next d), tm_cb = Report_callback, tm_group = g_addr g,
          tm_second = gr_interval (g_group g) div 1000, tm_millisecond = gr_interval (g_group g) mod 1000\<rparr>,
         \<lparr>tm_id = Suc (Suc (ad_next d)), tm_cb = Write_callback, tm_group = g_addr g, tm_second = 0, tm_millisecond = 3\<rparr>]\<rparr>)"
  by (simp add: start_group_timer_def neu_event_add_timer_def Let_def)

lemma timed_start:
  assumes "timed S d" "g_addr g \<in> g_addr ` set (dr_groups d)" "g_addr g \<notin> S" "start_group_timer g d = (g', d')"
  shows "timed (insert (g_addr g) S) (set_group g' d')"
proof -
  obtain xs h ys where gs: "dr_groups d = xs @ h # ys" "g_addr h = g_addr g" "g_addr g \<notin> g_addr ` set xs"
      "g_addr g \<notin> g_addr ` set ys"
    and upd: "\<And>x. g_addr x = g_addr g \<Longrightarrow> map (\<lambda>y. if g_addr y = g_addr g then x else y) (dr_groups d) = xs @ x # ys"
    using groups_split [of "dr_groups d" "g_addr g"] assms(1,2) by (auto simp: timed_def)
  have off: "timers_of h = {#}" using assms(1,3) gs(1,2) by (auto simp: timed_def)
  have grp: "dr_groups (set_group g' d') = xs @ g' # ys" "g_addr g' = g_addr g" "ad_timer_connect (set_group g' d') = ad_timer_connect d"
    using assms(4) upd by (auto simp: set_group_def start_group_timer_eq)
  have g': "timers_on g'" "timers_of g' = mset (drop (length (ad_timers d)) (ad_timers d'))"
    "mset (ad_timers d') = mset (ad_timers d) + timers_of g'"
    using assms(4) by (auto simp: start_group_timer_eq timers_of_def timer_def timers_on_def Let_def)
  have nxt: "ad_next (set_group g' d') = Suc (Suc (Suc (ad_next d)))" "ad_timers (set_group g' d') = ad_timers d'"
    "map tm_id (ad_timers d') = map tm_id (ad_timers d) @ [ad_next d, Suc (ad_next d), Suc (Suc (ad_next d))]"
    using assms(4) by (auto simp: start_group_timer_eq set_group_def)
  have ids: "\<forall>i \<in> set (map tm_id (ad_timers d')). i < Suc (Suc (Suc (ad_next d)))" "distinct (map tm_id (ad_timers d'))"
    using assms(1) unfolding nxt by (auto simp: timed_def less_Suc_eq)
  have on: "\<forall>x \<in> set (xs @ g' # ys). if g_addr x \<in> insert (g_addr g) S then timers_on x else timers_off x"
    using assms(1) gs(3,4) grp(2) g'(1) by (auto simp: timed_def gs(1) image_iff)
  have addr: "distinct (map g_addr (xs @ g' # ys))" "\<forall>x \<in> set (xs @ g' # ys). g_addr x < Suc (Suc (Suc (ad_next d)))"
    using assms(1) gs(2) grp(2) by (auto simp: timed_def gs(1) less_Suc_eq image_iff)
  have "mset (ad_timers d') = sum_list (map timers_of (xs @ g' # ys)) + timer (ad_timer_connect d) Try_connect 0 5 0"
    using assms(1) off g'(3) by (simp add: timed_def gs(1))
  then show ?thesis
    unfolding timed_def grp nxt(1,2) using on addr ids by simp
qed

lemma timed_set:
  assumes "timed S d" "g \<in> set (dr_groups d)" "g_addr g' = g_addr g" "timers_of g' = timers_of g" "timers_on g' = timers_on g"
    "timers_off g' = timers_off g"
  shows "timed S (set_group g' d)"
proof -
  obtain xs h ys where gs: "dr_groups d = xs @ h # ys" "g_addr h = g_addr g" "g_addr g \<notin> g_addr ` set xs"
      "g_addr g \<notin> g_addr ` set ys"
    and upd: "\<And>x. g_addr x = g_addr g \<Longrightarrow> map (\<lambda>y. if g_addr y = g_addr g then x else y) (dr_groups d) = xs @ x # ys"
    using groups_split [of "dr_groups d" "g_addr g"] assms(1,2) by (auto simp: timed_def)
  have h: "h = g" using assms(2) gs by auto
  have grp: "dr_groups (set_group g' d) = xs @ g' # ys" using assms(3) upd by (simp add: set_group_def)
  show ?thesis
    unfolding timed_def grp using assms by (simp add: timed_def gs(1) h set_group_def)
qed

lemma same_timers:
  assumes "g_addr g' = g_addr g" "g_read g' = g_read g" "g_report g' = g_report g" "g_write g' = g_write g"
    "gr_interval (g_group g') = gr_interval (g_group g)"
  shows "timers_of g' = timers_of g" "timers_on g' = timers_on g" "timers_off g' = timers_off g"
  using assms by (simp_all add: timers_of_def timers_on_def timers_off_def Let_def)

lemma filter_timers:
  assumes "mset ts = A + B" "distinct (map tm_id ts)"
  shows "mset (filter (\<lambda>x. tm_id x \<notin> tm_id ` set_mset A) ts) = B"
proof -
  obtain as bs where ab: "A = mset as" "B = mset bs" using ex_mset by metis
  have "mset (map tm_id ts) = mset (map tm_id (as @ bs))" using assms(1) by (simp add: ab)
  then have "distinct (map tm_id (as @ bs))" using assms(2) by (metis mset_eq_imp_distinct_iff)
  then have "filter (\<lambda>x. tm_id x \<notin> tm_id ` set as) bs = bs" by (intro filter_True) auto
  moreover have "filter (\<lambda>x. tm_id x \<notin> tm_id ` set as) as = []" by (auto simp: filter_empty_conv)
  ultimately have "mset (filter (\<lambda>x. tm_id x \<notin> tm_id ` set as) (as @ bs)) = mset bs" by (simp del: mset_filter)
  then show ?thesis using assms(1) by (simp add: ab)
qed

lemma stop_group_timer_eq:
  "stop_group_timer g d =
     (g\<lparr>g_report := None, g_read := None, g_write := None\<rparr>,
      d\<lparr>ad_timers := filter (\<lambda>x. tm_id x \<notin> tm_id ` set_mset (timers_of g)) (ad_timers d)\<rparr>)"
  by (cases "g_read g"; cases "g_report g"; cases "g_write g")
    (auto simp: stop_group_timer_def del_if_def neu_event_del_timer_def timers_of_def timer_def Let_def intro!: filter_cong
      intro: neu_adapter.equality)

lemma timed_stop:
  assumes "timed S d" "g \<in> set (dr_groups d)" "stop_group_timer g d = (g', d')"
  shows "timed (S - {g_addr g}) (set_group g' d')"
proof -
  obtain xs h ys where gs: "dr_groups d = xs @ h # ys" "g_addr h = g_addr g" "g_addr g \<notin> g_addr ` set xs"
      "g_addr g \<notin> g_addr ` set ys"
    and upd: "\<And>x. g_addr x = g_addr g \<Longrightarrow> map (\<lambda>y. if g_addr y = g_addr g then x else y) (dr_groups d) = xs @ x # ys"
    using groups_split [of "dr_groups d" "g_addr g"] assms(1,2) by (auto simp: timed_def)
  have h: "h = g" using assms(2) gs by auto
  have g': "g_addr g' = g_addr g" "timers_off g'" using assms(3) by (auto simp: stop_group_timer_eq timers_off_def)
  have grp: "dr_groups (set_group g' d') = xs @ g' # ys" "ad_timer_connect (set_group g' d') = ad_timer_connect d"
    "ad_next (set_group g' d') = ad_next d"
    "ad_timers (set_group g' d') = filter (\<lambda>x. tm_id x \<notin> tm_id ` set_mset (timers_of g)) (ad_timers d)"
    using assms(3) upd g'(1) by (auto simp: set_group_def stop_group_timer_eq)
  have "mset (ad_timers (set_group g' d')) = sum_list (map timers_of (xs @ g' # ys)) + timer (ad_timer_connect d) Try_connect 0 5 0"
    unfolding grp using assms(1) g'(2)
    by (intro filter_timers) (simp_all add: timed_def gs(1) h ac_simps)
  moreover have "\<forall>x \<in> set (xs @ g' # ys). if g_addr x \<in> S - {g_addr g} then timers_on x else timers_off x"
    using assms(1) gs(3,4) g' by (auto simp: timed_def gs(1) image_iff)
  ultimately show ?thesis
    using assms(1) unfolding timed_def grp by (auto simp: gs(1) h g' distinct_map_filter)
qed

lemma timed_del:
  assumes "timed S d" "g \<in> set (dr_groups d)"
  shows "timed (S - {g_addr g}) ((snd (stop_group_timer g d))\<lparr>dr_groups := remove1 g (dr_groups d)\<rparr>)" (is "timed _ ?d")
proof -
  obtain xs h ys where gs: "dr_groups d = xs @ h # ys" "g_addr h = g_addr g" "g_addr g \<notin> g_addr ` set xs"
      "g_addr g \<notin> g_addr ` set ys"
    by (rule groups_split [of "dr_groups d" "g_addr g"]) (use assms in \<open>auto simp: timed_def\<close>)
  have h: "h = g" using assms(2) gs by auto
  have rm: "remove1 g (dr_groups d) = xs @ ys" using gs(3) by (auto simp: gs(1) h remove1_append)
  have grp: "dr_groups ?d = xs @ ys" "ad_timer_connect ?d = ad_timer_connect d" "ad_next ?d = ad_next d"
    "ad_timers ?d = filter (\<lambda>x. tm_id x \<notin> tm_id ` set_mset (timers_of g)) (ad_timers d)"
    by (simp_all add: stop_group_timer_eq rm)
  have "mset (ad_timers ?d) = sum_list (map timers_of (xs @ ys)) + timer (ad_timer_connect d) Try_connect 0 5 0"
    unfolding grp using assms(1) by (intro filter_timers) (simp_all add: timed_def gs(1) h ac_simps)
  moreover have "\<forall>x \<in> set (xs @ ys). if g_addr x \<in> S - {g_addr g} then timers_on x else timers_off x"
    using assms(1) gs(3,4) by (auto simp: timed_def gs(1) image_iff)
  ultimately show ?thesis
    using assms(1) unfolding timed_def grp by (auto simp: gs(1) distinct_map_filter)
qed

lemma timed_frame:
  assumes "timed S d" "dr_groups d' = dr_groups d" "ad_timers d' = ad_timers d" "ad_timer_connect d' = ad_timer_connect d"
    "ad_next d' = ad_next d"
  shows "timed S d'"
  using assms by (simp add: timed_def)

lemma timed_add:
  assumes "timed S d" "g_addr g = ad_next d" "timers_off g" "ad_next d \<notin> S"
  shows "timed S (d\<lparr>ad_next := Suc (ad_next d), dr_groups := dr_groups d @ [g]\<rparr>)"
  using assms by (auto simp: timed_def less_Suc_eq)

lemma timed_connect:
  assumes "timed S d" "ad_timer_connect d = None" "neu_event_add_timer Try_connect 0 5 0 d = (t, d')"
  shows "timed S (d'\<lparr>ad_timer_connect := Some t\<rparr>)"
  using assms by (fastforce simp: timed_def neu_event_add_timer_def timer_def less_Suc_eq)

lemma timed_disconnect:
  assumes "timed S d"
  shows "timed S ((del_if (ad_timer_connect d) d)\<lparr>ad_timer_connect := None\<rparr>)"
proof (cases "ad_timer_connect d")
  case None
  then show ?thesis using assms by (simp add: del_if_def timed_def)
next
  case (Some t)
  have "mset (filter (\<lambda>x. tm_id x \<notin> tm_id ` set_mset (timer (Some t) Try_connect 0 5 0)) (ad_timers d)) =
      sum_list (map timers_of (dr_groups d))"
    using assms Some by (intro filter_timers) (simp_all add: timed_def ac_simps)
  then show ?thesis
    using assms Some by (auto simp: timed_def del_if_def neu_event_del_timer_def timer_def distinct_map_filter)
qed

lemma set_group_addrs [simp]: "map g_addr (dr_groups (set_group g d)) = map g_addr (dr_groups d)"
  by (simp add: set_group_def)

lemma set_group_groups [simp]: "g_addr ` set (dr_groups (set_group g d)) = g_addr ` set (dr_groups d)"
  by (metis set_group_addrs set_map)

lemma set_group_twice: "g_addr g = g_addr h \<Longrightarrow> set_group g (set_group h d) = set_group g d"
  by (simp add: set_group_def comp_def cong: if_cong)

section \<open>The invariant of a node\<close>

definition tags_ok :: "neu_group \<Rightarrow> bool" where
  "tags_ok g \<longleftrightarrow> distinct (map te_name (gr_tags g)) \<and> (\<forall>e \<in> set (gr_tags g). te_name e = dt_name (te_tag e))"

definition tag_count :: "'u group_t list \<Rightarrow> nat" where
  "tag_count gs = sum_list (map (\<lambda>g. length (gr_tags (g_group g))) gs)"

definition is_running :: "('p, 'u) neu_adapter \<Rightarrow> bool" where
  "is_running d \<longleftrightarrow> ad_state d = NEU_NODE_RUNNING_STATE_RUNNING"

definition running_groups :: "('p, 'u) neu_adapter \<Rightarrow> nat set" where
  "running_groups d = (if is_running d then g_addr ` set (dr_groups d) else {})"

definition groups_ok :: "('p, 'u) neu_adapter \<Rightarrow> bool" where
  "groups_ok d \<longleftrightarrow> distinct (map g_name (dr_groups d)) \<and>
     (\<forall>g \<in> set (dr_groups d). gr_name (g_group g) = g_name g \<and> tags_ok (g_group g)) \<and>
     dr_tag_cnt d = of_nat (tag_count (dr_groups d)) \<and> (\<not> is_driver d \<longrightarrow> dr_groups d = [])"

definition node_ok :: "('p, 'u) neu_adapter \<Rightarrow> bool" where
  "node_ok d \<longleftrightarrow> groups_ok d \<and> timed (running_groups d) d \<and>
     (ad_timer_connect d \<noteq> None \<longleftrightarrow> is_running d \<and> is_driver d) \<and>
     (ad_setting d = None \<longleftrightarrow> ad_state d = NEU_NODE_RUNNING_STATE_INIT)"

text \<open>What the invariant sees of a group, and steps that leave it as it is.\<close>

definition shell :: "'u group_t \<Rightarrow> nat \<times> string \<times> nat option \<times> nat option \<times> nat option \<times> neu_group" where
  "shell g = (g_addr g, g_name g, g_read g, g_report g, g_write g, g_group g)"

definition same_node :: "('p, 'u) neu_adapter \<Rightarrow> ('p, 'u) neu_adapter \<Rightarrow> bool" where
  "same_node d d' \<longleftrightarrow> map shell (dr_groups d') = map shell (dr_groups d) \<and> ad_timers d' = ad_timers d \<and>
     ad_timer_connect d' = ad_timer_connect d \<and> ad_next d' = ad_next d \<and> ad_state d' = ad_state d \<and>
     ad_type d' = ad_type d \<and> ad_name d' = ad_name d \<and> ad_setting d' = ad_setting d \<and> dr_tag_cnt d' = dr_tag_cnt d"

lemma same_node_refl [simp]: "same_node d d"
  by (simp add: same_node_def)

lemma same_node_trans [trans]: "same_node a b \<Longrightarrow> same_node b c \<Longrightarrow> same_node a c"
  by (simp add: same_node_def)

lemma same_node_upd [simp]:
  "same_node d (d'\<lparr>ad_plugin := p\<rparr>) = same_node d d'" "same_node d (d'\<lparr>dr_cache := c\<rparr>) = same_node d d'"
  "same_node d (d'\<lparr>ad_out := out\<rparr>) = same_node d d'" "same_node d (emit x d') = same_node d d'"
  "same_node d (respond req body d') = same_node d d'" "same_node d (set_heap h d') = same_node d d'"
  "same_node (d\<lparr>ad_plugin := p\<rparr>) d' = same_node d d'" "same_node (d\<lparr>dr_cache := c\<rparr>) d' = same_node d d'"
  "same_node (emit x d) d' = same_node d d'"
  by (simp_all add: same_node_def emit_def respond_def set_heap_def)

lemma map_shell:
  assumes "map shell gs' = map shell gs" "\<And>g. f g = h (shell g)"
  shows "map f gs' = map f gs"
proof -
  have "f = h \<circ> shell" using assms(2) by auto
  then show ?thesis using assms(1) by (metis map_map)
qed

lemma timers_of_shell: "timers_of g = (\<lambda>(a, n, r, p, w, grp). let i = gr_interval grp in
    timer r Read_callback a (i div 1000) (i mod 1000) + timer p Report_callback a (i div 1000) (i mod 1000) +
    timer w Write_callback a 0 3) (shell g)"
  by (simp add: timers_of_def shell_def)

lemma map_shell_eqs:
  fixes gs gs' :: "'u group_t list"
  assumes "map shell gs' = map shell gs"
  shows "map g_addr gs' = map g_addr gs" "map g_name gs' = map g_name gs" "map timers_of gs' = map timers_of gs"
    "map g_group gs' = map g_group gs" "map (\<lambda>g. (g_addr g, timers_on g, timers_off g)) gs' = map (\<lambda>g. (g_addr g, timers_on g, timers_off g)) gs"
    "map (\<lambda>g. (g_name g, g_group g)) gs' = map (\<lambda>g. (g_name g, g_group g)) gs"
  subgoal by (rule map_shell [OF assms, of _ fst]) (simp add: shell_def)
  subgoal by (rule map_shell [OF assms, of _ "fst \<circ> snd"]) (simp add: shell_def)
  subgoal by (rule map_shell [OF assms]) (rule timers_of_shell)
  subgoal by (rule map_shell [OF assms, of _ "snd \<circ> snd \<circ> snd \<circ> snd \<circ> snd"]) (simp add: shell_def)
  subgoal by (rule map_shell [OF assms, of _ "\<lambda>(a, n, r, p, w, _). (a, r \<noteq> None \<and> p \<noteq> None \<and> w \<noteq> None, r = None \<and> p = None \<and> w = None)"])
      (simp add: shell_def timers_on_def timers_off_def)
  subgoal by (rule map_shell [OF assms, of _ "\<lambda>(a, n, r, p, w, g). (n, g)"]) (simp add: shell_def)
  done

lemma ball_map_eq: "map f xs = map f ys \<Longrightarrow> (\<forall>x \<in> set xs. P (f x)) = (\<forall>x \<in> set ys. P (f x))"
proof -
  assume "map f xs = map f ys"
  then have "list_all P (map f xs) = list_all P (map f ys)" by simp
  then show ?thesis by (simp add: list_all_iff)
qed

lemma timed_same:
  assumes "timed S d" "same_node d d'"
  shows "timed S d'"
proof -
  have shells: "map shell (dr_groups d') = map shell (dr_groups d)" using assms(2) by (simp add: same_node_def)
  note eqs = map_shell_eqs [OF shells]
  have "(\<forall>g \<in> set (dr_groups d'). g_addr g < ad_next d) = (\<forall>g \<in> set (dr_groups d). g_addr g < ad_next d)"
    by (rule ball_map_eq [OF eqs(1), of "\<lambda>a. a < ad_next d"])
  moreover have "(\<forall>g \<in> set (dr_groups d'). if g_addr g \<in> S then timers_on g else timers_off g) =
      (\<forall>g \<in> set (dr_groups d). if g_addr g \<in> S then timers_on g else timers_off g)"
    using ball_map_eq [OF eqs(5), of "\<lambda>(a, n, f). if a \<in> S then n else f"] by simp
  ultimately show ?thesis
    using assms by (simp add: timed_def eqs(1,3) same_node_def)
qed

lemma tag_count_groups: "tag_count gs = sum_list (map (\<lambda>grp. length (gr_tags grp)) (map g_group gs))"
  by (simp add: tag_count_def comp_def)

lemma groups_ok_same:
  assumes "groups_ok d" "same_node d d'"
  shows "groups_ok d'"
proof -
  have shells: "map shell (dr_groups d') = map shell (dr_groups d)" using assms(2) by (simp add: same_node_def)
  note eqs = map_shell_eqs [OF shells]
  have "(\<forall>g \<in> set (dr_groups d'). gr_name (g_group g) = g_name g \<and> tags_ok (g_group g)) =
      (\<forall>g \<in> set (dr_groups d). gr_name (g_group g) = g_name g \<and> tags_ok (g_group g))"
    using ball_map_eq [OF eqs(6), of "\<lambda>(n, g). gr_name g = n \<and> tags_ok g"] by simp
  moreover have "dr_groups d' = [] \<longleftrightarrow> dr_groups d = []" using shells by (metis map_is_Nil_conv)
  ultimately show ?thesis
    using assms by (simp add: groups_ok_def same_node_def tag_count_groups eqs(2,4) is_driver_def)
qed

lemma node_ok_same:
  assumes "node_ok d" "same_node d d'"
  shows "node_ok d'"
proof -
  have "map shell (dr_groups d') = map shell (dr_groups d)" using assms(2) by (simp add: same_node_def)
  from arg_cong [OF map_shell_eqs(1) [OF this], of set] have "running_groups d' = running_groups d"
    using assms(2) by (simp add: is_running_def running_groups_def same_node_def)
  moreover have "groups_ok d'" "timed (running_groups d) d'"
    using assms groups_ok_same [of d d'] timed_same [of _ d d'] by (simp_all add: node_ok_def)
  ultimately show ?thesis
    using assms by (simp add: node_ok_def is_running_def is_driver_def same_node_def)
qed

section \<open>Steps that keep groups and timers\<close>

lemma ulist_find_in: "ulist_find key xs k = Some x \<Longrightarrow> x \<in> set xs \<and> key x = k"
  by (auto simp: ulist_find_def find_Some_iff)

lemma ulist_find_none: "ulist_find key xs k = None \<longleftrightarrow> k \<notin> key ` set xs"
  by (auto simp: ulist_find_def find_None_iff)

lemma find_group_in: "find_group d n = Some g \<Longrightarrow> g \<in> set (dr_groups d) \<and> g_name g = n"
  by (auto simp: find_group_def dest: ulist_find_in)

lemma group_at_in: "group_at d a = Some g \<Longrightarrow> g \<in> set (dr_groups d) \<and> g_addr g = a"
  by (auto simp: group_at_def dest: ulist_find_in)

lemma node_ok_addrs: "node_ok d \<Longrightarrow> distinct (map g_addr (dr_groups d))"
  by (simp add: node_ok_def timed_def)

lemma map_set_same:
  assumes "distinct (map g_addr gs)" "g \<in> set gs" "shell g' = shell g"
  shows "map shell (map (\<lambda>x. if g_addr x = g_addr g' then g' else x) gs) = map shell gs"
proof -
  have "g_addr g' = g_addr g" using assms(3) by (simp add: shell_def)
  moreover have "x = g" if "x \<in> set gs" "g_addr x = g_addr g" for x
    using assms(1,2) that by (auto simp: distinct_map dest: inj_onD)
  ultimately show ?thesis using assms(3) by auto
qed

lemma same_set_group:
  assumes "distinct (map g_addr (dr_groups d))" "g \<in> set (dr_groups d)" "shell g' = shell g" "same_node d d'" "dr_groups d' = dr_groups d"
  shows "same_node d (set_group g' d')"
  using map_set_same [OF assms(1-3)] assms(4,5) by (simp add: same_node_def set_group_def)

lemma same_cache_update: "cache_update en new grp tag v metas d = Some d' \<Longrightarrow> same_node d d'"
  by (auto simp: cache_update_def)

lemma same_cache_update_all: "cache_update_all en news i grp ts v d = Some d' \<Longrightarrow> same_node d d'"
proof (induction ts arbitrary: i d)
  case (Cons t ts)
  then show ?case by (auto simp: bind_eq_Some_conv intro: same_node_trans same_cache_update)
qed simp

lemma same_report_to: "same_node d (report_to addrs data d')" if "same_node d d'"
proof -
  have "same_node d (fold (\<lambda>a. emit (Responseto a data)) addrs d')" using that
    by (induction addrs arbitrary: d') simp_all
  then show ?thesis using that by (simp add: report_to_def)
qed

lemma same_update_with_meta: "update_with_meta en news grp tag v metas d = Some d' \<Longrightarrow> same_node d d'"
  by (auto simp: update_with_meta_def split: option.splits if_splits intro: same_cache_update same_cache_update_all)

lemma same_update_im_any: "update_im_any always en new news grp tag v metas d = Some d' \<Longrightarrow> same_node d d'"
  by (auto simp: update_im_any_def report_now_def bind_eq_Some_conv Let_def split: option.splits if_splits
      intro!: same_report_to)

lemma same_run_cb: "run_cb en n cb d = Some d' \<Longrightarrow> same_node d d'"
  by (cases cb) (auto simp: update_im_def update_im_f_m_def write_response_def write_responses_def scan_tags_response_def
      test_read_tag_response_def dest: same_update_with_meta same_update_im_any)

lemma same_run_cbs: "run_cbs en n cbs d = Some d' \<Longrightarrow> same_node d d'"
proof (induction cbs arbitrary: n d)
  case (Cons cb cbs)
  then show ?case by (auto simp: bind_eq_Some_conv intro: same_node_trans same_run_cb)
qed simp

lemma same_run_cbs_from: "run_cbs en n cbs d1 = Some d' \<Longrightarrow> same_node d d1 \<Longrightarrow> same_node d d'"
  by (blast intro: same_node_trans same_run_cbs)

lemma same_poll_plugin:
  assumes "poll_plugin en f g d = Some d'" "distinct (map g_addr (dr_groups d))" "g \<in> set (dr_groups d)"
  shows "same_node d d'"
proof -
  obtain p grp cbs where "run_cbs en 0 cbs (set_group (g\<lparr>g_grp := grp\<rparr>) (d\<lparr>ad_plugin := p\<rparr>)) = Some d'"
    using assms(1) by (auto simp: poll_plugin_def split: prod.splits)
  then show ?thesis
    by (rule same_run_cbs_from) (rule same_set_group [OF assms(2,3)], simp_all add: shell_def)
qed

lemma same_group_change:
  assumes "group_change g ts tags d = Some d'" "node_ok d" "g \<in> set (dr_groups d)"
  shows "same_node d d'"
  using assms(1) by (auto simp: group_change_def bind_eq_Some_conv Let_def shell_def intro!: same_set_group [OF node_ok_addrs [OF assms(2)] assms(3)])

lemma same_read_callback:
  assumes "read_callback en intf a d = Some d'" "node_ok d"
  shows "same_node d d'"
proof -
  obtain g where g: "group_at d a = Some g" using assms(1) by (auto simp: read_callback_def bind_eq_Some_conv)
  show ?thesis
  proof (cases "is_running d")
    case False
    then show ?thesis using assms(1) g by (simp add: read_callback_def is_running_def)
  next
    case True
    then obtain d1 g1 where d1: "d1 = d \<or> (\<exists>t ts. group_change g t ts d = Some d1)" and g1: "group_at d1 a = Some g1"
      and d': "d' = d1 \<or> poll_plugin en (pi_group_timer intf) g1 d1 = Some d'"
      using assms(1) g by (auto simp: read_callback_def is_running_def bind_eq_Some_conv split: if_splits option.splits)
    have "same_node d d1" using d1 same_group_change [OF _ assms(2)] group_at_in [OF g] by auto
    moreover from this have "same_node d1 d'"
      using d' same_poll_plugin [of en "pi_group_timer intf" g1 d1 d'] node_ok_addrs [OF node_ok_same [OF assms(2)]]
        group_at_in [OF g1] by auto
    ultimately show ?thesis by (rule same_node_trans)
  qed
qed

lemma same_write_pending: "write_pending en intf ws d = Some d' \<Longrightarrow> same_node d d'"
proof (induction ws arbitrary: d)
  case (Cons w ws)
  then show ?case
    by (auto simp: bind_eq_Some_conv split: to_be_write_tag.splits prod.splits dest!: Cons.IH same_run_cbs intro: same_node_trans)
qed simp

lemma same_write_callback:
  assumes "write_callback en intf a d = Some d'" "node_ok d"
  shows "same_node d d'"
proof -
  obtain g where g: "group_at d a = Some g" using assms(1) by (auto simp: write_callback_def bind_eq_Some_conv)
  have "same_node d (set_group (g\<lparr>g_wt_tags := []\<rparr>) d)"
    by (rule same_set_group [OF node_ok_addrs [OF assms(2)], of g]) (use group_at_in [OF g] in \<open>simp_all add: shell_def\<close>)
  then show ?thesis
    using assms(1) g by (auto simp: write_callback_def split: if_splits dest!: same_write_pending intro: same_node_trans)
qed

lemma same_report_callback: "report_callback en a d = Some d' \<Longrightarrow> same_node d d'"
  by (auto simp: report_callback_def bind_eq_Some_conv split: if_splits intro!: same_report_to)

lemma same_try_connect: "same_node d (snd (neu_adapter_driver_try_connect intf d))"
  by (simp add: neu_adapter_driver_try_connect_def Let_def split: option.splits prod.splits)

lemma same_subscribe:
  assumes "neu_adapter_driver_subscribe en req d = Some d'" "node_ok d"
  shows "same_node d d'"
proof (cases "find_group d (rs_group req)")
  case None
  then show ?thesis using assms(1) by (simp add: neu_adapter_driver_subscribe_def)
next
  case (Some g)
  have "same_node d (set_group (g\<lparr>g_apps := as\<rparr>) d)" for as
    by (rule same_set_group [OF node_ok_addrs [OF assms(2)], of g]) (use find_group_in [OF Some] in \<open>simp_all add: shell_def\<close>)
  then show ?thesis
    using assms(1) Some
    by (auto simp: neu_adapter_driver_subscribe_def report_to_app_def bind_eq_Some_conv Let_def split: if_splits intro!: same_report_to)
qed

lemma same_unsubscribe:
  assumes "node_ok d"
  shows "same_node d (neu_adapter_driver_unsubscribe grp app d)"
proof (cases "find_group d grp")
  case (Some g)
  have "same_node d (set_group (g\<lparr>g_apps := as\<rparr>) d)" for as
    by (rule same_set_group [OF node_ok_addrs [OF assms], of g]) (use find_group_in [OF Some] in \<open>simp_all add: shell_def\<close>)
  then show ?thesis by (simp add: neu_adapter_driver_unsubscribe_def Some)
qed (simp add: neu_adapter_driver_unsubscribe_def)

lemma same_store_write_tag:
  assumes "node_ok d" "g \<in> set (dr_groups d)"
  shows "same_node d (store_write_tag g w (set_heap h d))"
  unfolding store_write_tag_def
  by (rule same_set_group [OF node_ok_addrs [OF assms(1)], of g]) (use assms(2) in \<open>simp_all add: shell_def set_heap_def\<close>)

lemma same_write_response [simp]: "same_node d (write_response req e d') = same_node d d'"
  by (simp add: write_response_def)

lemma same_write_tag:
  assumes "neu_adapter_driver_write_tag en req cmd d = Some (e, d')" "node_ok d"
  shows "same_node d d'"
  using assms
  by (auto simp: neu_adapter_driver_write_tag_def Let_def bind_eq_Some_conv split: if_splits option.splits
      dest!: find_group_in intro!: same_store_write_tag)

lemma same_write_tags:
  assumes "neu_adapter_driver_write_tags en intf req grp tags d = Some (e, d')" "node_ok d"
  shows "same_node d d'"
  using assms
  by (auto simp: neu_adapter_driver_write_tags_def Let_def bind_eq_Some_conv split: if_splits option.splits
      dest!: find_group_in intro!: same_store_write_tag)

lemma those_in: "those xs = Some ys \<Longrightarrow> y \<in> set ys \<Longrightarrow> Some y \<in> set xs"
  by (induction xs arbitrary: ys) (auto split: option.splits)

lemma same_write_gtags:
  assumes "neu_adapter_driver_write_gtags en intf req groups d = Some (e, d')" "node_ok d"
  shows "same_node d d'"
proof -
  have "g \<in> set (dr_groups d)" if "those (map (\<lambda>(g, ts). find_group d g) groups) = Some (g # gs)" for g gs
    using those_in [OF that, of g] by (auto dest!: find_group_in [OF sym])
  then show ?thesis
    using assms
    by (auto simp: neu_adapter_driver_write_gtags_def Let_def bind_eq_Some_conv split: if_splits option.splits list.splits
        intro!: same_store_write_tag)
qed

lemma same_scan_tags: "neu_adapter_driver_scan_tags en intf req ident ctx d = Some d' \<Longrightarrow> same_node d d'"
  by (auto simp: neu_adapter_driver_scan_tags_def scan_tags_response_def split: if_splits option.splits prod.splits
      dest!: same_run_cbs)

lemma same_cmd: "same_node d (snd (neu_adapter_driver_cmd intf cmd d))"
  by (simp add: neu_adapter_driver_cmd_def Let_def split: option.splits prod.splits)

lemma same_plugin_calls [simp]:
  "same_node d (snd (neu_adapter_driver_try_del_tag intf n d'))  = same_node d d'"
  "same_node d (snd (neu_adapter_driver_try_add_tag intf grp ts d')) = same_node d d'"
  "same_node d (snd (neu_adapter_driver_load_tag intf grp ts d')) = same_node d d'"
  "same_node d (snd (snd (call_validate intf t d'))) = same_node d d'"
  by (simp_all add: neu_adapter_driver_try_del_tag_def neu_adapter_driver_try_add_tag_def neu_adapter_driver_load_tag_def
      call_validate_def Let_def split: option.splits prod.splits)

lemma same_validate_tag: "neu_adapter_driver_validate_tag intf t d = Some (rc, t', d') \<Longrightarrow> same_node d d'"
  by (auto simp: neu_adapter_driver_validate_tag_def call_validate_def Let_def split: if_splits option.splits prod.splits)

lemma same_validate_tags: "validate_tags intf ts d = Some (rc, ts', d') \<Longrightarrow> same_node d d'"
proof (induction ts arbitrary: d rc ts')
  case (Cons t ts)
  then show ?case by (auto simp: bind_eq_Some_conv split: if_splits dest: same_validate_tag intro: same_node_trans)
qed simp

lemma same_validate_groups: "validate_groups intf gs d = Some (rc, gs', d') \<Longrightarrow> same_node d d'"
proof (induction gs arbitrary: d rc gs')
  case (Cons g gs)
  then show ?case by (auto simp: bind_eq_Some_conv Let_def split: if_splits dest: same_validate_tags intro: same_node_trans)
qed simp

lemma same_validate_gtags: "neu_adapter_validate_gtags intf gs d = Some (rc, gs', d') \<Longrightarrow> same_node d d'"
  by (auto simp: neu_adapter_validate_gtags_def split: if_splits dest: same_validate_groups)

lemma same_give_back [simp]: "same_node d (give_back intf gs d') = same_node d d'"
  by (induction gs arbitrary: d') (simp_all add: give_back_def)

lemma same_try_add_groups: "same_node d d1 \<Longrightarrow> try_add_groups intf before gs d1 = (rc, d') \<Longrightarrow> same_node d d'"
proof (induction gs arbitrary: before d1)
  case (Cons g gs)
  obtain rc1 d2 where d2: "neu_adapter_driver_try_add_tag intf (gd_group g) (gd_tags g) d1 = (rc1, d2)" by fastforce
  then have "same_node d d2" using Cons.prems(1) same_plugin_calls(2) [of d intf "gd_group g" "gd_tags g" d1] by simp
  then show ?case using Cons d2 by (auto split: if_splits)
qed simp

lemma same_check_new_tags: "check_new_tags intf grp before ts resp d = Some (resp', ts', d') \<Longrightarrow> same_node d d'"
proof (induction ts arbitrary: before resp d)
  case (Cons t ts)
  then show ?case by (auto simp: bind_eq_Some_conv Let_def simp del: fold_simps dest!: same_validate_tag Cons.IH intro: same_node_trans)
qed simp

section \<open>Tags\<close>

lemma tags_ok_timestamp [simp]: "tags_ok (update_timestamp tv g) = tags_ok g" "gr_name (update_timestamp tv g) = gr_name g"
  "gr_interval (update_timestamp tv g) = gr_interval g"
  by (simp_all add: tags_ok_def update_timestamp_def)

lemma tag_dup_name: "neu_tag_dup b t = Some t' \<Longrightarrow> dt_name t' = dt_name t"
  by (auto simp: neu_tag_dup_def split: if_splits)

text \<open>What the operations on the tags of a group keep, and how many tags there are afterwards.\<close>

lemma group_add_tag_ok:
  assumes "neu_group_add_tag mem tv g tag = (rc, g')" "tags_ok g"
  shows "tags_ok g'" "gr_name g' = gr_name g" "gr_interval g' = gr_interval g"
    "length (gr_tags g') = length (gr_tags g) + (if rc = 0 then 1 else 0)"
  using assms
  by (auto simp: neu_group_add_tag_def ulist_find_none tags_ok_def Let_def ulist_add_def image_iff dest!: tag_dup_name
      split: option.splits if_splits bool.splits)

lemma group_del_tag_ok:
  assumes "neu_group_del_tag tv g tag = Some (rc, g')" "tags_ok g"
  shows "tags_ok g'" "gr_name g' = gr_name g" "gr_interval g' = gr_interval g"
    "length (gr_tags g') = length (gr_tags g) - (if rc = 0 then 1 else 0)" "rc = 0 \<Longrightarrow> gr_tags g \<noteq> []"
proof -
  have "distinct (map te_name (remove1 el (gr_tags g)))" for el
    using assms(2) by (auto simp: tags_ok_def distinct_map intro: inj_on_diff)
  then show "tags_ok g'" "gr_name g' = gr_name g" "gr_interval g' = gr_interval g"
    "length (gr_tags g') = length (gr_tags g) - (if rc = 0 then 1 else 0)" "rc = 0 \<Longrightarrow> gr_tags g \<noteq> []"
    using assms
    by (auto simp: neu_group_del_tag_def tags_ok_def ulist_del_def length_remove1 dest: notin_set_remove1
        split: option.splits if_splits)
qed

lemma group_update_tag_ok:
  assumes "neu_group_update_tag tv g tag = (rc, g')" "tags_ok g"
  shows "tags_ok g'" "gr_name g' = gr_name g" "gr_interval g' = gr_interval g" "length (gr_tags g') = length (gr_tags g)"
proof -
  have "map te_name (map (\<lambda>e. if e = el then el\<lparr>te_tag := t\<rparr> else e) (gr_tags g)) = map te_name (gr_tags g)" for el t
    by simp
  then show "tags_ok g'" "gr_name g' = gr_name g" "gr_interval g' = gr_interval g" "length (gr_tags g') = length (gr_tags g)"
    using assms
    by (auto dest!: ulist_find_in simp: neu_group_update_tag_def tags_ok_def set_elem_def Let_def simp del: map_map split: option.splits)
qed

lemma mset_insert_before: "mset (insert_before cmp x xs) = add_mset x (mset xs)"
  by (induction xs) auto

lemma group_rename_tag_ok:
  assumes "neu_group_rename_tag mem tv g old new = Some (rc, g')" "tags_ok g"
  shows "tags_ok g'" "gr_name g' = gr_name g" "gr_interval g' = gr_interval g" "length (gr_tags g') = length (gr_tags g)"
proof -
  have "tags_ok g' \<and> gr_name g' = gr_name g \<and> gr_interval g' = gr_interval g \<and> length (gr_tags g') = length (gr_tags g)"
  proof (cases "g' = g")
    case False
    then obtain el tags el' where el: "el \<in> set (gr_tags g)" "new \<notin> te_name ` set (gr_tags g)" "tags = remove1 el (gr_tags g)"
        "el' = el\<lparr>te_name := new, te_tag := (te_tag el)\<lparr>dt_name := new\<rparr>\<rparr>"
        "g' = update_timestamp tv (g\<lparr>gr_tags := insert_before tag_order_cmp el' tags\<rparr>)"
      using assms(1)
      by (auto dest!: ulist_find_in simp: ulist_find_none neu_group_rename_tag_def ulist_del_def ulist_add_inorder_def Let_def split: option.splits if_splits)
    have "distinct (gr_tags g)" using assms(2) by (simp add: tags_ok_def distinct_map)
    then have s: "set tags = set (gr_tags g) - {el}" "distinct (map te_name tags)"
      using assms(2) el(3) by (auto simp: tags_ok_def distinct_map intro: inj_on_diff)
    have ms: "mset (insert_before tag_order_cmp el' tags) = mset (el' # tags)" by (simp add: mset_insert_before)
    have "distinct (map te_name (el' # tags))" using s el(2,4) by auto
    moreover have "mset (map te_name (insert_before tag_order_cmp el' tags)) = mset (map te_name (el' # tags))"
      using ms by simp
    ultimately have "distinct (map te_name (insert_before tag_order_cmp el' tags))" by (metis mset_eq_imp_distinct_iff)
    moreover have "set (insert_before tag_order_cmp el' tags) = insert el' (set tags)"
      using mset_eq_setD [OF ms] by simp
    moreover have "length (insert_before tag_order_cmp el' tags) = length (gr_tags g)"
      using mset_eq_length [OF ms] el(1,3) by (simp add: length_remove1) (metis Suc_pred length_pos_if_in_set)
    ultimately show ?thesis using assms(2) el(4,5) s(1) by (simp add: tags_ok_def)
  qed (use assms(2) in simp)
  then show "tags_ok g'" "gr_name g' = gr_name g" "gr_interval g' = gr_interval g" "length (gr_tags g') = length (gr_tags g)"
    by blast+
qed

section \<open>Operations on groups and tags\<close>

lemma tag_count_split: "tag_count (xs @ g # ys) = tag_count xs + length (gr_tags (g_group g)) + tag_count ys"
  by (simp add: tag_count_def)

lemma groups_ok_set:
  assumes "groups_ok d" "distinct (map g_addr (dr_groups d))" "g \<in> set (dr_groups d)" "g_addr g' = g_addr g" "g_name g' = g_name g"
    "gr_name (g_group g') = gr_name (g_group g)" "tags_ok (g_group g')"
    "c = dr_tag_cnt d + of_nat (length (gr_tags (g_group g'))) - of_nat (length (gr_tags (g_group g)))"
  shows "groups_ok ((set_group g' d)\<lparr>dr_tag_cnt := c\<rparr>)"
proof -
  obtain xs h ys where gs: "dr_groups d = xs @ h # ys" "g_addr h = g_addr g" "g_addr g \<notin> g_addr ` set xs"
      "g_addr g \<notin> g_addr ` set ys"
    and upd: "\<And>x. g_addr x = g_addr g \<Longrightarrow> map (\<lambda>y. if g_addr y = g_addr g then x else y) (dr_groups d) = xs @ x # ys"
    using groups_split [of "dr_groups d" "g_addr g"] assms(2,3) by auto
  have h: "h = g" using assms(3) gs by auto
  have "dr_groups (set_group g' d) = xs @ g' # ys" using assms(4) upd by (simp add: set_group_def)
  then show ?thesis
    using assms(1,5-) by (simp add: groups_ok_def gs(1) h tag_count_split set_group_def is_driver_def)
qed

lemma node_ok_set:
  assumes "node_ok d" "g \<in> set (dr_groups d)" "gr_name grp = gr_name (g_group g)" "gr_interval grp = gr_interval (g_group g)"
    "tags_ok grp" "c = dr_tag_cnt d + of_nat (length (gr_tags grp)) - of_nat (length (gr_tags (g_group g)))"
  shows "node_ok ((set_group (g\<lparr>g_group := grp\<rparr>) d)\<lparr>dr_tag_cnt := c\<rparr>)" (is "node_ok ?d")
proof -
  have "groups_ok ?d"
    using assms groups_ok_set [of d g "g\<lparr>g_group := grp\<rparr>" c] node_ok_addrs [OF assms(1)] by (simp add: node_ok_def)
  moreover have "timed (running_groups d) (set_group (g\<lparr>g_group := grp\<rparr>) d)"
    using assms same_timers [of "g\<lparr>g_group := grp\<rparr>" g] by (intro timed_set [of _ _ g]) (simp_all add: node_ok_def)
  then have "timed (running_groups d) ?d" by (rule timed_frame) simp_all
  moreover have "running_groups ?d = running_groups d"
    by (simp add: running_groups_def is_running_def) (simp add: set_group_def)
  ultimately show ?thesis
    using assms(1) by (simp add: node_ok_def is_running_def is_driver_def set_group_def)
qed

lemma groups_ok_frame:
  assumes "groups_ok d" "dr_groups d' = dr_groups d" "dr_tag_cnt d' = dr_tag_cnt d" "ad_type d' = ad_type d"
  shows "groups_ok d'"
  using assms by (simp add: groups_ok_def is_driver_def)

lemma node_ok_add_tag:
  assumes "neu_group_add_tag mem tv (g_group g) tag = (rc, grp)" "node_ok d" "g \<in> set (dr_groups d)"
  shows "node_ok (if rc = NEU_ERR_SUCCESS then (set_group (g\<lparr>g_group := grp\<rparr>) d)\<lparr>dr_tag_cnt := dr_tag_cnt d + 1\<rparr>
    else set_group (g\<lparr>g_group := grp\<rparr>) d)"
proof -
  have "tags_ok (g_group g)" using assms(2,3) by (simp add: node_ok_def groups_ok_def)
  note ok = group_add_tag_ok [OF assms(1) this]
  show ?thesis
    using node_ok_set [OF assms(2,3) ok(2,3,1), of "dr_tag_cnt d + 1"] node_ok_set [OF assms(2,3) ok(2,3,1), of "dr_tag_cnt d"] ok(4)
    by (simp add: set_group_def)
qed

lemma add_group_ok:
  fixes d d' :: "('p, 'u) neu_adapter"
  assumes "neu_adapter_driver_add_group en name interval d = Some (rc, d')" "node_ok d" "is_driver d"
  shows "node_ok d'" "is_driver d'" "ad_name d' = ad_name d"
proof -
  have "node_ok d' \<and> is_driver d' \<and> ad_name d' = ad_name d"
  proof (cases "find_group d name")
    case (Some g)
    then show ?thesis using assms by (simp add: neu_adapter_driver_add_group_def)
  next
    case None
    define d1 where "d1 = d\<lparr>ad_next := Suc (ad_next d)\<rparr>"
    obtain grp where grp: "neu_group_new (en_mem en) name interval = Some grp"
      using assms(1) None by (auto simp: neu_adapter_driver_add_group_def bind_eq_Some_conv)
    define g where "g = (new_group (ad_next d) name interval grp :: 'u group_t)"
    have g: "g_addr g = ad_next d" "timers_off g" "g_name g = name" "gr_name (g_group g) = name" "gr_tags (g_group g) = []"
      using grp by (auto simp: g_def new_group_def timers_off_def neu_group_new_def split: if_splits)
    have nin: "name \<notin> g_name ` set (dr_groups d)" "ad_next d \<notin> g_addr ` set (dr_groups d)"
        "\<forall>x \<in> set (dr_groups d). g_addr x \<noteq> ad_next d"
      using None assms(2) by (auto simp: find_group_def ulist_find_none node_ok_def timed_def)
    let ?d = "d1\<lparr>dr_groups := dr_groups d @ [g]\<rparr>"
    have t: "timed (running_groups d) ?d"
      unfolding d1_def using assms(2) g nin timed_add [of "running_groups d" d g]
      by (simp add: node_ok_def running_groups_def split: if_splits)
    have gok: "groups_ok ?d" using assms(2,3) g nin
      by (auto simp: node_ok_def groups_ok_def d1_def tag_count_def tags_ok_def is_driver_def)
    show ?thesis
    proof (cases "is_running d")
      case False
      then have "d' = ?d" using assms(1) None grp
        by (simp add: neu_adapter_driver_add_group_def d1_def g_def is_running_def ulist_add_def)
      then show ?thesis using t gok assms(2,3) False
        by (simp add: node_ok_def running_groups_def is_running_def is_driver_def d1_def)
    next
      case True
      obtain g2 d2 where start: "start_group_timer g ?d = (g2, d2)" by fastforce
      have d': "d' = set_group g2 d2" using assms(1) None grp True start nin(3)
        by (auto simp: neu_adapter_driver_add_group_def d1_def g_def [symmetric] is_running_def ulist_add_def start_group_timer_eq
            set_group_def g(1) image_iff intro!: neu_adapter.equality map_idI [symmetric])
      have "timed (insert (g_addr g) (running_groups d)) d'"
        unfolding d' by (rule timed_start [OF t _ _ start]) (use g nin in \<open>simp_all add: running_groups_def\<close>)
      moreover have grs: "dr_groups d' = dr_groups d @ [g2]" "g_addr g2 = g_addr g" "g_name g2 = name"
        "g_group g2 = g_group g"
        using d' start nin(3) g by (auto simp: start_group_timer_eq set_group_def image_iff intro!: map_idI)
      moreover have "groups_ok d'"
        using gok grs start g unfolding d'
        by (auto simp: groups_ok_def tag_count_def start_group_timer_eq set_group_def is_driver_def d1_def)
      ultimately show ?thesis
        using assms(2,3) True start
        by (simp add: node_ok_def running_groups_def is_running_def is_driver_def d' start_group_timer_eq)
          (auto simp: set_group_def d1_def)
    qed
  qed
  then show "node_ok d'" "is_driver d'" "ad_name d' = ad_name d" by blast+
qed

text \<open>Steps that keep the invariant and the type of the node.\<close>

definition keeps :: "('p, 'u) neu_adapter \<Rightarrow> ('p, 'u) neu_adapter \<Rightarrow> bool" where
  "keeps d d' \<longleftrightarrow> node_ok d' \<and> ad_type d' = ad_type d"

lemma same_node_type: "same_node d d' \<Longrightarrow> ad_type d' = ad_type d"
  by (simp add: same_node_def)

lemma keeps_same: "node_ok d \<Longrightarrow> same_node d d' \<Longrightarrow> keeps d d'"
  by (simp add: keeps_def node_ok_same same_node_type)

lemma keeps_same_after: "keeps d d1 \<Longrightarrow> same_node d1 d' \<Longrightarrow> keeps d d'"
  by (auto simp: keeps_def same_node_type intro: node_ok_same)

lemma keeps_upd [simp]:
  "keeps d (emit x d') = keeps d d'" "keeps d (respond req body d') = keeps d d'"
  "keeps d (d'\<lparr>ad_plugin := p\<rparr>) = keeps d d'" "keeps d (d'\<lparr>dr_cache := c\<rparr>) = keeps d d'"
  by (auto simp: respond_def intro: keeps_same_after)

lemma keeps_trans [trans]: "keeps a b \<Longrightarrow> keeps b c \<Longrightarrow> keeps a c"
  by (simp add: keeps_def)

lemma keeps_ok: "keeps d d' \<Longrightarrow> node_ok d'"
  by (simp add: keeps_def)

lemma keeps_driver: "keeps d d' \<Longrightarrow> is_driver d' = is_driver d"
  by (simp add: keeps_def is_driver_def)

lemma keeps_add_group:
  assumes "neu_adapter_driver_add_group en name interval d = Some (rc, d')" "node_ok d" "is_driver d"
  shows "keeps d d'"
  using add_group_ok [OF assms] assms(3) by (simp add: keeps_def is_driver_def)

lemma keeps_add_tag:
  assumes "neu_adapter_driver_add_tag en intf grp tag interval d = Some (rc, t, d')" "node_ok d" "is_driver d"
  shows "keeps d d'"
proof -
  obtain rc0 t0 d0 where v: "call_validate intf (parse_option tag) d = (rc0, t0, d0)" by (metis prod_cases3)
  have "same_node d d0" using same_plugin_calls(4) [of d intf "parse_option tag" d] v by simp
  then have d0: "keeps d d0" using assms(2) keeps_same by blast
  let ?rest = "\<lambda>d. Option.bind (find_group d grp) (\<lambda>g.
      let (ret, g') = neu_group_add_tag (\<lambda>i. en_mem en (2 + i)) (en_tv en) (g_group g) t0; d = set_group (g\<lparr>g_group := g'\<rparr>) d
      in Some (ret, t0, if ret = NEU_ERR_SUCCESS then d\<lparr>dr_tag_cnt := dr_tag_cnt d + 1\<rparr> else d))"
  obtain d1 where d1: "keeps d0 d1" and rest: "?rest d1 = Some (rc, t, d')"
  proof (cases "find_group d0 grp")
    case None
    then obtain rc2 d2 where d2: "neu_adapter_driver_add_group en grp (ucast interval) d0 = Some (rc2, d2)"
      using assms(1) v by (auto simp: neu_adapter_driver_add_tag_def bind_eq_Some_conv)
    have "keeps d0 (emit (Store_add_group (ad_name d2) grp (ucast interval)) d2)"
      using keeps_add_group [OF d2 keeps_ok [OF d0]] assms(3) keeps_driver [OF d0] by simp
    moreover have "?rest (emit (Store_add_group (ad_name d2) grp (ucast interval)) d2) = Some (rc, t, d')"
      using assms(1) v None d2 by (simp add: neu_adapter_driver_add_tag_def)
    ultimately show thesis by (rule that)
  next
    case (Some g)
    then have "?rest d0 = Some (rc, t, d')" using assms(1) v by (simp add: neu_adapter_driver_add_tag_def)
    with _ show thesis by (rule that) (use d0 in \<open>simp add: keeps_def\<close>)
  qed
  then obtain g where g: "find_group d1 grp = Some g" by (auto simp: bind_eq_Some_conv)
  obtain rc1 grp1 where add: "neu_group_add_tag (\<lambda>i. en_mem en (2 + i)) (en_tv en) (g_group g) t0 = (rc1, grp1)" by fastforce
  have d': "d' = (if rc1 = NEU_ERR_SUCCESS then (set_group (g\<lparr>g_group := grp1\<rparr>) d1)\<lparr>dr_tag_cnt := dr_tag_cnt d1 + 1\<rparr>
      else set_group (g\<lparr>g_group := grp1\<rparr>) d1)"
    using rest g add by (auto simp: Let_def set_group_def)
  have "node_ok d'" unfolding d' using node_ok_add_tag [OF add keeps_ok [OF d1]] find_group_in [OF g] by blast
  moreover have "ad_type d' = ad_type d1" unfolding d' by (simp add: set_group_def)
  ultimately show ?thesis using d0 d1 by (simp add: keeps_def)
qed

lemma keeps_del_tag:
  assumes "neu_adapter_driver_del_tag en intf grp tag d = Some (rc, d')" "node_ok d"
  shows "keeps d d'"
proof (cases "find_group d grp")
  case None
  then show ?thesis using assms by (simp add: neu_adapter_driver_del_tag_def keeps_def)
next
  case (Some g)
  obtain grp' where del: "neu_group_del_tag (en_tv en) (g_group g) tag = Some (rc, grp')"
    using assms(1) Some by (auto simp: neu_adapter_driver_del_tag_def bind_eq_Some_conv Let_def split: if_splits)
  have "tags_ok (g_group g)" using find_group_in [OF Some] assms(2) by (auto simp: node_ok_def groups_ok_def)
  note ok = group_del_tag_ok [OF del this]
  have gin: "g \<in> set (dr_groups d)" using find_group_in [OF Some] by blast
  define c where "c = (if rc = 0 then dr_tag_cnt d - 1 else dr_tag_cnt d)"
  have cnt: "c = dr_tag_cnt d + of_nat (length (gr_tags grp')) - of_nat (length (gr_tags (g_group g)))"
    using ok(4,5) by (cases "gr_tags (g_group g)") (auto simp: c_def split: if_splits)
  let ?d = "(set_group (g\<lparr>g_group := grp'\<rparr>) d)\<lparr>dr_tag_cnt := c\<rparr>"
  have "node_ok ?d" by (rule node_ok_set [OF assms(2) gin ok(2,3,1) cnt])
  moreover have "same_node ?d d'" using assms(1) Some del
    by (auto simp: neu_adapter_driver_del_tag_def neu_adapter_driver_try_del_tag_def c_def same_node_def set_group_def Let_def
        split: if_splits option.splits prod.splits)
  ultimately show ?thesis using assms(2) by (auto simp: keeps_def same_node_def set_group_def dest: node_ok_same)
qed

lemma keeps_set_tags:
  assumes "node_ok d" "g \<in> set (dr_groups d)" "gr_name grp = gr_name (g_group g)" "gr_interval grp = gr_interval (g_group g)"
    "tags_ok grp" "length (gr_tags grp) = length (gr_tags (g_group g))"
  shows "keeps d (set_group (g\<lparr>g_group := grp\<rparr>) d)"
  using node_ok_set [OF assms(1-5), of "dr_tag_cnt d"] assms(6) by (simp add: keeps_def set_group_def)

lemma keeps_update_tag:
  assumes "neu_adapter_driver_update_tag en intf grp tag d = Some (rc, t, d')" "node_ok d"
  shows "keeps d d'"
proof -
  have k: "keeps d d" using assms(2) by (simp add: keeps_def)
  obtain rc0 t0 d0 where v: "call_validate intf tag d = (rc0, t0, d0)" by (metis prod_cases3)
  have "same_node d d0" using same_plugin_calls(4) [of d intf tag d] v by simp
  then have d0: "keeps d d0" using assms(2) keeps_same by blast
  have "keeps d (set_group (g\<lparr>g_group := grp'\<rparr>) d0)"
    if "find_group d0 grp = Some g" "neu_group_update_tag (en_tv en) (g_group g) (parse_option t0) = (rc', grp')" for g rc' grp'
  proof -
    have gin: "g \<in> set (dr_groups d0)" using find_group_in [OF that(1)] by blast
    then have "tags_ok (g_group g)" using keeps_ok [OF d0] by (simp add: node_ok_def groups_ok_def)
    note ok = group_update_tag_ok [OF that(2) this]
    show ?thesis using keeps_trans [OF d0 keeps_set_tags [OF keeps_ok [OF d0] gin ok(2,3,1,4)]] .
  qed
  then show ?thesis using assms(1) k d0 v
    by (auto simp: neu_adapter_driver_update_tag_def Let_def split: if_splits option.splits prod.splits)
qed

lemma keeps_rename_tag:
  assumes "neu_adapter_driver_rename_tag en grp old new d = Some (rc, d')" "node_ok d"
  shows "keeps d d'"
proof -
  have k: "keeps d d" using assms(2) by (simp add: keeps_def)
  have "keeps d (set_group (g\<lparr>g_group := grp'\<rparr>) d)"
    if "find_group d grp = Some g" "neu_group_rename_tag (en_mem en) (en_tv en) (g_group g) old new = Some (rc', grp')" for g rc' grp'
  proof -
    have gin: "g \<in> set (dr_groups d)" using find_group_in [OF that(1)] by blast
    then have "tags_ok (g_group g)" using assms(2) by (simp add: node_ok_def groups_ok_def)
    note ok = group_rename_tag_ok [OF that(2) this]
    show ?thesis by (rule keeps_set_tags [OF assms(2) gin ok(2,3,1,4)])
  qed
  then show ?thesis using assms(1) k
    by (auto simp: neu_adapter_driver_rename_tag_def bind_eq_Some_conv Let_def split: if_splits option.splits
        intro: keeps_same_after)
qed

section \<open>Deleting and changing groups\<close>

lemma groups_ok_del:
  assumes "groups_ok d" "g \<in> set (dr_groups d)"
  shows "groups_ok (d\<lparr>dr_groups := remove1 g (dr_groups d), dr_tag_cnt := dr_tag_cnt d - of_nat (length (gr_tags (g_group g)))\<rparr>)"
proof -
  obtain xs ys where gs: "dr_groups d = xs @ g # ys" "g \<notin> set xs" using split_list_first [OF assms(2)] by blast
  have "remove1 g (dr_groups d) = xs @ ys" using gs by (simp add: remove1_append)
  then show ?thesis
    using assms(1) by (auto simp: groups_ok_def gs(1) tag_count_split is_driver_def tag_count_def)
qed

lemma small_count: "length (gr_tags g) < 65536 \<Longrightarrow> ucast (neu_group_tag_size g) = (of_nat (length (gr_tags g)) :: u64)"
proof -
  assume "length (gr_tags g) < 65536"
  then have "unat (neu_group_tag_size g) = length (gr_tags g)"
    by (simp add: neu_group_tag_size_def unsigned_of_nat take_bit_nat_eq_self)
  then show ?thesis by (metis of_nat_unat)
qed

lemma keeps_del_group:
  assumes "neu_adapter_driver_del_group intf name d = Some (rc, d')" "node_ok d"
    "\<And>g. find_group d name = Some g \<Longrightarrow> length (gr_tags (g_group g)) < 65536"
  shows "keeps d d'"
proof (cases "find_group d name")
  case None
  then show ?thesis using assms by (simp add: neu_adapter_driver_del_group_def keeps_def)
next
  case (Some g)
  have gin: "g \<in> set (dr_groups d)" using find_group_in [OF Some] by blast
  let ?c = "dr_tag_cnt d - of_nat (length (gr_tags (g_group g)))"
  define d1 where "d1 = (snd (stop_group_timer g d))\<lparr>dr_groups := remove1 g (dr_groups d), dr_tag_cnt := ?c\<rparr>"
  have gok: "groups_ok (d\<lparr>dr_groups := remove1 g (dr_groups d), dr_tag_cnt := ?c\<rparr>)"
    using groups_ok_del [OF _ gin] assms(2) by (simp add: node_ok_def)
  then have gok: "groups_ok d1" by (simp add: groups_ok_def d1_def stop_group_timer_eq is_driver_def)
  have "timed (running_groups d - {g_addr g}) ((snd (stop_group_timer g d))\<lparr>dr_groups := remove1 g (dr_groups d)\<rparr>)"
    using timed_del [OF _ gin] assms(2) by (simp add: node_ok_def)
  then have t: "timed (running_groups d - {g_addr g}) d1" by (rule timed_frame) (simp_all add: d1_def)
  have dist: "distinct (map g_addr (dr_groups d))" by (rule node_ok_addrs [OF assms(2)])
  have run: "running_groups d1 = running_groups d - {g_addr g}"
    using dist gin by (auto simp: running_groups_def is_running_def d1_def stop_group_timer_eq distinct_map
        dest: inj_onD)
  have "node_ok d1" using assms(2) gok t run
    by (simp add: node_ok_def d1_def stop_group_timer_eq is_running_def is_driver_def)
  moreover have "timers_of g = {#}" if "\<not> is_running d"
    using assms(2) that gin by (simp add: node_ok_def timed_def running_groups_def)
  then have "same_node d1 d'" using assms(1) Some gin small_count [OF assms(3) [OF Some]]
    by (auto simp: neu_adapter_driver_del_group_def ulist_del_def bind_eq_Some_conv Let_def same_node_def d1_def
        stop_group_timer_eq neu_adapter_driver_try_del_tag_def is_running_def split: option.splits prod.splits if_splits)
  ultimately show ?thesis using node_ok_same same_node_type by (fastforce simp: keeps_def d1_def stop_group_timer_eq)
qed

lemma sum_list_mset_cong: "mset xs = mset ys \<Longrightarrow> sum_list (map f xs) = sum_list (map f ys)"
  for f :: "'a \<Rightarrow> 'b :: comm_monoid_add"
proof -
  assume "mset xs = mset ys"
  then have "mset (map f xs) = mset (map f ys)" by simp
  then show ?thesis by (metis sum_mset_sum_list)
qed

lemma distinct_map_mset_cong: "mset xs = mset ys \<Longrightarrow> distinct (map f xs) = distinct (map f ys)"
  by (rule mset_eq_imp_distinct_iff) simp

lemma node_ok_perm:
  assumes "node_ok d" "mset (dr_groups d') = mset (dr_groups d)" "ad_timers d' = ad_timers d" "ad_timer_connect d' = ad_timer_connect d"
    "ad_next d' = ad_next d" "ad_state d' = ad_state d" "ad_type d' = ad_type d" "ad_setting d' = ad_setting d"
    "dr_tag_cnt d' = dr_tag_cnt d"
  shows "node_ok d'"
proof -
  have s: "set (dr_groups d') = set (dr_groups d)" using mset_eq_setD [OF assms(2)] .
  moreover have "dr_groups d' = [] \<longleftrightarrow> dr_groups d = []" using s by (metis set_empty)
  moreover have "tag_count (dr_groups d') = tag_count (dr_groups d)"
    unfolding tag_count_def by (rule sum_list_mset_cong [OF assms(2)])
  ultimately have "groups_ok d'"
    using assms(1,7,9) distinct_map_mset_cong [OF assms(2), of g_name] by (simp add: node_ok_def groups_ok_def is_driver_def)
  moreover have "running_groups d' = running_groups d" using assms(6) s by (simp add: running_groups_def is_running_def)
  moreover have "timed (running_groups d) d'"
    using assms(1,3-5) s distinct_map_mset_cong [OF assms(2), of g_addr] sum_list_mset_cong [OF assms(2), of timers_of]
    by (simp add: node_ok_def timed_def)
  ultimately show ?thesis
    using assms(1,4,6-8) by (simp add: node_ok_def is_running_def is_driver_def)
qed

lemma filter_addr_perm:
  fixes g' :: "'a group_t"
  assumes "distinct (map g_addr gs)" "g_addr g' \<in> g_addr ` set gs"
  shows "mset (filter (\<lambda>x. g_addr x \<noteq> g_addr g') gs @ [g']) = mset (map (\<lambda>x. if g_addr x = g_addr g' then g' else x) gs)"
proof -
  obtain xs g ys where gs: "gs = xs @ g # ys" "g_addr g = g_addr g'" "g_addr g' \<notin> g_addr ` set xs" "g_addr g' \<notin> g_addr ` set ys"
    and upd: "\<And>x. g_addr x = g_addr g' \<Longrightarrow> map (\<lambda>y. if g_addr y = g_addr g' then x else y) gs = xs @ x # ys"
    using groups_split [OF assms] by blast
  have "filter (\<lambda>x. g_addr x \<noteq> g_addr g') zs = zs" if "g_addr g' \<notin> g_addr ` set zs" for zs :: "'a group_t list"
    using that by (induction zs) auto
  then have "filter (\<lambda>x. g_addr x \<noteq> g_addr g') gs = xs @ ys" using gs by simp
  then show ?thesis using upd [of g'] by simp
qed

text \<open>A group that is taken out, changed and put back, with its timers stopped and started.\<close>

definition regroup :: "'u group_t \<Rightarrow> 'u group_t \<Rightarrow> ('p, 'u) neu_adapter \<Rightarrow> ('p, 'u) neu_adapter" where
  "regroup g g' d = (if is_running d then (let (g', d) = start_group_timer g' (snd (stop_group_timer g d)) in set_group g' d)
     else set_group g' d)"

lemma groups_ok_replace:
  assumes "groups_ok d" "distinct (map g_addr (dr_groups d))" "g \<in> set (dr_groups d)" "g_addr g' = g_addr g"
    "g_name g' = g_name g \<or> g_name g' \<notin> g_name ` set (dr_groups d)" "gr_name (g_group g') = g_name g'" "tags_ok (g_group g')"
    "length (gr_tags (g_group g')) = length (gr_tags (g_group g))"
  shows "groups_ok (set_group g' d)"
proof -
  obtain xs h ys where gs: "dr_groups d = xs @ h # ys" "g_addr h = g_addr g" "g_addr g \<notin> g_addr ` set xs"
      "g_addr g \<notin> g_addr ` set ys"
    and upd: "\<And>x. g_addr x = g_addr g \<Longrightarrow> map (\<lambda>y. if g_addr y = g_addr g then x else y) (dr_groups d) = xs @ x # ys"
    using groups_split [of "dr_groups d" "g_addr g"] assms(2,3) by auto
  have h: "h = g" using assms(3) gs by auto
  have grs: "dr_groups (set_group g' d) = xs @ g' # ys" using assms(4) upd by (simp add: set_group_def)
  have "g_name g' \<notin> g_name ` set xs" "g_name g' \<notin> g_name ` set ys"
    using assms(1,5) by (auto simp: groups_ok_def gs(1) h image_iff)
  then show ?thesis
    using assms(1,6-) unfolding groups_ok_def grs
    by (simp add: gs(1) h tag_count_split, simp add: set_group_def is_driver_def)
qed

lemma keeps_regroup:
  assumes "node_ok d" "g \<in> set (dr_groups d)" "g_addr g' = g_addr g" "timers_off g'"
    "g_name g' = g_name g \<or> g_name g' \<notin> g_name ` set (dr_groups d)" "gr_name (g_group g') = g_name g'" "tags_ok (g_group g')"
    "length (gr_tags (g_group g')) = length (gr_tags (g_group g))"
  shows "keeps d (regroup g g' d)"
proof -
  have dist: "distinct (map g_addr (dr_groups d))" by (rule node_ok_addrs [OF assms(1)])
  have gok: "groups_ok (set_group x d)" if "g_addr x = g_addr g" "g_name x = g_name g'" "g_group x = g_group g'" for x
    using groups_ok_replace [OF _ dist assms(2), of x] that assms by (simp add: node_ok_def)
  show ?thesis
  proof (cases "is_running d")
    case False
    then have "timers_off g" "running_groups d = {}" using assms(1,2) by (simp_all add: node_ok_def timed_def running_groups_def)
    then have "timed {} (set_group g' d)"
      using assms(1-4) timed_set [of "{}" d g g'] by (simp add: node_ok_def timers_on_def timers_off_def)
    then show ?thesis using False gok [of g'] assms(1,3)
      by (simp add: keeps_def regroup_def node_ok_def running_groups_def is_running_def) (simp add: set_group_def is_driver_def)
  next
    case True
    obtain g1 d1 where stop: "stop_group_timer g d = (g1, d1)" by fastforce
    let ?S = "running_groups d - {g_addr g}"
    have t1: "timed ?S (set_group g1 d1)" using timed_stop [OF _ assms(2) stop] assms(1) by (simp add: node_ok_def)
    obtain g2 d2 where start: "start_group_timer g' d1 = (g2, d2)" by fastforce
    have g2: "g_addr g2 = g_addr g" "g_name g2 = g_name g'" "g_group g2 = g_group g'" "g_addr g1 = g_addr g"
      using start stop assms(3) by (auto simp: start_group_timer_eq stop_group_timer_eq)
    have r: "regroup g g' d = set_group g2 d2" using True by (simp add: regroup_def stop start)
    have "start_group_timer g' (set_group g1 d1) = (g2, set_group g1 d2)"
      using start by (auto simp: start_group_timer_eq set_group_def)
    then have "timed (insert (g_addr g') ?S) (set_group g2 (set_group g1 d2))"
      using assms(2,3) stop by (intro timed_start [OF t1]) (auto simp: stop_group_timer_eq)
    then have t2: "timed (insert (g_addr g) ?S) (regroup g g' d)" using r g2 assms(3) by (simp add: set_group_twice)
    have fields: "dr_groups (regroup g g' d) = dr_groups (set_group g2 d)" "ad_timer_connect (regroup g g' d) = ad_timer_connect d"
      "ad_state (regroup g g' d) = ad_state d" "ad_type (regroup g g' d) = ad_type d" "ad_setting (regroup g g' d) = ad_setting d"
      "dr_tag_cnt (regroup g g' d) = dr_tag_cnt d"
      using r start stop by (auto simp: start_group_timer_eq stop_group_timer_eq set_group_def)
    have "groups_ok (regroup g g' d)"
      by (rule groups_ok_frame [OF gok [OF g2(1-3)]]) (simp_all add: fields, simp_all add: set_group_def)
    moreover have "running_groups (regroup g g' d) = insert (g_addr g) ?S"
      using True assms(2) by (auto simp: running_groups_def is_running_def fields)
    ultimately show ?thesis using t2 assms(1)
      by (simp add: keeps_def node_ok_def is_running_def is_driver_def fields)
  qed
qed

lemma rename_group_cases:
  assumes "rename_group en g n d = Some (rc, g', d')"
  obtains (same) grp where "g' = g\<lparr>g_grp := grp\<rparr>" "d' = d"
  | (moved) grp where "g' = g\<lparr>g_grp := grp, g_name := n, g_group := (g_group g)\<lparr>gr_name := n\<rparr>\<rparr>"
      "d' = d\<lparr>dr_groups := filter (\<lambda>x. g_addr x \<noteq> g_addr g) (dr_groups d) @ [g']\<rparr>" "g_addr g \<in> g_addr ` set (dr_groups d)"
proof (cases "d' = d \<and> (\<exists>grp. g' = g\<lparr>g_grp := grp\<rparr>)")
  case True
  then show ?thesis using same by blast
next
  case False
  then have "g' = g\<lparr>g_grp := (g_grp g)\<lparr>pg_user_data := None, pg_group_name := n\<rparr>, g_name := n, g_group := (g_group g)\<lparr>gr_name := n\<rparr>\<rparr> \<and>
      d' = d\<lparr>dr_groups := filter (\<lambda>x. g_addr x \<noteq> g_addr g) (dr_groups d) @ [g']\<rparr> \<and> g_addr g \<in> g_addr ` set (dr_groups d)"
    using assms by (auto simp: rename_group_def neu_group_set_name_def ulist_add_def Let_def split: if_splits)
  then show ?thesis using moved by blast
qed

lemma keeps_regroup_perm:
  assumes "keeps d (regroup g g' d)" "mset (dr_groups d') = mset (dr_groups (regroup g g' d))"
    "d'\<lparr>dr_groups := x\<rparr> = (regroup g g' d)\<lparr>dr_groups := x\<rparr>"
  shows "keeps d d'"
proof -
  have f: "ad_timers d' = ad_timers (regroup g g' d)" "ad_timer_connect d' = ad_timer_connect (regroup g g' d)"
    "ad_next d' = ad_next (regroup g g' d)" "ad_state d' = ad_state (regroup g g' d)" "ad_type d' = ad_type (regroup g g' d)"
    "ad_setting d' = ad_setting (regroup g g' d)" "dr_tag_cnt d' = dr_tag_cnt (regroup g g' d)"
    using assms(3) by (metis neu_adapter.surjective neu_adapter.update_convs(12) neu_adapter.ext_inject)+
  then show ?thesis using assms(1) node_ok_perm [OF _ assms(2) f] by (simp add: keeps_def)
qed

lemma set_group_moved:
  assumes "g_addr g' = g_addr g" "g_addr h = g_addr g"
  shows "map (\<lambda>x. if g_addr x = g_addr g' then g' else x) (filter (\<lambda>x. g_addr x \<noteq> g_addr g) gs @ [h]) =
    filter (\<lambda>x. g_addr x \<noteq> g_addr g') gs @ [g']"
  using assms by (auto intro!: map_idI)

lemma timers_off_stop:
  assumes "node_ok d" "g \<in> set (dr_groups d)" "(g1, d1) = (if is_running d then stop_group_timer g d else (g, d))"
  shows "timers_off g1" "g_addr g1 = g_addr g" "g_name g1 = g_name g" "g_group g1 = g_group g" "dr_groups d1 = dr_groups d"
    "is_running d \<Longrightarrow> d1 = snd (stop_group_timer g d)" "\<not> is_running d \<Longrightarrow> d1 = d" "ad_state d1 = ad_state d"
  using assms by (auto simp: node_ok_def timed_def running_groups_def stop_group_timer_eq timers_off_def split: if_splits)

text \<open>The steps of an update: stop, rename, change, start.\<close>

definition finish_update :: "bool \<Rightarrow> 'u group_t \<Rightarrow> ('p, 'u) neu_adapter \<Rightarrow> ('p, 'u) neu_adapter" where
  "finish_update running g d = (let (g, d) = (if running then start_group_timer g d else (g, d)) in set_group g d)"

lemma update_group_steps:
  assumes "neu_adapter_driver_update_group en name new_name interval d = Some (rc, d')" "d' \<noteq> d"
  obtains g g1 d1 g2 d2 ts pg i where "find_group d name = Some g"
    "(g1, d1) = (if is_running d then stop_group_timer g d else (g, d))"
    "(g2 = g1 \<and> d2 = d1) \<or> (\<exists>n rc. find_group d n = None \<and> rename_group en g1 n d1 = Some (rc, g2, d2))"
    "d' = finish_update (is_running d) (g2\<lparr>g_timestamp := ts, g_grp := pg, g_group := neu_group_set_interval (g_group g2) i\<rparr>) d2"
proof -
  obtain g where g: "find_group d name = Some g"
    using assms by (cases "find_group d name") (auto simp: neu_adapter_driver_update_group_def)
  obtain g1 d1 where stop: "(g1, d1) = (if is_running d then stop_group_timer g d else (g, d))" by (metis surj_pair)
  define i where "i = (if interval < NEU_GROUP_INTERVAL_LIMIT then gr_interval (g_group g1) else interval)"
  define R where "R = (case new_name of Some n \<Rightarrow> if name \<noteq> n then rename_group en g1 n d1 else Some (0, g1, d1)
        | None \<Rightarrow> Some (0, g1, d1))"
  let ?exist = "case new_name of None \<Rightarrow> False | Some n \<Rightarrow> name \<noteq> n \<and> find_group d n \<noteq> None"
  have c1: "new_name \<noteq> Some ''''" using assms g by (auto simp: neu_adapter_driver_update_group_def)
  have c2: "\<not> ?exist"
  proof
    assume "?exist"
    then have "d' = d" using assms(1) g c1 by (simp add: neu_adapter_driver_update_group_def)
    then show False using assms(2) by simp
  qed
  have c3: "\<not> (new_name = None \<and> gr_interval (g_group g) = interval)"
  proof
    assume "new_name = None \<and> gr_interval (g_group g) = interval"
    then have "d' = d" using assms(1) g by (simp add: neu_adapter_driver_update_group_def)
    then show False using assms(2) by simp
  qed
  have "neu_adapter_driver_update_group en name new_name interval d =
      Option.bind R (\<lambda>(ret, g2, d2). Some (ret, finish_update (is_running d) (g2\<lparr>g_timestamp := en_now en,
        g_grp := (g_grp g2)\<lparr>pg_interval := i\<rparr>, g_group := neu_group_set_interval (g_group g2) i\<rparr>) d2))"
    unfolding neu_adapter_driver_update_group_def is_running_def [symmetric] g option.case if_not_P [OF c1] if_not_P [OF c2]
      if_not_P [OF c3] Let_def stop [symmetric] prod.case R_def i_def finish_update_def
    by (rule arg_cong2 [where f = Option.bind]) (auto simp: fun_eq_iff split: prod.splits)
  then obtain rc2 g2 d2 where R: "R = Some (rc2, g2, d2)" and d': "d' = finish_update (is_running d) (g2\<lparr>g_timestamp := en_now en,
        g_grp := (g_grp g2)\<lparr>pg_interval := i\<rparr>, g_group := neu_group_set_interval (g_group g2) i\<rparr>) d2"
    using assms(1) by (cases R) auto
  show thesis
    by (rule that [OF g stop _ d']) (use R c2 in \<open>auto simp: R_def split: option.splits if_splits\<close>)
qed

lemma finish_update_regroup:
  assumes "node_ok d" "g \<in> set (dr_groups d)" "(g1, d1) = (if is_running d then stop_group_timer g d else (g, d))"
  shows "finish_update (is_running d) g' d1 = regroup g g' d"
  using timers_off_stop [OF assms] by (simp add: finish_update_def regroup_def)

lemma keeps_update_group:
  assumes "neu_adapter_driver_update_group en name new_name interval d = Some (rc, d')" "node_ok d"
  shows "keeps d d'"
proof (cases "d' = d")
  case True
  then show ?thesis using assms(2) by (simp add: keeps_def)
next
  case False
  obtain g g1 d1 g2 d2 ts pg i where g: "find_group d name = Some g"
    and stop: "(g1, d1) = (if is_running d then stop_group_timer g d else (g, d))"
    and ren: "(g2 = g1 \<and> d2 = d1) \<or> (\<exists>n rc. find_group d n = None \<and> rename_group en g1 n d1 = Some (rc, g2, d2))"
    and d': "d' = finish_update (is_running d) (g2\<lparr>g_timestamp := ts, g_grp := pg, g_group := neu_group_set_interval (g_group g2) i\<rparr>) d2"
    by (rule update_group_steps [OF assms(1) False])
  have gin: "g \<in> set (dr_groups d)" using find_group_in [OF g] by auto
  note off = timers_off_stop [OF assms(2) gin stop]
  have ok: "gr_name (g_group g) = g_name g" "tags_ok (g_group g)" using assms(2) gin by (auto simp: node_ok_def groups_ok_def)
  define g3 where "g3 = g2\<lparr>g_timestamp := ts, g_grp := pg, g_group := neu_group_set_interval (g_group g2) i\<rparr>"
  have k: "keeps d (regroup g g3 d)"
    if "g_addr g2 = g_addr g1" "timers_off g2" "g_name g2 = g_name g1 \<or> g_name g2 \<notin> g_name ` set (dr_groups d)"
      "gr_name (g_group g2) = g_name g2" "gr_tags (g_group g2) = gr_tags (g_group g1)"
    by (rule keeps_regroup [OF assms(2) gin])
      (use that off ok in \<open>simp_all add: g3_def neu_group_set_interval_def timers_off_def tags_ok_def\<close>)
  consider (same) grp where "g2 = g1\<lparr>g_grp := grp\<rparr>" "d2 = d1"
    | (moved) n grp where "find_group d n = None" "g2 = g1\<lparr>g_grp := grp, g_name := n, g_group := (g_group g1)\<lparr>gr_name := n\<rparr>\<rparr>"
      "d2 = d1\<lparr>dr_groups := filter (\<lambda>x. g_addr x \<noteq> g_addr g1) (dr_groups d1) @ [g2]\<rparr>"
  proof -
    have "g2 = g1 \<and> d2 = d1 \<Longrightarrow> thesis" using same [of "g_grp g1"] by simp
    moreover have "thesis" if "find_group d n = None" "rename_group en g1 n d1 = Some (rc, g2, d2)" for n rc
      using that(2) by (rule rename_group_cases) (use same moved that(1) in blast)+
    ultimately show thesis using ren by blast
  qed
  then show ?thesis
  proof cases
    case same
    then have "d' = regroup g g3 d" using d' finish_update_regroup [OF assms(2) gin stop] by (simp add: g3_def)
    then show ?thesis using k same off ok by (simp add: timers_off_def)
  next
    case moved
    have "g_name g2 \<notin> g_name ` set (dr_groups d)" using moved by (auto simp: find_group_def ulist_find_none)
    then have kr: "keeps d (regroup g g3 d)" using k moved(2) off by (simp add: timers_off_def)
    obtain g4 d4 where fin: "(g4, d4) = (if is_running d then start_group_timer g3 d1 else (g3, d1))" by (metis surj_pair)
    have r: "regroup g g3 d = set_group g4 d4"
      using finish_update_regroup [OF assms(2) gin stop, of g3] by (simp add: finish_update_def fin [symmetric])
    have g4: "g_addr g4 = g_addr g" "g_addr g2 = g_addr g" "dr_groups d4 = dr_groups d"
      using fin moved(2) off by (auto simp: g3_def start_group_timer_eq split: if_splits)
    let ?gs = "filter (\<lambda>x. g_addr x \<noteq> g_addr g) (dr_groups d)"
    have d2: "d2 = d1\<lparr>dr_groups := ?gs @ [g2]\<rparr>" using moved(3) off by simp
    have "(if is_running d then start_group_timer g3 d2 else (g3, d2)) = (g4, d4\<lparr>dr_groups := ?gs @ [g2]\<rparr>)"
      using fin by (auto simp: d2 start_group_timer_eq split: if_splits)
    then have d'': "d' = set_group g4 (d4\<lparr>dr_groups := ?gs @ [g2]\<rparr>)"
      unfolding d' finish_update_def g3_def [symmetric] by simp
    have "dr_groups d' = ?gs @ [g4]"
      using set_group_moved [OF g4(1,2), of "dr_groups d"] g4(1) by (simp add: d'' set_group_def)
    then have "mset (dr_groups d') = mset (dr_groups (regroup g g3 d))"
      using filter_addr_perm [OF node_ok_addrs [OF assms(2)], of g4] gin g4 by (simp add: r set_group_def)
    then show ?thesis by (rule keeps_regroup_perm [OF kr, where x = "[]"]) (simp add: r d'' set_group_def)
  qed
qed

section \<open>Synchronous reads\<close>

text \<open>The invariant while the timers of one group are stopped.\<close>

definition node_but :: "nat \<Rightarrow> ('p, 'u) neu_adapter \<Rightarrow> bool" where
  "node_but a d \<longleftrightarrow> is_running d \<and> groups_ok d \<and> timed (running_groups d - {a}) d \<and>
     (ad_timer_connect d \<noteq> None \<longleftrightarrow> is_driver d) \<and> (ad_setting d = None \<longleftrightarrow> ad_state d = NEU_NODE_RUNNING_STATE_INIT)"

lemma node_but_same:
  assumes "node_but a d" "same_node d d'"
  shows "node_but a d'"
proof -
  have "map shell (dr_groups d') = map shell (dr_groups d)" using assms(2) by (simp add: same_node_def)
  from arg_cong [OF map_shell_eqs(1) [OF this], of set] have "running_groups d' = running_groups d"
    using assms(2) by (simp add: is_running_def running_groups_def same_node_def)
  moreover have "groups_ok d'" "timed (running_groups d - {a}) d'"
    using assms groups_ok_same [of d d'] timed_same [of _ d d'] by (simp_all add: node_but_def)
  ultimately show ?thesis
    using assms by (simp add: node_but_def is_running_def is_driver_def same_node_def)
qed

lemma groups_ok_timers:
  assumes "groups_ok d" "distinct (map g_addr (dr_groups d))" "g \<in> set (dr_groups d)" "g_addr g' = g_addr g" "g_name g' = g_name g"
    "g_group g' = g_group g"
  shows "groups_ok (set_group g' d)"
proof (rule groups_ok_replace [OF assms(1-4)])
  have "gr_name (g_group g) = g_name g \<and> tags_ok (g_group g)" using assms(1,3) by (simp add: groups_ok_def)
  then show "gr_name (g_group g') = g_name g'" "tags_ok (g_group g')" by (simp_all add: assms)
qed (simp_all add: assms)

lemma node_but_stop:
  assumes "node_ok d" "is_running d" "g \<in> set (dr_groups d)" "stop_group_timer g d = (g', d')"
  shows "node_but (g_addr g) (set_group g' d')" "g' \<in> set (dr_groups (set_group g' d'))" "g_addr g' = g_addr g"
    "ad_type (set_group g' d') = ad_type d"
proof -
  have f: "g_addr g' = g_addr g" "g_name g' = g_name g" "g_group g' = g_group g" "dr_groups d' = dr_groups d"
    using assms(4) by (auto simp: stop_group_timer_eq)
  have "groups_ok (set_group g' d)"
    using groups_ok_timers [OF _ node_ok_addrs [OF assms(1)] assms(3) f(1-3)] assms(1) by (simp add: node_ok_def)
  then have "groups_ok (set_group g' d')"
    by (rule groups_ok_frame) (use assms(4) in \<open>auto simp: set_group_def stop_group_timer_eq\<close>)
  moreover have "running_groups (set_group g' d') = running_groups d"
    using assms(4) by (auto simp: running_groups_def is_running_def stop_group_timer_eq) (simp_all add: set_group_def)
  moreover have "timed (running_groups d - {g_addr g}) (set_group g' d')"
    using timed_stop [OF _ assms(3,4)] assms(1) by (simp add: node_ok_def)
  ultimately show "node_but (g_addr g) (set_group g' d')"
    using assms(1,2,4) by (auto simp: node_but_def node_ok_def is_running_def is_driver_def set_group_def stop_group_timer_eq)
  show "g' \<in> set (dr_groups (set_group g' d'))" using assms(3) f by (force simp: set_group_def)
  show "g_addr g' = g_addr g" "ad_type (set_group g' d') = ad_type d"
    using assms(4) by (auto simp: set_group_def stop_group_timer_eq)
qed

lemma node_ok_start:
  assumes "node_but a d" "g \<in> set (dr_groups d)" "g_addr g = a" "start_group_timer g d = (g', d')"
  shows "node_ok (set_group g' d')" "ad_type (set_group g' d') = ad_type d"
proof -
  have f: "g_addr g' = g_addr g" "g_name g' = g_name g" "g_group g' = g_group g" "dr_groups d' = dr_groups d"
    using assms(4) by (auto simp: start_group_timer_eq)
  have dist: "distinct (map g_addr (dr_groups d))" using assms(1) by (simp add: node_but_def timed_def)
  have "groups_ok (set_group g' d)"
    using groups_ok_timers [OF _ dist assms(2) f(1-3)] assms(1) by (simp add: node_but_def)
  then have "groups_ok (set_group g' d')"
    by (rule groups_ok_frame) (use assms(4) in \<open>auto simp: set_group_def start_group_timer_eq\<close>)
  moreover have "running_groups (set_group g' d') = running_groups d"
    using assms(4) by (auto simp: running_groups_def is_running_def start_group_timer_eq) (simp_all add: set_group_def)
  moreover have "timed (insert (g_addr g) (running_groups d - {a})) (set_group g' d')"
    using timed_start [OF _ imageI _ assms(4), of "running_groups d - {a}"] assms(1-3) by (simp add: node_but_def)
  moreover have "insert (g_addr g) (running_groups d - {a}) = running_groups d"
    using assms(1-3) by (auto simp: running_groups_def node_but_def)
  ultimately show "node_ok (set_group g' d')"
    using assms(1,4) by (auto simp: node_but_def node_ok_def is_running_def is_driver_def set_group_def start_group_timer_eq)
  show "ad_type (set_group g' d') = ad_type d"
    using assms(4) by (auto simp: set_group_def start_group_timer_eq)
qed

lemma keeps_read_sync:
  assumes "read_sync en f rd g d = Some (tvs, d')" "node_ok d" "is_running d" "g \<in> set (dr_groups d)"
  shows "keeps d d'"
proof -
  obtain g1 d1 where stop: "stop_group_timer g d = (g1, d1)" by fastforce
  note but = node_but_stop [OF assms(2-4) stop]
  obtain d2 c g2 where d2: "poll_plugin en f g1 (set_group g1 d1) = Some d2" and g2: "group_at d2 (g_addr g1) = Some g2"
    and d': "d' = set_group (fst (start_group_timer g2 (d2\<lparr>dr_cache := c\<rparr>))) (snd (start_group_timer g2 (d2\<lparr>dr_cache := c\<rparr>)))"
    using assms(1) by (auto simp: read_sync_def stop bind_eq_Some_conv case_prod_beta)
  have "same_node (set_group g1 d1) (d2\<lparr>dr_cache := c\<rparr>)"
    using same_poll_plugin [OF d2 _ but(2)] but(1) by (simp add: node_but_def timed_def)
  note but2 = node_but_same [OF but(1) this] same_node_type [OF this]
  obtain g3 d3 where start: "start_group_timer g2 (d2\<lparr>dr_cache := c\<rparr>) = (g3, d3)" by fastforce
  have "g2 \<in> set (dr_groups (d2\<lparr>dr_cache := c\<rparr>))" "g_addr g2 = g_addr g"
    using group_at_in [OF g2] but(3) by simp_all
  from node_ok_start [OF but2(1) this start] show ?thesis
    using d' start but(4) but2(2) by (simp add: keeps_def)
qed

lemma keeps_read_values:
  assumes "read_values w en intf sync tags rd g d = Some (tvs, d')" "node_ok d" "g \<in> set (dr_groups d)"
  shows "keeps d d'"
proof -
  have "keeps d d" using assms(2) by (simp add: keeps_def)
  then show ?thesis
    using assms by (auto simp: read_values_def is_running_def split: if_splits option.splits
        intro: keeps_read_sync [unfolded is_running_def])
qed

lemma keeps_read_group:
  assumes "neu_adapter_driver_read_group en intf req cmd d = Some d'" "node_ok d"
  shows "keeps d d'"
  using assms keeps_read_values [OF _ assms(2)]
  by (auto simp: neu_adapter_driver_read_group_def bind_eq_Some_conv Let_def keeps_same split: option.splits
      dest!: find_group_in)

lemma keeps_read_group_paginate:
  assumes "neu_adapter_driver_read_group_paginate en intf req cmd d = Some d'" "node_ok d"
  shows "keeps d d'"
  using assms keeps_read_values [OF _ assms(2)]
  by (auto simp: neu_adapter_driver_read_group_paginate_def bind_eq_Some_conv Let_def keeps_same split: option.splits
      dest!: find_group_in)

lemma keeps_test_read_tag:
  assumes "neu_adapter_driver_test_read_tag en intf req grp tag d = Some d'" "node_ok d"
  shows "keeps d d'"
proof -
  define stop where "stop = (case find_group d grp of None \<Rightarrow> None | Some g \<Rightarrow> if neu_group_tag_size (g_group g) > 0 then Some g else None)"
  consider (refused) e where "d' = test_read_tag_response req e d" | (poll) f where "is_running d" "pi_test_read_tag intf = Some f"
    using assms(1) by (auto simp: neu_adapter_driver_test_read_tag_def is_running_def split: if_splits option.splits)
  then show ?thesis
  proof cases
    case refused
    then show ?thesis using assms(2) by (simp add: test_read_tag_response_def keeps_same)
  next
    case poll
    note def = neu_adapter_driver_test_read_tag_def [of en intf req grp tag d] stop_def [symmetric]
    show ?thesis
    proof (cases stop)
      case None
      then show ?thesis using assms poll unfolding def
        by (auto simp: is_running_def Let_def bind_eq_Some_conv split: prod.splits dest!: same_run_cbs intro: keeps_same)
    next
      case (Some g)
      have gin: "g \<in> set (dr_groups d)" using Some by (auto simp: stop_def split: option.splits if_splits dest: find_group_in)
      obtain g1 d1 where st: "stop_group_timer g d = (g1, d1)" by fastforce
      note but = node_but_stop [OF assms(2) poll(1) gin st]
      obtain p cbs d2 g2 where d2: "run_cbs en 0 cbs ((set_group g1 d1)\<lparr>ad_plugin := p\<rparr>) = Some d2"
        and g2: "group_at d2 (g_addr g) = Some g2"
        and d': "d' = set_group (fst (start_group_timer g2 d2)) (snd (start_group_timer g2 d2))"
        using assms(1) poll Some st unfolding def
        by (auto simp: is_running_def Let_def bind_eq_Some_conv case_prod_beta)
      obtain g3 d3 where start: "start_group_timer g2 d2 = (g3, d3)" by fastforce
      have "same_node (set_group g1 d1) d2" using same_run_cbs [OF d2] by simp
      note but2 = node_but_same [OF but(1) this] same_node_type [OF this]
      have "g2 \<in> set (dr_groups d2)" "g_addr g2 = g_addr g" using group_at_in [OF g2] by simp_all
      from node_ok_start [OF but2(1) this start] show ?thesis
        using d' start but(4) but2(2) by (simp add: keeps_def)
    qed
  qed
qed

section \<open>Starting and stopping\<close>

text \<open>What the starting and stopping of timers leaves of the groups.\<close>

definition core :: "'u group_t \<Rightarrow> nat \<times> string \<times> neu_group" where
  "core g = (g_addr g, g_name g, g_group g)"

definition same_core :: "('p, 'u) neu_adapter \<Rightarrow> ('p, 'u) neu_adapter \<Rightarrow> bool" where
  "same_core d d' \<longleftrightarrow> map core (dr_groups d') = map core (dr_groups d) \<and> ad_timer_connect d' = ad_timer_connect d \<and>
     ad_state d' = ad_state d \<and> ad_type d' = ad_type d \<and> ad_setting d' = ad_setting d \<and> dr_tag_cnt d' = dr_tag_cnt d"

lemma same_core_groups:
  assumes "groups_ok d" "same_core d d'"
  shows "groups_ok d'" "g_addr ` set (dr_groups d') = g_addr ` set (dr_groups d)"
proof -
  have m: "map core (dr_groups d') = map core (dr_groups d)" using assms(2) by (simp add: same_core_def)
  have n: "map g_name (dr_groups d') = map g_name (dr_groups d)" "map g_addr (dr_groups d') = map g_addr (dr_groups d)"
    "map g_group (dr_groups d') = map g_group (dr_groups d)"
    using arg_cong [OF m, of "map (fst \<circ> snd)"] arg_cong [OF m, of "map fst"] arg_cong [OF m, of "map (snd \<circ> snd)"]
    by (simp_all add: core_def comp_def)
  have "(\<forall>g \<in> set (dr_groups d'). gr_name (g_group g) = g_name g \<and> tags_ok (g_group g)) =
      (\<forall>g \<in> set (dr_groups d). gr_name (g_group g) = g_name g \<and> tags_ok (g_group g))"
    using ball_map_eq [OF m, of "\<lambda>(a, n, g). gr_name g = n \<and> tags_ok g"] by (simp add: core_def)
  moreover have "dr_groups d' = [] \<longleftrightarrow> dr_groups d = []" using m by (metis map_is_Nil_conv)
  ultimately show "groups_ok d'"
    using assms by (simp add: groups_ok_def same_core_def tag_count_groups n is_driver_def)
  show "g_addr ` set (dr_groups d') = g_addr ` set (dr_groups d)" using arg_cong [OF n(2), of set] by simp
qed

lemma map_set_core:
  assumes "distinct (map g_addr gs)" "g \<in> set gs" "core g' = core g"
  shows "map core (map (\<lambda>x. if g_addr x = g_addr g' then g' else x) gs) = map core gs"
proof -
  have "g_addr g' = g_addr g" using assms(3) by (simp add: core_def)
  moreover have "x = g" if "x \<in> set gs" "g_addr x = g_addr g" for x
    using assms(1,2) that by (auto simp: distinct_map dest: inj_onD)
  ultimately show ?thesis using assms(3) by auto
qed

lemma set_group_other: "h \<in> set (dr_groups d) \<Longrightarrow> g_addr h \<noteq> g_addr g \<Longrightarrow> h \<in> set (dr_groups (set_group g d))"
  by (auto simp: set_group_def image_iff)

lemma set_group_rest:
  assumes "set gs \<subseteq> set (dr_groups d)" "g_addr g \<notin> g_addr ` set gs"
  shows "set gs \<subseteq> set (dr_groups (set_group g d))"
proof
  fix x assume x: "x \<in> set gs"
  then have "g_addr x \<noteq> g_addr g" using assms(2) by (metis imageI)
  then show "x \<in> set (dr_groups (set_group g d))" using x assms(1) by (auto intro: set_group_other)
qed

lemma start_timers_ok:
  assumes "timed S d" "set gs \<subseteq> set (dr_groups d)" "distinct (map g_addr gs)" "g_addr ` set gs \<inter> S = {}"
  shows "timed (S \<union> g_addr ` set gs) (start_timers gs d) \<and> same_core d (start_timers gs d)"
  using assms
proof (induction gs arbitrary: S d)
  case (Cons g gs)
  obtain g' d' where start: "start_group_timer g d = (g', d')" by fastforce
  have f: "g_addr g' = g_addr g" "core g' = core g" "dr_groups d' = dr_groups d"
    using start by (auto simp: start_group_timer_eq core_def)
  have t: "timed (insert (g_addr g) S) (set_group g' d')" using Cons.prems by (intro timed_start [OF _ _ _ start]) auto
  have "set gs \<subseteq> set (dr_groups (set_group g' d'))"
    using Cons.prems(2,3) f by (intro set_group_rest) auto
  with Cons.IH [OF t] Cons.prems(3,4)
  have ih: "timed (insert (g_addr g) S \<union> g_addr ` set gs) (start_timers gs (set_group g' d'))"
    "same_core (set_group g' d') (start_timers gs (set_group g' d'))" by auto
  have "map core (dr_groups (set_group g' d')) = map core (dr_groups d)"
    unfolding set_group_def using map_set_core [of "dr_groups d" g g'] Cons.prems f by (simp add: timed_def del: map_map)
  then have "same_core d (set_group g' d')" using start by (auto simp: same_core_def start_group_timer_eq set_group_def)
  then show ?case using ih start by (simp add: same_core_def)
qed (simp add: same_core_def)

lemma stop_timers_ok:
  assumes "timed S d" "set gs \<subseteq> set (dr_groups d)" "distinct (map g_addr gs)"
  shows "timed (S - g_addr ` set gs) (stop_timers gs d) \<and> same_core d (stop_timers gs d)"
  using assms
proof (induction gs arbitrary: S d)
  case (Cons g gs)
  obtain g' d' where stop: "stop_group_timer g d = (g', d')" by fastforce
  have f: "g_addr g' = g_addr g" "core g' = core g" "dr_groups d' = dr_groups d"
    using stop by (auto simp: stop_group_timer_eq core_def)
  have t: "timed (S - {g_addr g}) (set_group g' d')" using Cons.prems by (intro timed_stop [OF _ _ stop]) auto
  have "set gs \<subseteq> set (dr_groups (set_group g' d'))"
    using Cons.prems(2,3) f by (intro set_group_rest) auto
  with Cons.IH [OF t] Cons.prems(3)
  have ih: "timed (S - {g_addr g} - g_addr ` set gs) (stop_timers gs (set_group g' d'))"
    "same_core (set_group g' d') (stop_timers gs (set_group g' d'))" by auto
  have "map core (dr_groups (set_group g' d')) = map core (dr_groups d)"
    unfolding set_group_def using map_set_core [of "dr_groups d" g g'] Cons.prems f by (simp add: timed_def del: map_map)
  then have "same_core d (set_group g' d')" using stop by (auto simp: same_core_def stop_group_timer_eq set_group_def)
  moreover have "S - {g_addr g} - g_addr ` set gs = S - g_addr ` set (g # gs)" by auto
  ultimately show ?case using ih stop by (simp add: same_core_def)
qed (simp add: same_core_def)

lemma driver_start_timers_ok:
  assumes "timed {} d"
  shows "timed (g_addr ` set (dr_groups d)) (neu_adapter_driver_start_group_timer d)"
    "same_core d (neu_adapter_driver_start_group_timer d)"
  using start_timers_ok [OF assms, of "dr_groups d"] assms
  by (simp_all add: neu_adapter_driver_start_group_timer_def timed_def)

lemma driver_stop_timers_ok:
  assumes "timed S d" "S \<subseteq> g_addr ` set (dr_groups d)"
  shows "timed {} (neu_adapter_driver_stop_group_timer d)" "same_core d (neu_adapter_driver_stop_group_timer d)"
proof -
  have e: "S - g_addr ` set (dr_groups d) = {}" and "distinct (map g_addr (dr_groups d))" using assms by (auto simp: timed_def)
  then show "timed {} (neu_adapter_driver_stop_group_timer d)" "same_core d (neu_adapter_driver_stop_group_timer d)"
    using stop_timers_ok [OF assms(1), of "dr_groups d", unfolded e]
    by (simp_all add: neu_adapter_driver_stop_group_timer_def)
qed

end
