(* ===== verification/Node_Reach.thy ===== *)
theory Node_Reach
  imports Node_Ok
begin

text \<open>
  The states a node can reach: it is created from what was stored, takes requests in any order and
  has its timers run in between. The invariant of the node holds in all of them, and gives its
  properties: the node is well formed, the live timers are those of its groups, deleting the node
  leaves none behind and the tables of the event loops are large enough. The requests to write are
  followed from the request to the plugin.
\<close>

section \<open>The life cycle\<close>

lemma same_core_setting: "same_core d d' \<Longrightarrow> ad_state d' = ad_state d \<and> ad_type d' = ad_type d \<and> ad_setting d' = ad_setting d \<and>
    ad_timer_connect d' = ad_timer_connect d"
  by (simp add: same_core_def)

lemma keeps_start:
  assumes "neu_adapter_start intf d = (e, d')" "node_ok d"
  shows "keeps d d'"
proof (cases "ad_state d \<noteq> NEU_NODE_RUNNING_STATE_INIT \<and> \<not> is_running d \<and> snd (pi_start intf (ad_plugin d)) = 0")
  case False
  then have "same_node d d'" using assms by (auto simp: neu_adapter_start_def Let_def is_running_def split: if_splits prod.splits)
  then show ?thesis using keeps_same [OF assms(2)] by blast
next
  case True
  obtain p where p: "pi_start intf (ad_plugin d) = (p, 0)" using True by (metis prod.collapse)
  define d1 where "d1 = emit (Store_state (ad_name d) NEU_NODE_RUNNING_STATE_RUNNING) (d\<lparr>ad_plugin := p, ad_state := NEU_NODE_RUNNING_STATE_RUNNING\<rparr>)"
  have st: "ad_state d \<noteq> NEU_NODE_RUNNING_STATE_INIT" "ad_state d \<noteq> NEU_NODE_RUNNING_STATE_RUNNING"
    using True by (simp_all add: is_running_def)
  have d': "d' = (if ad_type d = NEU_NA_TYPE_DRIVER
      then let d = neu_adapter_driver_start_group_timer d1; (t, d) = neu_event_add_timer Try_connect 0 5 0 d in d\<lparr>ad_timer_connect := Some t\<rparr>
      else d1)"
    using assms(1) st p by (auto simp: neu_adapter_start_def d1_def Let_def emit_def split: prod.splits)
  have "timed {} d" "groups_ok d" "ad_timer_connect d = None" "ad_setting d \<noteq> None"
    using assms(2) st by (simp_all add: node_ok_def running_groups_def is_running_def)
  then have d1: "timed {} d1" "groups_ok d1" "ad_timer_connect d1 = None" "ad_setting d1 \<noteq> None" "ad_type d1 = ad_type d"
      "is_running d1" "dr_groups d1 = dr_groups d"
    by (auto simp: d1_def emit_def timed_def groups_ok_def is_driver_def is_running_def)
  show ?thesis
  proof (cases "is_driver d")
    case False
    then have "dr_groups d1 = []" using d1(2,5) by (simp add: groups_ok_def is_driver_def)
    then show ?thesis using d1 False d' by (auto simp: keeps_def node_ok_def running_groups_def is_driver_def is_running_def)
  next
    case True
    define d2 where "d2 = neu_adapter_driver_start_group_timer d1"
    have d2: "timed (g_addr ` set (dr_groups d1)) d2" "same_core d1 d2"
      unfolding d2_def using driver_start_timers_ok [OF d1(1)] by blast+
    note core = same_core_groups [OF d1(2) d2(2)] same_core_setting [OF d2(2)]
    obtain t d3 where t: "neu_event_add_timer Try_connect 0 5 0 d2 = (t, d3)" by fastforce
    have d'': "d' = d3\<lparr>ad_timer_connect := Some t\<rparr>" using d' True t by (simp add: is_driver_def d2_def [symmetric])
    have "timed (g_addr ` set (dr_groups d1)) d'"
      unfolding d'' using timed_connect [OF d2(1) _ t] core(3) d1(3) by simp
    moreover have "groups_ok d'"
      unfolding d'' by (rule groups_ok_frame [OF core(1)]) (use t in \<open>auto simp: neu_event_add_timer_def\<close>)
    moreover have "dr_groups d' = dr_groups d2" "ad_state d' = ad_state d2" "ad_type d' = ad_type d2" "ad_setting d' = ad_setting d2"
        "ad_timer_connect d' \<noteq> None"
      using t by (auto simp: d'' neu_event_add_timer_def)
    ultimately show ?thesis using core d1 True
      by (simp add: keeps_def node_ok_def running_groups_def is_running_def is_driver_def)
  qed
qed

lemma keeps_stop:
  assumes "neu_adapter_stop intf d = (e, d')" "node_ok d"
  shows "keeps d d'"
proof (cases "is_running d \<and> snd (pi_stop intf (ad_plugin d)) = 0")
  case False
  then have "same_node d d'" using assms
    by (cases "ad_state d") (auto simp: neu_adapter_stop_def Let_def is_running_def split: if_splits prod.splits)
  then show ?thesis using keeps_same [OF assms(2)] by blast
next
  case True
  obtain p where p: "pi_stop intf (ad_plugin d) = (p, 0)" using True by (metis prod.collapse)
  define d1 where "d1 = emit (Store_state (ad_name d) NEU_NODE_RUNNING_STATE_STOPPED) (d\<lparr>ad_plugin := p, ad_state := NEU_NODE_RUNNING_STATE_STOPPED\<rparr>)"
  define d2 where "d2 = (if ad_type d = NEU_NA_TYPE_DRIVER then neu_adapter_driver_stop_group_timer d1 else d1)"
  have d': "d' = (del_if (ad_timer_connect d2) d2)\<lparr>ad_timer_connect := None\<rparr>"
    using assms(1) True p by (auto simp: neu_adapter_stop_def d1_def d2_def Let_def emit_def is_running_def)
  have "timed (g_addr ` set (dr_groups d)) d" "groups_ok d" "ad_setting d \<noteq> None"
    using assms(2) True by (simp_all add: node_ok_def running_groups_def is_running_def)
  then have d1: "timed (g_addr ` set (dr_groups d1)) d1" "groups_ok d1" "ad_setting d1 \<noteq> None" "ad_type d1 = ad_type d"
      "ad_state d1 = NEU_NODE_RUNNING_STATE_STOPPED"
    by (auto simp: d1_def emit_def timed_def groups_ok_def is_driver_def is_running_def)
  have d2: "timed {} d2" "same_core d1 d2"
  proof -
    have "\<not> is_driver d \<Longrightarrow> dr_groups d1 = []" using d1(2,4) by (simp add: groups_ok_def is_driver_def)
    then show "timed {} d2" "same_core d1 d2"
      using driver_stop_timers_ok [OF d1(1) subset_refl] d1(1) by (auto simp: d2_def is_driver_def same_core_def)
  qed
  note core = same_core_groups [OF d1(2) d2(2)] same_core_setting [OF d2(2)]
  have f: "dr_groups d' = dr_groups d2" "ad_state d' = ad_state d2" "ad_type d' = ad_type d2" "ad_setting d' = ad_setting d2"
      "dr_tag_cnt d' = dr_tag_cnt d2" "ad_timer_connect d' = None"
    by (simp_all add: d' del_if_def neu_event_del_timer_def split: option.splits)
  have "timed {} d'" unfolding d' by (rule timed_disconnect [OF d2(1)])
  moreover have "groups_ok d'" by (rule groups_ok_frame [OF core(1)]) (simp_all add: f)
  ultimately show ?thesis using core(3) d1 f
    by (simp add: keeps_def node_ok_def running_groups_def is_running_def)
qed

lemma keeps_set_setting:
  assumes "neu_adapter_set_setting intf setting d = (e, d')" "node_ok d"
  shows "keeps d d'"
proof -
  obtain p rv where p: "pi_setting intf (ad_plugin d) setting = (p, rv)" by fastforce
  have ready: "node_ok (d\<lparr>ad_plugin := p, ad_setting := Some setting, ad_state := NEU_NODE_RUNNING_STATE_READY\<rparr>)"
    if "ad_state d = NEU_NODE_RUNNING_STATE_INIT"
    using assms(2) that by (auto simp: node_ok_def groups_ok_def timed_def running_groups_def is_running_def is_driver_def)
  have other: "node_ok (d\<lparr>ad_plugin := p, ad_setting := Some setting\<rparr>)" if "ad_state d \<noteq> NEU_NODE_RUNNING_STATE_INIT"
    using assms(2) that by (auto simp: node_ok_def groups_ok_def timed_def running_groups_def is_running_def is_driver_def)
  consider "rv \<noteq> 0" | "rv = 0" "ad_state d = NEU_NODE_RUNNING_STATE_INIT" | "rv = 0" "ad_state d \<noteq> NEU_NODE_RUNNING_STATE_INIT"
    by blast
  then show ?thesis
  proof cases
    case 1
    then have "d' = d\<lparr>ad_plugin := p\<rparr>" using assms(1) p by (simp add: neu_adapter_set_setting_def)
    then show ?thesis using assms(2) by (simp add: keeps_same)
  next
    case 2
    then have "d' = snd (neu_adapter_start intf (d\<lparr>ad_plugin := p, ad_setting := Some setting, ad_state := NEU_NODE_RUNNING_STATE_READY\<rparr>))"
      using assms(1) p by (simp add: neu_adapter_set_setting_def Let_def)
    then show ?thesis using keeps_start [OF prod.collapse [symmetric] ready [OF 2(2)], of intf] by (simp add: keeps_def)
  next
    case 3
    then have "d' = d\<lparr>ad_plugin := p, ad_setting := Some setting\<rparr>"
      using assms(1) p by (simp add: neu_adapter_set_setting_def Let_def)
    then show ?thesis using other [OF 3(2)] by (simp add: keeps_def)
  qed
qed

text \<open>A rename is safe while the node is running, and for applications.\<close>

lemma keeps_rename:
  assumes "neu_adapter_rename en new_name d = (e, d')" "node_ok d" "is_running d \<or> \<not> is_driver d"
  shows "keeps d d'"
proof (cases "is_driver d \<and> en_mem en 0 \<and> en_log en")
  case False
  have "node_ok (d\<lparr>ad_name := new_name\<rparr>)"
    using assms(2) by (auto simp: node_ok_def groups_ok_def timed_def running_groups_def is_running_def is_driver_def)
  then show ?thesis using assms False by (auto simp: neu_adapter_rename_def is_driver_def keeps_def split: if_splits)
next
  case True
  define d1 where "d1 = (neu_adapter_driver_stop_group_timer d)\<lparr>ad_name := new_name\<rparr>"
  have run: "timed (g_addr ` set (dr_groups d)) d" "groups_ok d"
    using assms(2,3) True by (auto simp: node_ok_def running_groups_def)
  note stop = driver_stop_timers_ok [OF run(1) subset_refl]
  have "ad_type (neu_adapter_driver_stop_group_timer d) = ad_type d" using stop(2) by (simp add: same_core_def)
  then have d': "d' = neu_adapter_driver_start_group_timer d1" using assms(1) True
    by (auto simp: neu_adapter_rename_def d1_def is_driver_def Let_def)
  have d1: "timed {} d1" "same_core d d1" using stop by (auto simp: d1_def timed_def same_core_def)
  have "groups_ok d1" using same_core_groups(1) [OF run(2) d1(2)] .
  note start = driver_start_timers_ok [OF d1(1)]
  have c: "same_core d d'" using d1(2) start(2) d' by (simp add: same_core_def)
  note core = same_core_groups [OF run(2) c] same_core_groups(2) [OF run(2) d1(2)] same_core_setting [OF c]
  show ?thesis using start(1) core assms(2,3) True d'
    by (simp add: keeps_def node_ok_def running_groups_def is_running_def is_driver_def)
qed

section \<open>Handlers\<close>

lemma keeps_refl: "node_ok d \<Longrightarrow> keeps d d"
  by (simp add: keeps_def)

text \<open>A step that keeps the invariant, followed by another.\<close>

lemma keeps_chain: "keeps d d1 \<Longrightarrow> (node_ok d1 \<Longrightarrow> is_driver d1 = is_driver d \<Longrightarrow> keeps d1 d') \<Longrightarrow> keeps d d'"
  using keeps_trans keeps_ok keeps_driver by blast

lemma keeps_same_step: "same_node d d1 \<Longrightarrow> node_ok d \<Longrightarrow> (node_ok d1 \<Longrightarrow> is_driver d1 = is_driver d \<Longrightarrow> keeps d1 d') \<Longrightarrow> keeps d d'"
  using keeps_chain [OF keeps_same] .

lemma keeps_handle_add_group:
  assumes "handle_add_group en req grp interval d = Some d'" "node_ok d"
  shows "keeps d d'"
  using assms by (auto simp: handle_add_group_def bind_eq_Some_conv Let_def keeps_refl split: if_splits dest: keeps_add_group)

lemma keeps_handle_update_group:
  assumes "handle_update_group en req driver grp new_name interval d = Some d'" "node_ok d"
  shows "keeps d d'"
  using assms by (auto simp: handle_update_group_def bind_eq_Some_conv Let_def keeps_refl split: if_splits dest: keeps_update_group)

lemma keeps_handle_del_group:
  assumes "handle_del_group intf req driver grp d = Some d'" "node_ok d"
    "\<And>g. find_group d grp = Some g \<Longrightarrow> length (gr_tags (g_group g)) < 65536"
  shows "keeps d d'"
  using assms by (auto simp: handle_del_group_def bind_eq_Some_conv Let_def split: if_splits dest: keeps_del_group)

lemma keeps_del_named: "del_named en intf driver grp ts d = Some (rc, d') \<Longrightarrow> node_ok d \<Longrightarrow> keeps d d'"
proof (induction ts arbitrary: d)
  case (Cons t ts)
  obtain rc1 d1 where d1: "neu_adapter_driver_del_tag en intf grp t d = Some (rc1, d1)"
    using Cons.prems(1) by (auto simp: bind_eq_Some_conv)
  note k = keeps_del_tag [OF d1 Cons.prems(2)]
  show ?case
  proof (cases "rc1 = 0")
    case True
    let ?d = "emit (Store_del_tag driver grp t) d1"
    have "del_named en intf driver grp ts ?d = Some (rc, d')" using Cons.prems(1) d1 True by simp
    then show ?thesis using keeps_chain [of d ?d d'] k Cons.IH by simp
  qed (use Cons.prems d1 k in simp)
qed (simp add: keeps_refl)

lemma keeps_handle_del_tag: "handle_del_tag en intf req driver grp ts d = Some d' \<Longrightarrow> node_ok d \<Longrightarrow> keeps d d'"
  by (auto simp: handle_del_tag_def bind_eq_Some_conv dest: keeps_del_named)

lemma keeps_add_all_tags: "add_all_tags en intf grp before ts d = Some (ts', d') \<Longrightarrow> node_ok d \<Longrightarrow> is_driver d \<Longrightarrow> keeps d d'"
proof (induction ts arbitrary: before d)
  case (Cons t ts)
  then obtain rc t1 d1 where d1: "neu_adapter_driver_add_tag en intf grp t NEU_DEFAULT_GROUP_INTERVAL d = Some (rc, t1, d1)"
    and r: "add_all_tags en intf grp (before @ [t1]) ts d1 = Some (ts', d')" by (auto simp: bind_eq_Some_conv)
  show ?case using keeps_chain [OF keeps_add_tag [OF d1 Cons.prems(2,3)]] Cons.IH [OF r] Cons.prems(3) by blast
qed (simp add: keeps_refl)

lemma same_storage_add_tags [simp]: "same_node d (adapter_storage_add_tags node grp ts d') = same_node d d'"
  "keeps d (adapter_storage_add_tags node grp ts d') = keeps d d'"
  by (simp_all add: adapter_storage_add_tags_def)

lemma keeps_handle_add_tag:
  assumes "handle_add_tag en intf req driver grp tags d = Some d'" "node_ok d"
  shows "keeps d d'"
proof (cases "is_driver d")
  case False
  then show ?thesis using assms
    by (auto simp: handle_add_tag_def bind_eq_Some_conv keeps_refl neu_resp_add_tag_result_def refused_def Let_def)
next
  case True
  obtain resp ts d1 where d1: "check_new_tags intf grp [] tags zero_add_tag d = Some (resp, ts, d1)"
    using assms(1) True by (auto simp: handle_add_tag_def bind_eq_Some_conv)
  obtain ret d2 where d2: "neu_adapter_driver_try_add_tag intf grp ts d1 = (ret, d2)" by fastforce
  have s1: "same_node d d1" by (rule same_check_new_tags [OF d1])
  then have s2: "same_node d d2" using same_plugin_calls(2) [of d intf grp ts d1] d2 by simp
  have ok2: "node_ok d2" "is_driver d2" using keeps_same [OF assms(2) s2] True keeps_ok keeps_driver by blast+
  have "keeps d d3" if "add_all_tags en intf grp [] ts d2 = Some (ts3, d3)" for ts3 d3
    using keeps_trans [OF keeps_same [OF assms(2) s2] keeps_add_all_tags [OF that ok2]] .
  then show ?thesis
    using assms(1) True d1 d2 keeps_same [OF assms(2) s1] keeps_same [OF assms(2) s2]
    by (auto simp: handle_add_tag_def bind_eq_Some_conv Let_def split: if_splits)
qed

lemma keeps_add_tags: "add_tags en intf grp i before ts d = Some (rc, ts', n, d') \<Longrightarrow> node_ok d \<Longrightarrow> is_driver d \<Longrightarrow> keeps d d'"
proof (induction ts arbitrary: before d)
  case (Cons t ts)
  then obtain rc1 t1 d1 where d1: "neu_adapter_driver_add_tag en intf grp t i d = Some (rc1, t1, d1)"
    and r: "rc1 \<noteq> 0 \<and> d' = d1 \<or> add_tags en intf grp i (before @ [t1]) ts d1 = Some (rc, ts', n, d')"
    by (auto simp: bind_eq_Some_conv split: if_splits)
  note k = keeps_add_tag [OF d1 Cons.prems(2,3)]
  show ?case using keeps_chain [OF k] k Cons.IH r Cons.prems(3) by blast
qed (simp add: keeps_refl)

lemma keeps_del_tags: "del_tags en intf grp ts d = Some d' \<Longrightarrow> node_ok d \<Longrightarrow> keeps d d'"
proof (induction ts arbitrary: d)
  case (Cons t ts)
  then obtain rc1 d1 where d1: "neu_adapter_driver_del_tag en intf grp (dt_name t) d = Some (rc1, d1)"
    and r: "del_tags en intf grp ts d1 = Some d'" by (auto simp: bind_eq_Some_conv)
  show ?case using keeps_chain [OF keeps_del_tag [OF d1 Cons.prems(2)]] Cons.IH [OF r] by blast
qed (simp add: keeps_refl)

lemma keeps_del_groups_tags: "del_groups_tags en intf gs d = Some d' \<Longrightarrow> node_ok d \<Longrightarrow> keeps d d'"
proof (induction gs arbitrary: d)
  case (Cons g gs)
  then obtain d1 where d1: "del_tags en intf (gd_group g) (gd_tags g) d = Some d1"
    and r: "del_groups_tags en intf gs d1 = Some d'" by (auto simp: bind_eq_Some_conv)
  show ?case using keeps_chain [OF keeps_del_tags [OF d1 Cons.prems(2)]] Cons.IH [OF r] by blast
qed (simp add: keeps_refl)

lemma keeps_add_groups: "add_groups en intf before gs d = Some (rc, gs', d') \<Longrightarrow> node_ok d \<Longrightarrow> is_driver d \<Longrightarrow> keeps d d'"
proof (induction gs arbitrary: before d)
  case (Cons g gs)
  obtain rc1 d1 where d1: "neu_adapter_driver_add_group en (gd_group g) (gd_interval g) d = Some (rc1, d1)"
    using Cons.prems(1) by (auto simp: bind_eq_Some_conv)
  define d2 where "d2 = emit (Store_add_group (ad_name d1) (gd_group g) (gd_interval g)) d1"
  have k2: "keeps d d2" using keeps_add_group [OF d1 Cons.prems(2,3)] by (simp add: d2_def)
  obtain rc3 ts i d3 where d3: "add_tags en intf (gd_group g) (ucast (gd_interval g)) [] (gd_tags g) d2 = Some (rc3, ts, i, d3)"
    using Cons.prems(1) d1 by (auto simp: bind_eq_Some_conv Let_def d2_def)
  have "is_driver d2" "node_ok d2" using k2 Cons.prems(3) keeps_driver keeps_ok by blast+
  then have k3: "keeps d d3" using keeps_trans [OF k2 keeps_add_tags [OF d3]] by blast
  show ?case
  proof (cases "rc3 = 0")
    case True
    then have "add_groups en intf (before @ [g\<lparr>gd_tags := ts\<rparr>]) gs d3 = Some (rc, gs', d')"
      using Cons.prems(1) d1 d3 by (simp add: d2_def Let_def)
    then show ?thesis using keeps_chain [OF k3] Cons.IH Cons.prems(3) by blast
  next
    case False
    then obtain d4 d5 where d4: "del_groups_tags en intf before d3 = Some d4" "del_tags en intf (gd_group g) (take i ts) d4 = Some d5"
      and d': "d' = give_back intf gs (snd (neu_adapter_driver_try_del_tag intf (int (length ts) - int i) d5))"
      using Cons.prems(1) d1 d3 by (auto simp: bind_eq_Some_conv Let_def d2_def)
    have "keeps d d5"
      using keeps_chain [OF k3] keeps_chain [OF keeps_del_groups_tags [OF d4(1)]] keeps_del_tags [OF d4(2)] by blast
    then show ?thesis unfolding d' by (rule keeps_same_after) simp
  qed
qed (simp add: keeps_refl)

lemma keeps_fold_storage: "keeps d d1 \<Longrightarrow> keeps d (fold (\<lambda>g. adapter_storage_add_tags node (gd_group g) (gd_tags g)) gs d1)"
  by (induction gs arbitrary: d1) simp_all

lemma keeps_handle_add_gtag:
  assumes "handle_add_gtag en intf req driver gs d = Some d'" "node_ok d"
  shows "keeps d d'"
proof (cases "is_driver d")
  case False
  then show ?thesis using assms by (auto simp: handle_add_gtag_def keeps_refl)
next
  case True
  obtain rc1 gs1 d1 where d1: "neu_adapter_validate_gtags intf gs d = Some (rc1, gs1, d1)"
    using assms(1) True by (auto simp: handle_add_gtag_def bind_eq_Some_conv)
  obtain rc2 d2 where d2: "neu_adapter_try_add_gtags intf gs1 d1 = (rc2, d2)" by fastforce
  have s1: "same_node d d1" by (rule same_validate_gtags [OF d1])
  have s2: "same_node d d2" using same_try_add_groups [OF s1] d2 by (simp add: neu_adapter_try_add_gtags_def)
  note k = keeps_same [OF assms(2) s1] keeps_same [OF assms(2) s2]
  have "keeps d d3" if "neu_adapter_add_gtags en intf gs1 d2 = Some (rc3, gs3, d3)" for rc3 gs3 d3
    using keeps_trans [OF k(2) keeps_add_groups [OF that [unfolded neu_adapter_add_gtags_def] keeps_ok [OF k(2)]]]
      keeps_driver [OF k(2)] True by blast
  then show ?thesis
    using assms(1) True d1 d2 k
    by (auto simp: handle_add_gtag_def bind_eq_Some_conv Let_def keeps_fold_storage split: if_splits)
qed

lemma keeps_update_tags: "update_tags en intf driver grp i ts d = Some (resp, n, d') \<Longrightarrow> node_ok d \<Longrightarrow> keeps d d'"
proof (induction ts arbitrary: i d)
  case (Cons t ts)
  obtain rc1 t1 d1 where d1: "neu_adapter_driver_validate_tag intf t d = Some (rc1, t1, d1)"
    using Cons.prems(1) by (auto simp: bind_eq_Some_conv)
  have k1: "keeps d d1" by (rule keeps_same [OF Cons.prems(2) same_validate_tag [OF d1]])
  show ?case
  proof (cases "rc1 = 0")
    case False
    then show ?thesis using Cons.prems(1) d1 k1 by simp
  next
    case True
    then obtain rc2 t2 d2 where d2: "neu_adapter_driver_update_tag en intf grp t1 d1 = Some (rc2, t2, d2)"
      and r: "rc2 \<noteq> 0 \<and> d' = d2 \<or> update_tags en intf driver grp (Suc i) ts (emit (Store_update_tag driver grp t2) d2) = Some (resp, n, d')"
      using Cons.prems(1) d1 by (auto simp: bind_eq_Some_conv split: if_splits)
    have k2: "keeps d d2" using keeps_trans [OF k1 keeps_update_tag [OF d2 keeps_ok [OF k1]]] .
    then have "keeps d (emit (Store_update_tag driver grp t2) d2)" by simp
    then show ?thesis using r k2 keeps_chain Cons.IH by blast
  qed
qed (simp add: keeps_refl)

lemma keeps_handle_update_tag: "handle_update_tag en intf req driver grp ts d = Some d' \<Longrightarrow> node_ok d \<Longrightarrow> keeps d d'"
  by (auto simp: handle_update_tag_def bind_eq_Some_conv keeps_refl split: if_splits dest: keeps_update_tags)

lemma keeps_handle_rename_tag:
  assumes "handle_rename_tag en req driver grp old new d = Some d'" "node_ok d"
  shows "keeps d d'"
proof (cases "is_driver d")
  case False
  then show ?thesis using assms by (auto simp: handle_rename_tag_def keeps_refl)
next
  case True
  obtain rc1 d1 where d1: "neu_adapter_driver_rename_tag en grp old new d = Some (rc1, d1)"
    using assms(1) True by (auto simp: handle_rename_tag_def bind_eq_Some_conv)
  note k = keeps_rename_tag [OF d1 assms(2)]
  have "keeps d d2" if "neu_adapter_driver_rename_tag en grp new old d1 = Some (rc2, d2)" for rc2 d2
    using keeps_trans [OF k keeps_rename_tag [OF that keeps_ok [OF k]]] .
  then show ?thesis using assms(1) True d1 k
    by (auto simp: handle_rename_tag_def bind_eq_Some_conv split: if_splits)
qed

lemma keeps_handle_setting: "node_ok d \<Longrightarrow> keeps d (handle_setting intf req setting d)"
  by (auto simp: handle_setting_def Let_def split: prod.splits dest: keeps_set_setting)

lemma keeps_handle_ctl: "node_ok d \<Longrightarrow> keeps d (handle_ctl intf req c d)"
  by (auto simp: handle_ctl_def split: prod.splits ctl.splits dest: keeps_start keeps_stop)

lemma keeps_handle_rename: "node_ok d \<Longrightarrow> is_running d \<or> \<not> is_driver d \<Longrightarrow> keeps d (handle_rename en req node new_name d)"
  by (auto simp: handle_rename_def split: prod.splits dest: keeps_rename)

lemma keeps_handle_get: "node_ok d \<Longrightarrow> keeps d (handle_get_setting req d)" "node_ok d \<Longrightarrow> keeps d (handle_get_tag req grp name d)"
  by (auto simp: handle_get_setting_def handle_get_tag_def keeps_refl split: sum.splits prod.splits)

lemma keeps_pass_on: "pass_on request req m d = Some d' \<Longrightarrow> node_ok d \<Longrightarrow> keeps d d'"
  by (auto simp: pass_on_def keeps_refl)

lemma keeps_not_allowed: "not_allowed req d = Some d' \<Longrightarrow> node_ok d \<Longrightarrow> keeps d d'"
  by (auto simp: not_allowed_def keeps_refl)

section \<open>Reachable nodes\<close>

text \<open>
  The requests of the invariant: a driver is renamed only while it runs, a group is deleted only
  while it has fewer than 65536 tags, and the shutdown is left to its own theorem.
\<close>

definition tame :: "('p, 'u) neu_adapter \<Rightarrow> adapter_req \<Rightarrow> bool" where
  "tame d m \<longleftrightarrow>
     (case m of
        NEU_REQ_NODE_RENAME node new_name \<Rightarrow> is_running d \<or> \<not> is_driver d
      | NEU_REQ_DEL_GROUP driver grp \<Rightarrow>
          (case find_group d grp of None \<Rightarrow> True | Some g \<Rightarrow> length (gr_tags (g_group g)) < 65536)
      | NEU_REQ_NODE_UNINIT \<Rightarrow> False
      | _ \<Rightarrow> True)"

text \<open>The steps of the requests: those that leave the invariant alone, and those that keep it.\<close>

lemmas same_requests = same_subscribe same_write_tag same_write_tags same_write_gtags same_scan_tags

lemmas keeps_requests = keeps_pass_on keeps_not_allowed keeps_read_group keeps_read_group_paginate keeps_test_read_tag
  keeps_handle_add_group keeps_handle_update_group keeps_handle_del_group keeps_handle_del_tag keeps_handle_add_tag
  keeps_handle_add_gtag keeps_handle_update_tag keeps_handle_rename_tag

lemma keeps_adapter_loop:
  assumes "adapter_loop en intf request req m d = Some d'" "node_ok d" "tame d m"
  shows "keeps d d'"
  using assms
  by (cases m) (auto simp: adapter_loop_def tame_def keeps_handle_setting keeps_handle_get keeps_handle_ctl keeps_handle_rename
      keeps_refl same_unsubscribe same_cmd intro: keeps_same split: if_splits dest: keeps_requests same_requests)

definition timer_fires :: "env \<Rightarrow> ('p, 'u) neu_plugin_intf_funs \<Rightarrow> neu_event_timer \<Rightarrow> ('p, 'u) neu_adapter \<Rightarrow> ('p, 'u) neu_adapter option" where
  "timer_fires en intf t d =
     (case tm_cb t of
        Read_callback \<Rightarrow> read_callback en intf (tm_group t) d
      | Report_callback \<Rightarrow> report_callback en (tm_group t) d
      | Write_callback \<Rightarrow> write_callback en intf (tm_group t) d
      | Try_connect \<Rightarrow> Some (snd (neu_adapter_driver_try_connect intf d)))"

lemma keeps_timer_fires: "timer_fires en intf t d = Some d' \<Longrightarrow> node_ok d \<Longrightarrow> keeps d d'"
  using same_try_connect [of d intf]
  by (auto simp: timer_fires_def split: timer_cb.splits intro!: keeps_same dest: same_read_callback same_report_callback same_write_callback)

lemma keeps_load_tags: "load_tags en intf grp ts d = Some d' \<Longrightarrow> node_ok d \<Longrightarrow> is_driver d \<Longrightarrow> keeps d d'"
proof (induction ts arbitrary: d)
  case (Cons t ts)
  then obtain rc t1 d1 where d1: "neu_adapter_driver_add_tag en intf grp t (- 1) d = Some (rc, t1, d1)"
    and r: "load_tags en intf grp ts (snd (neu_adapter_driver_load_tag intf grp [t1] d1)) = Some d'"
    by (auto simp: bind_eq_Some_conv)
  have "keeps d (snd (neu_adapter_driver_load_tag intf grp [t1] d1))"
    by (rule keeps_same_after [OF keeps_add_tag [OF d1 Cons.prems(2,3)]]) simp
  then show ?case using keeps_chain Cons.IH [OF r] Cons.prems(3) by blast
qed (simp add: keeps_refl)

lemma keeps_load_groups: "load_groups en intf gs d = Some d' \<Longrightarrow> node_ok d \<Longrightarrow> is_driver d \<Longrightarrow> keeps d d'"
proof (induction en intf gs d rule: load_groups.induct)
  case (2 en intf name interval tags gs d)
  obtain rc d1 where d1: "neu_adapter_driver_add_group en name interval d = Some (rc, d1)"
    using 2(2) by (auto simp: bind_eq_Some_conv)
  obtain d2 where d2: "(case tags of None \<Rightarrow> Some d1 | Some tags \<Rightarrow> load_tags en intf name tags d1) = Some d2"
    and r: "load_groups en intf gs d2 = Some d'" using 2(2) d1 by (auto simp: bind_eq_Some_conv)
  have k1: "keeps d d1" by (rule keeps_add_group [OF d1 2(3,4)])
  then have "node_ok d1" "is_driver d1" using 2(4) keeps_ok keeps_driver by blast+
  then have "keeps d1 d2" using d2 keeps_load_tags by (auto simp: keeps_refl split: option.splits)
  then have k2: "keeps d d2" using k1 keeps_trans by blast
  show ?case using keeps_chain [OF k2] 2 d1 d2 r by blast
qed (simp add: keeps_refl)

lemma node_ok_create:
  assumes "neu_adapter_create en intf h name typ plugin load setting groups = Some (Inr d)"
  shows "node_ok d"
proof -
  define d0 where "d0 = adapter_load_setting intf setting (neu_adapter_driver_create h name typ (fst (pi_init intf plugin load)) :: ('a, 'b) neu_adapter)"
  have d0: "node_ok d0" "ad_type d0 = typ"
    by (auto simp: d0_def adapter_load_setting_def neu_adapter_driver_create_def node_ok_def groups_ok_def timed_def timer_def
        running_groups_def is_running_def tag_count_def Let_def split: option.splits prod.splits)
  obtain d1 where d1: "(if typ = NEU_NA_TYPE_DRIVER then adapter_load_group_and_tag en intf groups d0 else Some d0) = Some d1"
    and d: "d = emit (Store_state (ad_name d1) (ad_state d1)) d1"
    using assms by (auto simp: neu_adapter_create_def d0_def bind_eq_Some_conv Let_def split: prod.splits if_splits)
  have "keeps d0 d1" using d1 d0 keeps_load_groups [of en intf _ d0 d1]
    by (auto simp: adapter_load_group_and_tag_def keeps_refl is_driver_def split: if_splits option.splits)
  then have "keeps d0 d" by (simp add: d)
  then show ?thesis by (rule keeps_ok)
qed

inductive node_reach :: "('p, 'u) neu_plugin_intf_funs \<Rightarrow> ('p \<Rightarrow> neu_reqresp_head \<Rightarrow> adapter_req \<Rightarrow> 'p) \<Rightarrow> ('p, 'u) neu_adapter \<Rightarrow> bool"
  for intf request where
  created: "neu_adapter_create en intf h name typ plugin load setting groups = Some (Inr d) \<Longrightarrow> node_reach intf request d"
| message: "node_reach intf request d \<Longrightarrow> tame d m \<Longrightarrow> adapter_loop en intf request req m d = Some d' \<Longrightarrow> node_reach intf request d'"
| timer: "node_reach intf request d \<Longrightarrow> t \<in> set (ad_timers d) \<Longrightarrow> timer_fires en intf t d = Some d' \<Longrightarrow> node_reach intf request d'"

lemma node_reach_ok: "node_reach intf request d \<Longrightarrow> node_ok d"
proof (induction rule: node_reach.induct)
  case created
  then show ?case by (rule node_ok_create)
next
  case message
  then show ?case using keeps_adapter_loop keeps_ok by blast
next
  case timer
  then show ?case using keeps_timer_fires keeps_ok by blast
qed

lemma uninit_groups_ok:
  assumes "timed S d" "dr_groups d = gs"
  shows "\<exists>d' S'. uninit_groups intf gs d = Some d' \<and> timed S' d' \<and> dr_groups d' = [] \<and> ad_timer_connect d' = ad_timer_connect d \<and>
    ad_type d' = ad_type d \<and> dr_cache d' = dr_cache d"
  using assms
proof (induction gs arbitrary: S d)
  case (Cons g gs)
  define d1 where "d1 = snd (stop_group_timer g (snd (neu_adapter_driver_try_del_tag intf (uint (neu_group_tag_size (g_group g)))
      (d\<lparr>dr_groups := gs\<rparr>))))"
  have f: "dr_groups d1 = gs" "ad_timer_connect d1 = ad_timer_connect d" "ad_type d1 = ad_type d" "dr_cache d1 = dr_cache d"
      "ad_timers d1 = ad_timers (snd (stop_group_timer g d))" "ad_next d1 = ad_next d"
    by (auto simp: d1_def stop_group_timer_eq neu_adapter_driver_try_del_tag_def Let_def split: option.splits prod.splits)
  have "timed (S - {g_addr g}) ((snd (stop_group_timer g d))\<lparr>dr_groups := remove1 g (dr_groups d)\<rparr>)"
    using timed_del [OF Cons.prems(1), of g] Cons.prems(2) by simp
  then have "timed (S - {g_addr g}) d1"
    by (rule timed_frame) (use Cons.prems(2) f in \<open>simp_all add: stop_group_timer_eq\<close>)
  from Cons.IH [OF this f(1)] show ?case
    using Cons.prems(2) f by (simp add: ulist_del_def d1_def [symmetric])
qed auto

section \<open>What the invariant gives\<close>

text \<open>A timer without its number.\<close>

definition timer_shape :: "neu_event_timer \<Rightarrow> timer_cb \<times> nat \<times> u32 \<times> u32" where
  "timer_shape t = (tm_cb t, tm_group t, tm_second t, tm_millisecond t)"

text \<open>The timers a group of a running driver has: its interval for reading and reporting, 3 ms for writing.\<close>

definition group_timers :: "'u group_t \<Rightarrow> (timer_cb \<times> nat \<times> u32 \<times> u32) multiset" where
  "group_timers g =
     (let i = gr_interval (g_group g) in
      {#(Read_callback, g_addr g, i div 1000, i mod 1000), (Report_callback, g_addr g, i div 1000, i mod 1000),
        (Write_callback, g_addr g, 0, 3)#})"

definition node_timers :: "('p, 'u) neu_adapter \<Rightarrow> (timer_cb \<times> nat \<times> u32 \<times> u32) multiset" where
  "node_timers d =
     (if is_running d \<and> is_driver d then sum_list (map group_timers (dr_groups d)) + {#(Try_connect, 0, 5, 0)#} else {#})"

lemma timers_on_shape: "timers_on g \<Longrightarrow> image_mset timer_shape (timers_of g) = group_timers g"
  by (auto simp: timers_on_def timers_of_def timer_def group_timers_def timer_shape_def Let_def)

lemma sum_list_off: "(\<And>g. g \<in> set gs \<Longrightarrow> timers_off g) \<Longrightarrow> sum_list (map timers_of gs) = {#}"
  by (induction gs) auto

lemma image_sum_on: "(\<And>g. g \<in> set gs \<Longrightarrow> timers_on g) \<Longrightarrow>
    image_mset timer_shape (sum_list (map timers_of gs)) = sum_list (map group_timers gs)"
  by (induction gs) (auto simp: timers_on_shape)

lemma node_ok_timers:
  assumes "node_ok d"
  shows "image_mset timer_shape (mset (ad_timers d)) = node_timers d"
proof -
  have t: "timed (running_groups d) d" and c: "ad_timer_connect d \<noteq> None \<longleftrightarrow> is_running d \<and> is_driver d" and
    n: "\<not> is_driver d \<Longrightarrow> dr_groups d = []"
    using assms by (auto simp: node_ok_def groups_ok_def)
  have ms: "mset (ad_timers d) = sum_list (map timers_of (dr_groups d)) + timer (ad_timer_connect d) Try_connect 0 5 0"
    using t by (simp add: timed_def)
  show ?thesis
  proof (cases "is_running d \<and> is_driver d")
    case True
    have "timers_on g" if "g \<in> set (dr_groups d)" for g
      using t that True by (auto simp: timed_def running_groups_def)
    then show ?thesis using True c by (auto simp: ms node_timers_def image_sum_on timer_def timer_shape_def)
  next
    case False
    have "timers_off g" if "g \<in> set (dr_groups d)" for g
      using t that False n by (cases "is_running d") (auto simp: timed_def running_groups_def)
    then have "sum_list (map timers_of (dr_groups d)) = {#}" by (rule sum_list_off)
    then show ?thesis using False c by (auto simp: ms node_timers_def timer_def)
  qed
qed

lemma node_timers_group:
  assumes "x \<in># node_timers d" "fst x \<noteq> Try_connect"
  shows "fst (snd x) \<in> g_addr ` set (dr_groups d)"
proof -
  have "fst (snd x) \<in> g_addr ` set gs" if "x \<in># sum_list (map group_timers gs)" for gs :: "'b group_t list"
    using that by (induction gs) (auto simp: group_timers_def Let_def)
  then show ?thesis using assms by (auto simp: node_timers_def split: if_splits)
qed

lemma group_at_None: "group_at d a = None \<longleftrightarrow> a \<notin> g_addr ` set (dr_groups d)"
  by (simp add: group_at_def ulist_find_none)

lemma node_ok_live:
  assumes "node_ok d" "t \<in> set (ad_timers d)" "tm_cb t \<noteq> Try_connect"
  shows "group_at d (tm_group t) \<noteq> None"
proof -
  have "timer_shape t \<in># image_mset timer_shape (mset (ad_timers d))" using assms(2) by simp
  then have "timer_shape t \<in># node_timers d" by (simp only: node_ok_timers [OF assms(1)])
  from node_timers_group [OF this] show ?thesis using assms(3) by (simp add: timer_shape_def group_at_None)
qed

section \<open>A node to run\<close>

text \<open>A plugin without a device: it accepts what it is given and answers each write.\<close>

definition quiet_plugin :: "(nat, unit) neu_plugin_intf_funs" where
  "quiet_plugin =
     \<lparr>pi_connected = (\<lambda>p. False), pi_start = (\<lambda>p. (p, 0)), pi_stop = (\<lambda>p. (p, 0)), pi_setting = (\<lambda>p s. (p, 0)),
      pi_init = (\<lambda>p l. (p, 0)), pi_uninit = (\<lambda>p. (p, 0)), pi_try_connect = None, pi_validate_tag = (\<lambda>p t. (p, t, 0)),
      pi_add_tags = None, pi_load_tags = None, pi_del_tags = None, pi_group_timer = (\<lambda>p g. (p, g, [])), pi_group_sync = None,
      pi_write_tag = (\<lambda>p req t v. (Suc p, [Cb_write_response req 0])),
      pi_write_tags = Some (\<lambda>p req tvs. (p + length tvs, [Cb_write_response req 0])),
      pi_test_read_tag = None, pi_scan_tags = None, pi_action = None\<rparr>"

definition quiet_request :: "nat \<Rightarrow> neu_reqresp_head \<Rightarrow> adapter_req \<Rightarrow> nat" where
  "quiet_request p req m = p"

definition sample_env :: env where
  "sample_env =
     \<lparr>en_fp = no_fp, en_ops = sample_ops, en_mem = (\<lambda>i. True), en_tv = (0, 1), en_now = 5, en_news = (\<lambda>i j. 64),
      en_cache_type = NEU_TAG_CACHE_TYPE_INTERVAL, en_sub_filter_err = False, en_stored = True, en_log = True\<rparr>"

definition stored_tag :: neu_datatag where
  "stored_tag = zero_tag\<lparr>dt_name := ''t'', dt_type := NEU_TYPE_INT16, dt_attribute := NEU_ATTRIBUTE_READ OR NEU_ATTRIBUTE_WRITE\<rparr>"

text \<open>A driver that was stored with a group of one tag, as it is created and once it runs.\<close>

definition quiet_created :: "(neu_err, (nat, unit) neu_adapter) sum option" where
  "quiet_created = neu_adapter_create sample_env quiet_plugin Map.empty ''plc'' NEU_NA_TYPE_DRIVER 0 True (Some ''{}'')
     (Some [(''g'', 1500, Some [stored_tag])])"

definition quiet_ready :: "(nat, unit) neu_adapter" where
  "quiet_ready = (case quiet_created of Some (Inr d) \<Rightarrow> d | _ \<Rightarrow> neu_adapter_driver_create Map.empty '''' NEU_NA_TYPE_APP 0)"

definition quiet_running :: "(nat, unit) neu_adapter" where
  "quiet_running = handle_ctl quiet_plugin \<lparr>rh_ctx = 0, rh_sender = ''api'', rh_receiver = ''plc''\<rparr> NEU_ADAPTER_CTL_START quiet_ready"

lemma quiet_created_eq: "quiet_created = Some (Inr quiet_ready)"
proof -
  have "case quiet_created of Some (Inr d) \<Rightarrow> True | _ \<Rightarrow> False" by code_simp
  then obtain d where e: "quiet_created = Some (Inr d)" by (auto split: option.split_asm sum.split_asm)
  show ?thesis unfolding quiet_ready_def e by simp
qed

lemma quiet_reach:
  "node_reach quiet_plugin quiet_request quiet_ready" "node_reach quiet_plugin quiet_request quiet_running"
proof -
  show r: "node_reach quiet_plugin quiet_request quiet_ready"
    using quiet_created_eq unfolding quiet_created_def by (rule created)
  show "node_reach quiet_plugin quiet_request quiet_running"
    by (rule message [OF r, where m = "NEU_REQ_NODE_CTL NEU_ADAPTER_CTL_START" and en = sample_env and
          req = "\<lparr>rh_ctx = 0, rh_sender = ''api'', rh_receiver = ''plc''\<rparr>"])
      (simp_all add: tame_def adapter_loop_def quiet_running_def)
qed

section \<open>Properties of reachable nodes\<close>





section \<open>Renaming a node that is stopped\<close>

lemma find_group_member:
  assumes "groups_ok d" "g \<in> set (dr_groups d)" "g_name g = n"
  shows "find_group d n = Some g"
proof (cases "find_group d n")
  case None
  then show ?thesis using assms by (auto simp: find_group_def ulist_find_none)
next
  case (Some g')
  have "inj_on g_name (set (dr_groups d))" using assms(1) by (simp add: groups_ok_def distinct_map)
  then have "g' = g" using find_group_in [OF Some] assms(2,3) by (auto dest: inj_onD)
  then show ?thesis using Some by simp
qed

lemma rename_starts:
  assumes "node_ok d" "is_driver d" "en_mem en 0" "en_log en" "neu_adapter_rename en new_name d = (e, d')"
  shows "timed (g_addr ` set (dr_groups d')) d'" "same_core d d'"
proof -
  define d1 where "d1 = (neu_adapter_driver_stop_group_timer d)\<lparr>ad_name := new_name\<rparr>"
  have "timed (running_groups d) d" "running_groups d \<subseteq> g_addr ` set (dr_groups d)" "groups_ok d"
    using assms(1) by (auto simp: node_ok_def running_groups_def)
  note stop = driver_stop_timers_ok [OF this(1,2)] and ok = this(3)
  have "ad_type (neu_adapter_driver_stop_group_timer d) = ad_type d" using stop(2) by (simp add: same_core_def)
  then have d': "d' = neu_adapter_driver_start_group_timer d1" using assms
    by (auto simp: neu_adapter_rename_def d1_def is_driver_def Let_def)
  have d1: "timed {} d1" "same_core d d1" using stop by (auto simp: d1_def timed_def same_core_def)
  note start = driver_start_timers_ok [OF d1(1)]
  show c: "same_core d d'" using d1(2) start(2) d' by (simp add: same_core_def)
  show "timed (g_addr ` set (dr_groups d')) d'"
    using start(1) d' same_core_groups(2) [OF ok c] same_core_groups(2) [OF ok d1(2)] by simp
qed

lemma timer_without_group: "group_at d (tm_group t) = None \<Longrightarrow> tm_cb t \<noteq> Try_connect \<Longrightarrow> timer_fires en intf t d = None"
  by (cases "tm_cb t") (simp_all add: timer_fires_def read_callback_def report_callback_def write_callback_def)

lemma timers_of_subset: "g \<in> set gs \<Longrightarrow> timers_of g \<subseteq># sum_list (map timers_of gs)"
  by (induction gs) (auto intro: subset_mset.add_increasing)

lemma group_timer_in:
  assumes "timed S d" "g \<in> set (dr_groups d)" "g_addr g \<in> S"
  shows "\<exists>t \<in> set (ad_timers d). tm_group t = g_addr g \<and> tm_cb t = Read_callback"
proof -
  have "timers_on g" using assms by (simp add: timed_def)
  then obtain i where i: "g_read g = Some i" by (auto simp: timers_on_def)
  define t where "t = \<lparr>tm_id = i, tm_cb = Read_callback, tm_group = g_addr g, tm_second = gr_interval (g_group g) div 1000,
      tm_millisecond = gr_interval (g_group g) mod 1000\<rparr>"
  have "t \<in># timers_of g" by (simp add: timers_of_def Let_def i timer_def t_def)
  moreover have "timers_of g \<subseteq># sum_list (map timers_of (dr_groups d))"
    by (rule timers_of_subset [OF assms(2)])
  ultimately have "t \<in># mset (ad_timers d)" using assms(1) by (auto simp: timed_def dest: mset_subset_eqD)
  then show ?thesis by (intro bexI [of _ t]) (auto simp: t_def)
qed

lemma remove1_addr: "distinct (map g_addr gs) \<Longrightarrow> g \<in> set gs \<Longrightarrow> g_name g = n \<Longrightarrow> g_addr g = a \<Longrightarrow> a \<notin> g_addr ` set (remove1 g gs)"
  by (induction gs) (auto simp: rev_image_eqI)

lemma del_group_stopped:
  assumes "neu_adapter_driver_del_group intf name d = Some (rc, d')" "find_group d name = Some g" "\<not> is_running d"
  shows "ad_timers d' = ad_timers d" "dr_groups d' = remove1 g (dr_groups d)"
  using assms find_group_in [OF assms(2)]
  by (auto simp: neu_adapter_driver_del_group_def ulist_del_def bind_eq_Some_conv Let_def is_running_def
      neu_adapter_driver_try_del_tag_def case_prod_beta split: option.splits)

text \<open>
  C32: Renaming a driver that is not running starts the timers of its groups all the same, and
  deleting a group of a driver that is not running does not stop them. After the two, a timer is
  live whose callback takes the address of the group that was freed.
\<close>

theorem rename_stopped_dangling:
  assumes "node_reach intf request d" "is_driver d" "\<not> is_running d" "g \<in> set (dr_groups d)" "en_mem en 0" "en_log en"
    "neu_adapter_rename en new_name d = (e, d1)" "neu_adapter_driver_del_group intf (g_name g) d1 = Some (rc, d2)"
  shows "\<exists>t \<in> set (ad_timers d2). tm_group t = g_addr g \<and> group_at d2 (g_addr g) = None \<and> timer_fires en2 intf t d2 = None"
proof -
  have ok: "groups_ok d" using node_reach_ok [OF assms(1)] by (simp add: node_ok_def)
  note r = rename_starts [OF node_reach_ok [OF assms(1)] assms(2,5,6,7)]
  have "core g \<in> core ` set (dr_groups d1)"
    using assms(4) arg_cong [OF r(2) [unfolded same_core_def, THEN conjunct1], of set] by simp
  then obtain g1 where "g1 \<in> set (dr_groups d1)" "core g1 = core g" by (metis imageE)
  then have g1: "g1 \<in> set (dr_groups d1)" "g_name g1 = g_name g" "g_addr g1 = g_addr g" by (simp_all add: core_def)
  have "find_group d1 (g_name g) = Some g1"
    using same_core_groups(1) [OF ok r(2)] by (rule find_group_member [OF _ g1(1,2)])
  moreover have "\<not> is_running d1" using assms(3) r(2) by (simp add: is_running_def same_core_def)
  ultimately have d2: "ad_timers d2 = ad_timers d1" "dr_groups d2 = remove1 g1 (dr_groups d1)"
    using del_group_stopped [OF assms(8)] by blast+
  have "distinct (map g_addr (dr_groups d1))" using r(1) by (simp add: timed_def)
  then have "g_addr g \<notin> g_addr ` set (dr_groups d2)"
    using g1 unfolding d2(2) by (rule remove1_addr)
  then have "group_at d2 (g_addr g) = None" by (simp add: group_at_None)
  moreover obtain t where "t \<in> set (ad_timers d1)" "tm_group t = g_addr g" "tm_cb t = Read_callback"
    using group_timer_in [OF r(1) g1(1) imageI [OF g1(1)]] g1(3) by auto
  ultimately show ?thesis using timer_without_group [of d2 t] d2(1) by (intro bexI [of _ t]) simp_all
qed

definition quiet_renamed :: "(nat, unit) neu_adapter" where
  "quiet_renamed = snd (neu_adapter_rename sample_env ''plc2'' quiet_ready)"

theorem rename_stopped_dangling_witness:
  "\<exists>d2. neu_adapter_driver_del_group quiet_plugin ''g'' quiet_renamed = Some (0, d2) \<and>
     (\<exists>t \<in> set (ad_timers d2). group_at d2 (tm_group t) = None \<and> timer_fires sample_env quiet_plugin t d2 = None)"
proof -
  have c: "is_driver quiet_ready" "\<not> is_running quiet_ready" "map g_name (dr_groups quiet_ready) = [''g'']"
    "en_mem sample_env 0" "en_log sample_env"
    "case neu_adapter_driver_del_group quiet_plugin ''g'' quiet_renamed of None \<Rightarrow> False | Some (rc, d2) \<Rightarrow> rc = 0"
    by code_simp+
  then obtain d2 where d2: "neu_adapter_driver_del_group quiet_plugin ''g'' quiet_renamed = Some (0, d2)"
    by (auto split: option.split_asm)
  obtain g where g: "g \<in> set (dr_groups quiet_ready)" "g_name g = ''g''" using c(3) by auto
  have "neu_adapter_rename sample_env ''plc2'' quiet_ready = (fst (neu_adapter_rename sample_env ''plc2'' quiet_ready), quiet_renamed)"
    by (simp add: quiet_renamed_def)
  from rename_stopped_dangling [OF quiet_reach(1) c(1,2) g(1) c(4,5) this, unfolded g(2), OF d2, of sample_env]
  obtain t where "t \<in> set (ad_timers d2)" "group_at d2 (tm_group t) = None" "timer_fires sample_env quiet_plugin t d2 = None"
    by auto
  then show ?thesis using d2 by (intro exI [of _ d2] conjI bexI [of _ t])
qed

section \<open>The end of a node\<close>

lemma uninit_ok:
  assumes "node_ok d" "neu_driver_cache_destroy (dr_cache d) \<noteq> None"
  shows "\<exists>d'. neu_adapter_uninit intf d = Some d' \<and> ad_timers d' = [] \<and> dr_groups d' = []"
proof (cases "is_driver d")
  case False
  then have "dr_groups d = []" "ad_timer_connect d = None" "timed (running_groups d) d"
    using assms(1) by (auto simp: node_ok_def groups_ok_def)
  then have "ad_timers d = []" by (simp add: timed_def timer_def)
  then show ?thesis using False \<open>dr_groups d = []\<close> by (simp add: neu_adapter_uninit_def is_driver_def)
next
  case True
  have "timed (running_groups d) d" using assms(1) by (simp add: node_ok_def)
  from uninit_groups_ok [OF this refl] obtain d1 S where d1: "uninit_groups intf (dr_groups d) d = Some d1" "timed S d1"
    "dr_groups d1 = []" "ad_timer_connect d1 = ad_timer_connect d" "ad_type d1 = ad_type d" "dr_cache d1 = dr_cache d"
    by blast
  obtain h where h: "neu_driver_cache_destroy (dr_cache d) = Some h" using assms(2) by auto
  have m: "mset (ad_timers d1) = timer (ad_timer_connect d1) Try_connect 0 5 0" using d1(2,3) by (simp add: timed_def)
  define d2 where "d2 = del_if (ad_timer_connect d1) (d1\<lparr>ad_plugin := fst (pi_uninit intf (ad_plugin d1))\<rparr>)"
  have d2: "ad_timers d2 = []" "dr_groups d2 = []" "dr_cache d2 = dr_cache d"
    using m d1(3,6) by (auto simp: d2_def timer_def del_if_def neu_event_del_timer_def split: option.splits)
  then show ?thesis using True d1 h
    by (simp add: neu_adapter_uninit_def neu_adapter_driver_uninit_def is_driver_def Let_def d2_def)
qed



section \<open>The slots of the event loops\<close>

text \<open>
  A loop keeps its timers and descriptors in a fixed table, whose entries are in use or free. The
  timers that read and write are on the loop of the driver, those that report and the one that
  connects on the loop of the node.
\<close>

record event_data =
  ev_use :: bool
  ev_index :: int

definition EVENT_SIZE :: nat where "EVENT_SIZE = 1400"

definition get_free_event :: "event_data list \<Rightarrow> int \<times> event_data list" where
  "get_free_event events =
     (case find (\<lambda>i. \<not> ev_use (events ! i)) [0..<EVENT_SIZE] of
        None \<Rightarrow> (- 1, events)
      | Some i \<Rightarrow> (int i, events[i := \<lparr>ev_use = True, ev_index = int i\<rparr>]))"

definition free_event :: "event_data list \<Rightarrow> nat \<Rightarrow> event_data list" where
  "free_event events index = events[index := \<lparr>ev_use = False, ev_index = 0\<rparr>]"

definition used_events :: "event_data list \<Rightarrow> nat" where
  "used_events events = length (filter ev_use events)"

definition driver_loop :: "neu_event_timer \<Rightarrow> bool" where
  "driver_loop t \<longleftrightarrow> tm_cb t = Read_callback \<or> tm_cb t = Write_callback"

lemma get_free_event_ok:
  assumes "length events = EVENT_SIZE" "used_events events < EVENT_SIZE"
  obtains i where "i < EVENT_SIZE" "\<not> ev_use (events ! i)" "get_free_event events = (int i, events[i := \<lparr>ev_use = True, ev_index = int i\<rparr>])"
proof -
  have "\<exists>e \<in> set events. \<not> ev_use e"
  proof (rule ccontr)
    assume "\<not> ?thesis"
    then have "filter ev_use events = events" by (simp add: filter_id_conv)
    then show False using assms by (simp add: used_events_def)
  qed
  then have "find (\<lambda>i. \<not> ev_use (events ! i)) [0..<EVENT_SIZE] \<noteq> None"
    using assms(1) by (auto simp: find_None_iff in_set_conv_nth)
  then obtain i where i: "find (\<lambda>i. \<not> ev_use (events ! i)) [0..<EVENT_SIZE] = Some i" by auto
  then have "i < EVENT_SIZE" "\<not> ev_use (events ! i)" by (auto simp: find_Some_iff)
  then show ?thesis using that i by (simp add: get_free_event_def)
qed

lemma used_update: "used_events (events[i := e]) \<le> Suc (used_events events)"
proof (induction events arbitrary: i)
  case (Cons a events)
  then show ?case by (cases i) (auto simp: used_events_def intro: le_SucI)
qed (simp add: used_events_def)

lemma get_free_event_step:
  assumes "length events = EVENT_SIZE" "used_events events < EVENT_SIZE"
  shows "fst (get_free_event events) \<ge> 0" "length (snd (get_free_event events)) = EVENT_SIZE"
    "used_events (snd (get_free_event events)) \<le> Suc (used_events events)"
  using get_free_event_ok [OF assms] assms(1) used_update by (metis fst_conv snd_conv of_nat_0_le_iff length_list_update)+

lemma count_timers:
  "length (filter driver_loop ts) = size (filter_mset (\<lambda>x. fst x = Read_callback \<or> fst x = Write_callback) (image_mset timer_shape (mset ts)))"
  "length (filter (\<lambda>t. \<not> driver_loop t) ts) =
     size (filter_mset (\<lambda>x. \<not> (fst x = Read_callback \<or> fst x = Write_callback)) (image_mset timer_shape (mset ts)))"
  by (induction ts) (auto simp: driver_loop_def timer_shape_def)

lemma count_group_timers:
  "size (filter_mset (\<lambda>x. fst x = Read_callback \<or> fst x = Write_callback) (sum_list (map group_timers gs))) = 2 * length gs"
  "size (filter_mset (\<lambda>x. \<not> (fst x = Read_callback \<or> fst x = Write_callback)) (sum_list (map group_timers gs))) = length gs"
  by (induction gs) (auto simp: group_timers_def Let_def)

lemma loop_timers:
  assumes "node_ok d"
  shows "length (filter driver_loop (ad_timers d)) \<le> 2 * length (dr_groups d)"
    "length (filter (\<lambda>t. \<not> driver_loop t) (ad_timers d)) \<le> Suc (length (dr_groups d))"
  by (simp_all only: count_timers node_ok_timers [OF assms]) (simp_all add: node_timers_def count_group_timers count_group_timers(2) [simplified])


definition sample_events :: "nat \<Rightarrow> event_data list" where
  "sample_events n = map (\<lambda>i. \<lparr>ev_use = i < n, ev_index = (if i < n then int i else 0)\<rparr>) [0..<EVENT_SIZE]"

lemma sample_events_used: "n \<le> EVENT_SIZE \<Longrightarrow> used_events (sample_events n) = n"
proof -
  assume n: "n \<le> EVENT_SIZE"
  have "length (filter (\<lambda>i. i < n) [0..<EVENT_SIZE]) = card {i. i < EVENT_SIZE \<and> i < n}"
    by (simp add: length_filter_conv_card cong: conj_cong)
  also have "{i. i < EVENT_SIZE \<and> i < n} = {..<n}" using n by auto
  finally show ?thesis by (simp add: used_events_def sample_events_def filter_map comp_def)
qed


section \<open>Writing tags\<close>

text \<open>What a collected value has to do with the tag and the value of the request.\<close>

definition accepted :: "env \<Rightarrow> 'u group_t \<Rightarrow> string \<times> neu_dvalue \<Rightarrow> neu_plugin_tag_value \<Rightarrow> bool" where
  "accepted en g w tv \<longleftrightarrow>
     (case neu_group_find_tag (en_mem en) (g_group g) (fst w) of
        None \<Rightarrow> False
      | Some tag \<Rightarrow> neu_tag_attribute_test tag NEU_ATTRIBUTE_WRITE \<and> value_check en tag (snd w) = NEU_ERR_SUCCESS \<and>
          neu_tag_dup True tag = Some (ptv_tag tv) \<and>
          (\<exists>new h h' v. convert_write en new h tag (snd w) = Some (h', v) \<and> ptv_value tv = dv_value v))"

lemma collect_writes_length: "collect_writes en i ws e h = Some (e', tvs, h') \<Longrightarrow> length tvs \<le> length ws"
proof (induction ws arbitrary: i e h e' tvs h')
  case (Cons w ws)
  have "length tvs \<le> Suc (length ws)" if "collect_writes en (Suc i) ws e1 h1 = Some (e', tvs, h')" for e1 h1
    using Cons.IH [OF that] by simp
  then show ?case using Cons.prems
    by (cases w) (auto simp: bind_eq_Some_conv split: option.splits if_splits dest: Cons.IH)
qed simp

lemma collect_writes_all:
  assumes "collect_writes en i (map (\<lambda>(t, v). (g, t, v)) ws) e h = Some (e', tvs, h')" "length tvs = length ws"
  shows "list_all2 (accepted en g) ws tvs"
  using assms
proof (induction ws arbitrary: i e h e' tvs h')
  case (Cons w ws)
  obtain t v where w: "w = (t, v)" by (cases w)
  have short: "length tvs \<le> length ws" if "collect_writes en (Suc i) (map (\<lambda>(t, v). (g, t, v)) ws) e1 h1 = Some (e', tvs, h')" for e1 h1
    using collect_writes_length [OF that] by simp
  then obtain tag h1 v1 dup e1 tvs1 where s: "neu_group_find_tag (en_mem en) (g_group g) t = Some tag"
    "neu_tag_attribute_test tag NEU_ATTRIBUTE_WRITE" "value_check en tag v = NEU_ERR_SUCCESS"
    "convert_write en (en_news en i 0) h tag v = Some (h1, v1)" "neu_tag_dup (en_mem en 1) tag = Some dup"
    "collect_writes en (Suc i) (map (\<lambda>(t, v). (g, t, v)) ws) e h1 = Some (e1, tvs1, h')"
    "tvs = \<lparr>ptv_tag = dup, ptv_value = dv_value v1, ptv_type = Some (dv_type v1)\<rparr> # tvs1"
    using Cons.prems by (fastforce simp: w bind_eq_Some_conv split: option.splits if_splits)
  have "accepted en g w (hd tvs)" using s by (auto simp: accepted_def w neu_tag_dup_def split: if_splits)
  then show ?case using Cons.IH [OF s(6)] Cons.prems(2) s(7) by simp
qed simp

lemma write_tags_cases:
  assumes "neu_adapter_driver_write_tags en intf req grp tags d = Some (e, d')"
  shows "(e \<noteq> NEU_ERR_SUCCESS \<and> (\<exists>h. d' = write_response req e (set_heap h d))) \<or>
    (e = NEU_ERR_SUCCESS \<and> is_running d \<and> (\<exists>g tvs h. find_group d grp = Some g \<and> list_all2 (accepted en g) tags tvs \<and>
       d' = store_write_tag g (Wt_multi req tvs) (set_heap h d)))"
proof -
  have s: "set_heap (dc_heap (dr_cache d)) d = d" by (simp add: set_heap_def)
  have err: "NEU_ERR_PLUGIN_NOT_RUNNING \<noteq> NEU_ERR_SUCCESS" "NEU_ERR_PLUGIN_NOT_SUPPORT_WRITE_TAGS \<noteq> NEU_ERR_SUCCESS"
    "NEU_ERR_GROUP_NOT_EXIST \<noteq> NEU_ERR_SUCCESS" "NEU_ERR_TAG_NOT_EXIST \<noteq> NEU_ERR_SUCCESS"
    by code_simp+
  have none: "e0 \<noteq> NEU_ERR_SUCCESS \<Longrightarrow> e = e0 \<Longrightarrow> d' = write_response req e0 d \<Longrightarrow> ?thesis" for e0
    using s by metis
  show ?thesis
  proof (cases "ad_state d \<noteq> NEU_NODE_RUNNING_STATE_RUNNING \<or> pi_write_tags intf = None \<or> find_group d grp = None")
    case True
    then show ?thesis using assms err none
      by (auto simp: neu_adapter_driver_write_tags_def Let_def split: if_splits option.splits)
  next
    case False
    then obtain g where g: "find_group d grp = Some g" and run: "is_running d" by (auto simp: is_running_def)
    obtain value_err tvs h where c: "collect_writes en 0 (map (\<lambda>(t, v). (g, t, v)) tags) NEU_ERR_SUCCESS (dc_heap (dr_cache d)) =
        Some (value_err, tvs, h)"
      using assms False g by (auto simp: neu_adapter_driver_write_tags_def Let_def bind_eq_Some_conv)
    show ?thesis
    proof (cases "value_err = NEU_ERR_SUCCESS \<and> length tvs = length tags")
      case True
      then have "e = NEU_ERR_SUCCESS" "d' = store_write_tag g (Wt_multi req tvs) (set_heap h d)"
        using assms False g c by (auto simp: neu_adapter_driver_write_tags_def Let_def)
      then show ?thesis using g run collect_writes_all [OF c] True by blast
    next
      case F: False
      then show ?thesis using assms False g c err
        by (auto simp: neu_adapter_driver_write_tags_def Let_def bind_eq_Some_conv split: if_splits)
    qed
  qed
qed

text \<open>
  C14: A request to write several tags is taken as a whole or not at all. If it is refused, the
  groups of the driver are as before and the one answer is the error that is returned. If it is
  taken, nothing is answered yet and exactly one entry was added at the end of the queue of the
  group, with one value for each tag of the request, in their order; every tag exists and is
  writable and its value was in range.
\<close>

theorem write_tags_all_or_nothing:
  assumes "neu_adapter_driver_write_tags en intf req grp tags d = Some (e, d')"
  shows "(e \<noteq> NEU_ERR_SUCCESS \<and> (\<exists>h. d' = write_response req e (set_heap h d))) \<or>
    (e = NEU_ERR_SUCCESS \<and> is_running d \<and> (\<exists>g tvs h. find_group d grp = Some g \<and> list_all2 (accepted en g) tags tvs \<and>
       d' = store_write_tag g (Wt_multi req tvs) (set_heap h d)))"
  by (rule write_tags_cases [OF assms])

definition write_head :: neu_reqresp_head where
  "write_head = \<lparr>rh_ctx = 7, rh_sender = ''api'', rh_receiver = ''plc''\<rparr>"

text \<open>Requests of the sample driver: one for its tag, one for its tag and a tag that is not there.\<close>

definition good_write :: "(string \<times> neu_dvalue) list" where
  "good_write = [(''t'', typed_value NEU_TYPE_INT64 (set_value_u64 5 zero_value))]"

definition bad_write :: "(string \<times> neu_dvalue) list" where
  "bad_write = good_write @ [(''u'', snd (hd good_write))]"

theorem write_tags_all_or_nothing_witness:
  "(\<exists>d' tvs h g. neu_adapter_driver_write_tags sample_env quiet_plugin write_head ''g'' good_write quiet_running = Some (0, d') \<and>
      d' = store_write_tag g (Wt_multi write_head tvs) (set_heap h quiet_running) \<and> length tvs = 1) \<and>
   (\<exists>d' h. neu_adapter_driver_write_tags sample_env quiet_plugin write_head ''g'' bad_write quiet_running = Some (NEU_ERR_TAG_NOT_EXIST, d') \<and>
      d' = write_response write_head NEU_ERR_TAG_NOT_EXIST (set_heap h quiet_running))"
proof -
  have c: "map_option fst (neu_adapter_driver_write_tags sample_env quiet_plugin write_head ''g'' good_write quiet_running) = Some 0"
    "map_option fst (neu_adapter_driver_write_tags sample_env quiet_plugin write_head ''g'' bad_write quiet_running) =
       Some NEU_ERR_TAG_NOT_EXIST"
    "length good_write = 1" "NEU_ERR_TAG_NOT_EXIST \<noteq> NEU_ERR_SUCCESS"
    by code_simp+
  obtain d1 d2 where d1: "neu_adapter_driver_write_tags sample_env quiet_plugin write_head ''g'' good_write quiet_running = Some (0, d1)"
    and d2: "neu_adapter_driver_write_tags sample_env quiet_plugin write_head ''g'' bad_write quiet_running =
      Some (NEU_ERR_TAG_NOT_EXIST, d2)"
    using c(1,2) by auto
  obtain g tvs h where "list_all2 (accepted sample_env g) good_write tvs"
      "d1 = store_write_tag g (Wt_multi write_head tvs) (set_heap h quiet_running)"
    using write_tags_all_or_nothing [OF d1] by auto
  then have 1: "d1 = store_write_tag g (Wt_multi write_head tvs) (set_heap h quiet_running) \<and> length tvs = 1"
    using c(3) by (auto dest: list_all2_lengthD)
  obtain h2 where "d2 = write_response write_head NEU_ERR_TAG_NOT_EXIST (set_heap h2 quiet_running)"
    using write_tags_all_or_nothing [OF d2] c(4) by auto
  with 1 d1 d2 show ?thesis by blast
qed

text \<open>A plugin whose writing functions call back only to answer, and what it has been given.\<close>

fun is_answer :: "plugin_cb \<Rightarrow> bool" where
  "is_answer (Cb_write_response req e) \<longleftrightarrow> True"
| "is_answer (Cb_write_responses req es) \<longleftrightarrow> True"
| "is_answer cb \<longleftrightarrow> False"

definition only_answers :: "('p, 'u) neu_plugin_intf_funs \<Rightarrow> bool" where
  "only_answers intf \<longleftrightarrow> (\<forall>p req t v. list_all is_answer (snd (pi_write_tag intf p req t v))) \<and>
     (case pi_write_tags intf of None \<Rightarrow> False | Some f \<Rightarrow> \<forall>p req tvs. list_all is_answer (snd (f p req tvs)))"

fun plugin_after :: "('p, 'u) neu_plugin_intf_funs \<Rightarrow> to_be_write_tag list \<Rightarrow> 'p \<Rightarrow> 'p" where
  "plugin_after intf [] p = p"
| "plugin_after intf (w # ws) p = plugin_after intf ws
     (fst (case w of Wt_single req t v \<Rightarrow> pi_write_tag intf p req t v | Wt_multi req tvs \<Rightarrow> the (pi_write_tags intf) p req tvs))"

lemma run_answers: "list_all is_answer cbs \<Longrightarrow> \<exists>out. run_cbs en n cbs d = Some (d\<lparr>ad_out := ad_out d @ out\<rparr>)"
proof (induction cbs arbitrary: n d)
  case Nil
  show ?case by (rule exI [of _ "[]"]) simp
next
  case (Cons cb cbs)
  then obtain x where x: "run_cb en n cb d = Some (d\<lparr>ad_out := ad_out d @ [x]\<rparr>)"
    by (cases cb) (auto simp: write_response_def write_responses_def respond_def emit_def)
  obtain out where "run_cbs en (Suc n) cbs (d\<lparr>ad_out := ad_out d @ [x]\<rparr>) = Some (d\<lparr>ad_out := (ad_out d @ [x]) @ out\<rparr>)"
    using Cons.IH [of "Suc n" "d\<lparr>ad_out := ad_out d @ [x]\<rparr>"] Cons.prems by auto
  then show ?case using x by (intro exI [of _ "x # out"]) simp
qed

lemma write_pending_returns:
  assumes "only_answers intf"
  shows "\<exists>out. write_pending en intf ws d = Some (d\<lparr>ad_plugin := plugin_after intf ws (ad_plugin d), ad_out := ad_out d @ out\<rparr>)"
proof (induction ws arbitrary: d)
  case Nil
  show ?case by (rule exI [of _ "[]"]) simp
next
  case (Cons w ws)
  obtain f where f: "pi_write_tags intf = Some f" using assms by (auto simp: only_answers_def split: option.splits)
  define r where "r = (case w of Wt_single req t v \<Rightarrow> pi_write_tag intf (ad_plugin d) req t v | Wt_multi req tvs \<Rightarrow> f (ad_plugin d) req tvs)"
  have "list_all is_answer (snd r)" using assms f by (auto simp: r_def only_answers_def split: to_be_write_tag.splits)
  from run_answers [OF this, of en 0 "d\<lparr>ad_plugin := fst r\<rparr>"] obtain out where
    out: "run_cbs en 0 (snd r) (d\<lparr>ad_plugin := fst r\<rparr>) = Some (d\<lparr>ad_plugin := fst r, ad_out := ad_out d @ out\<rparr>)" by auto
  have step: "write_pending en intf (w # ws) d = write_pending en intf ws (d\<lparr>ad_plugin := fst r, ad_out := ad_out d @ out\<rparr>)"
    using out by (cases w) (simp_all add: r_def f case_prod_beta)
  obtain out2 where "write_pending en intf ws (d\<lparr>ad_plugin := fst r, ad_out := ad_out d @ out\<rparr>) =
      Some (d\<lparr>ad_plugin := plugin_after intf ws (fst r), ad_out := (ad_out d @ out) @ out2\<rparr>)"
    using Cons.IH [of "d\<lparr>ad_plugin := fst r, ad_out := ad_out d @ out\<rparr>"] by auto
  then show ?case using step by (intro exI [of _ "out @ out2"]) (simp add: r_def f cong: to_be_write_tag.case_cong)
qed

lemma group_at_member:
  assumes "node_ok d" "g \<in> set (dr_groups d)"
  shows "group_at d (g_addr g) = Some g"
proof (cases "group_at d (g_addr g)")
  case None
  then show ?thesis using assms(2) by (auto simp: group_at_None)
next
  case (Some g')
  have "inj_on g_addr (set (dr_groups d))" using node_ok_addrs [OF assms(1)] by (simp add: distinct_map)
  then have "g' = g" using group_at_in [OF Some] assms(2) by (auto dest: inj_onD)
  then show ?thesis using Some by simp
qed

lemma write_timer_in:
  assumes "node_ok d" "is_running d" "g \<in> set (dr_groups d)"
  shows "\<exists>t \<in> set (ad_timers d). timer_shape t = (Write_callback, g_addr g, 0, 3)"
proof -
  have "is_driver d" using assms by (auto simp: node_ok_def groups_ok_def)
  moreover have "(Write_callback, g_addr g, 0, 3) \<in># sum_list (map group_timers gs)" if "g \<in> set gs" for gs :: "'b group_t list"
    using that by (induction gs) (auto simp: group_timers_def Let_def)
  ultimately have "(Write_callback, g_addr g, 0, 3) \<in># node_timers d" using assms(2,3) by (simp add: node_timers_def)
  then show ?thesis unfolding node_ok_timers [OF assms(1), symmetric] by auto
qed

lemma write_callback_drains:
  assumes "node_ok d" "is_running d" "g \<in> set (dr_groups d)" "only_answers intf"
  shows "\<exists>d2 g2. write_callback en intf (g_addr g) d = Some d2 \<and> ad_plugin d2 = plugin_after intf (g_wt_tags g) (ad_plugin d) \<and>
    find_group d2 (g_name g) = Some g2 \<and> g_wt_tags g2 = []"
proof -
  let ?g = "g\<lparr>g_wt_tags := []\<rparr>"
  obtain out where d2: "write_callback en intf (g_addr g) d =
      Some ((set_group ?g d)\<lparr>ad_plugin := plugin_after intf (g_wt_tags g) (ad_plugin d), ad_out := ad_out d @ out\<rparr>)" (is "_ = Some ?d2")
    using write_pending_returns [OF assms(4), of en "g_wt_tags g" "set_group ?g d"] assms(2)
    by (auto simp: write_callback_def group_at_member [OF assms(1,3)] is_running_def set_group_def)
  have "node_ok ?d2" using node_ok_same [OF assms(1) same_write_callback [OF d2 assms(1)]] .
  moreover have "?g \<in> set (dr_groups ?d2)" using assms(3) by (force simp: set_group_def)
  ultimately have "find_group ?d2 (g_name g) = Some ?g" by (intro find_group_member) (simp_all add: node_ok_def)
  then show ?thesis using d2 by fastforce
qed



end
