(* ===== verification/Spec2Isabelle.thy ===== *)
theory Spec2Isabelle
  imports Modbus_Device Subscribe Node_Reach
begin

text \<open>
  A verification development for the neuron industrial gateway. The gateway polls devices
  through driver plugins, keeps the last value of every tag, and passes values on to application
  plugins that have subscribed to them. The development models the way of a value from the Modbus
  wire to the subscriber and back: the Modbus driver, the driver node with its cache, the node
  around it, and the tables they are built on.

  \<^bold>\<open>Parts of the program and theories.\<close>

  \<^item> \<^verbatim>\<open>Neuron_Prelude\<close>, \<^verbatim>\<open>Neuron_Types\<close>: machine integers as words, byte views on a little-endian
    host, the C string functions in use, the enumerations, the error codes and the value union of
    \<^verbatim>\<open>include/neuron/type.h\<close>, \<^verbatim>\<open>define.h\<close> and \<^verbatim>\<open>errcodes.h\<close>. A union is its bytes.
  \<^item> \<^verbatim>\<open>Protocol_Buf\<close>: the cursors of \<^verbatim>\<open>utils/protocol_buf.h\<close>.
  \<^item> \<^verbatim>\<open>Modbus_Frame\<close>, \<^verbatim>\<open>Modbus_Stack\<close>: \<^verbatim>\<open>plugins/modbus/modbus.c\<close> and \<^verbatim>\<open>modbus_stack.c\<close>. The parts
    of a frame are wrapped and unwrapped on the buffer, and the stack builds requests and takes
    responses apart. Calls back into the plugin are events in a list.
  \<^item> \<^verbatim>\<open>Tag_Sort\<close>, \<^verbatim>\<open>Modbus_Point\<close>: \<^verbatim>\<open>src/base/tag_sort.c\<close> with the merge sort of \<^verbatim>\<open>utlist.h\<close>, and
    \<^verbatim>\<open>modbus_point.c\<close>: parsing addresses, grouping points into commands.
  \<^item> \<^verbatim>\<open>Modbus_Value\<close>, \<^verbatim>\<open>Modbus_Req\<close>, \<^verbatim>\<open>Modbus_Device\<close>: \<^verbatim>\<open>modbus_req.c\<close>: from data to values and back,
    sending, receiving, retries, degradation, and the composition with a device that answers.
  \<^item> \<^verbatim>\<open>Datatag\<close>, \<^verbatim>\<open>Uthash\<close>, \<^verbatim>\<open>Tag_Group\<close>: \<^verbatim>\<open>src/base/tag.c\<close>, \<^verbatim>\<open>utils/uthash.h\<close>, \<^verbatim>\<open>src/base/group.c\<close>.
  \<^item> \<^verbatim>\<open>Subscribe\<close>: the registry of subscriptions, \<^verbatim>\<open>src/core/subscribe.c\<close>.
  \<^item> \<^verbatim>\<open>Driver_Cache\<close>, \<^verbatim>\<open>Cache_Safety\<close>: \<^verbatim>\<open>src/adapter/driver/cache.c\<close>, with the memory behind arrays,
    strings and pointers as an explicit heap.
  \<^item> \<^verbatim>\<open>Driver_Value\<close>, \<^verbatim>\<open>Driver\<close>: \<^verbatim>\<open>src/adapter/driver/driver.c\<close>. The record \<open>neu_adapter\<close> is the
    node with its driver part; a plugin is the record \<open>neu_plugin_intf_funs\<close> of its functions over
    any state, whose calls back are returned as a list and run by \<open>run_cbs\<close>.
  \<^item> \<^verbatim>\<open>Adapter\<close>: \<^verbatim>\<open>src/adapter/adapter.c\<close>: creation, life cycle, and \<open>adapter_loop\<close> with one handler
    per message. What a node sends and stores is a list of outputs.
  \<^item> \<^verbatim>\<open>Node_Ok\<close>, \<^verbatim>\<open>Node_Reach\<close>: the invariant of a node and the states it reaches when requests
    and timers come in any order; the table of the event loop, \<^verbatim>\<open>src/event/event_linux.c\<close>.

  \<^bold>\<open>What is shown.\<close>

  \<^item> Wire: requests are the frames of the Modbus specification; at most one value of the addressed
    slave is taken from a response, whatever bytes arrive; the checksum is the CRC-16 of Modbus and
    detects a changed byte; a value survives writing and reading in every byte order.
  \<^item> Polling: grouping terminates and puts every point into exactly one command; a cycle against
    an answering device reports every tag once with the value of its registers; a silent slave is
    asked a bounded number of times and reported.
  \<^item> Tables: the hash table, the tag groups and the registry of subscriptions refine a finite map, an
    ordered list with distinct names, and a map from driver and group to subscriptions, under any
    sequence of operations.
  \<^item> Cache: no operation frees twice or reads freed memory, values come back as stored, changes
    are reported exactly once.
  \<^item> Node: in every reachable state the node is well formed and its live timers are exactly those
    of its groups; a write is queued as a whole or refused as a whole and reaches the plugin;
    deleting the node leaves nothing behind; the tables of the event loops suffice for 512 groups.
  \<^item> Defects: sequence numbers that wrap around, a write that overruns its buffer, a renaming that
    does not return, comparing freed memory, a missing byte order, and a timer of a freed group are
    theorems of their own.

  \<^bold>\<open>Conventions.\<close> A failing assertion, the use of a null or freed pointer and any other undefined
  behaviour is \<open>None\<close>. Errors are the codes of the program. Loops are structural or have a
  termination proof, and no fuel is used; the one loop that may run on, the renaming of a driver in
  the registry, is a partial function, and its theorem says exactly when it returns. Code outside the
  repository is an argument: the connection (\<open>conn_ops\<close>), floating point arithmetic (\<open>fp_ops\<close>),
  comparison of JSON documents, the hash function, the clock and the success of allocations
  (\<open>env\<close>). A request, a callback of the plugin and a run of a timer are each one step; the locks
  that make them so are not modelled.

  \<^bold>\<open>Not modelled.\<close> The manager and its registries of nodes and plugins, the application plugins
  (MQTT, REST, Kafka, eKuiper, Datalayers, monitor, file), sockets and serial lines, SQLite, JSON,
  tracing, metrics, logs, imports of device descriptions, the process itself and the simulator: input
  and output, or layers over libraries. Of the nodes, transfers of files, templates, certificates and
  notifications of the monitor are left out.
\<close>

end
